(* ===== verification/Gump_Prelude.thy ===== *)
theory Gump_Prelude
  imports Main "HOL-Library.Word" "HOL-Library.List_Lexorder" "HOL-Library.Char_ord"
    "HOL-Library.Product_Lexorder"
begin

text \<open>
  Shared vocabulary of the development: the machine integers of the Rust sources and their
  saturating operations, byte strings, the text formatting that error messages use, and the
  model of \<open>std::collections::BTreeMap\<close> as a strictly sorted association list, with the
  interface (locale) that the components rely on.

  Unsigned integers (\<open>u32\<close>, \<open>u64\<close>, \<open>usize\<close>) are natural numbers; every operation
  that saturates or wraps in the source says so here with its width. \<open>usize\<close> has 64 bits, as
  on every supported target. A Rust \<open>String\<close> is the list of its UTF-8 bytes, one \<open>char\<close> per
  byte, so that \<open>length\<close> is \<open>str::len\<close> and the lexicographic order is \<open>str\<close>'s order.
\<close>

named_theorems sat_simps \<open>saturating and wrapping arithmetic\<close>
named_theorems bt_simps \<open>rewriting of ordered maps\<close>
named_theorems bt_intros \<open>preservation of the ordered-map invariant\<close>

section \<open>Machine integers\<close>

type_synonym u64 = nat
type_synonym u32 = nat
type_synonym usize = nat
type_synonym i64 = int
type_synonym byte = "8 word"
type_synonym bytes = "byte list"

definition u64_max :: u64 where
  "u64_max = 2 ^ 64 - 1"

definition u32_max :: u32 where
  "u32_max = 2 ^ 32 - 1"

definition sat_add64 :: "u64 \<Rightarrow> u64 \<Rightarrow> u64" where
  "sat_add64 a b = min (a + b) u64_max"

definition sat_add32 :: "u32 \<Rightarrow> u32 \<Rightarrow> u32" where
  "sat_add32 a b = min (a + b) u32_max"

definition sat_mul64 :: "u64 \<Rightarrow> u64 \<Rightarrow> u64" where
  "sat_mul64 a b = min (a * b) u64_max"

text \<open>Plain \<open>+=\<close> on \<open>u64\<close>: it wraps in a release build (and panics in a debug build).\<close>

definition wrap_add64 :: "u64 \<Rightarrow> u64 \<Rightarrow> u64" where
  "wrap_add64 a b = (a + b) mod 2 ^ 64"

text \<open>\<open>saturating_sub\<close> on unsigned integers is subtraction on \<open>nat\<close>.\<close>

definition sat_sub :: "nat \<Rightarrow> nat \<Rightarrow> nat" where
  "sat_sub a b = a - b"

text \<open>\<open>u64 as i64\<close> keeps the bits; \<open>i64::saturating_add\<close> clamps.\<close>

definition as_i64 :: "u64 \<Rightarrow> i64" where
  "as_i64 n = (if n < 2 ^ 63 then int n else int n - 2 ^ 64)"

definition i64_max :: i64 where
  "i64_max = 2 ^ 63 - 1"

definition i64_min :: i64 where
  "i64_min = - (2 ^ 63)"

definition sat_add_i64 :: "i64 \<Rightarrow> i64 \<Rightarrow> i64" where
  "sat_add_i64 a b = max i64_min (min i64_max (a + b))"

lemma sat_add64_le_max [simp]: "sat_add64 a b \<le> u64_max"
  by (simp add: sat_add64_def)

lemma sat_add64_mono: "a \<le> u64_max \<Longrightarrow> a \<le> sat_add64 a b"
  by (simp add: sat_add64_def)

lemma sat_add64_le: "sat_add64 a b \<le> a + b"
  by (simp add: sat_add64_def)

lemma sat_add64_exact [sat_simps]: "a + b \<le> u64_max \<Longrightarrow> sat_add64 a b = a + b"
  by (simp add: sat_add64_def)

lemma sat_add64_one [sat_simps]: "a < u64_max \<Longrightarrow> sat_add64 a 1 = Suc a"
  by (simp add: sat_add64_def)

lemma sat_add64_gt: "a < u64_max \<Longrightarrow> 0 < b \<Longrightarrow> a < sat_add64 a b"
  by (simp add: sat_add64_def)

lemma sat_add64_not_gt: "sat_add64 a b \<le> l \<Longrightarrow> l < u64_max \<Longrightarrow> a + b \<le> l"
  by (simp add: sat_add64_def split: if_splits)

lemma sat_add32_exact [sat_simps]: "a + b \<le> u32_max \<Longrightarrow> sat_add32 a b = a + b"
  by (simp add: sat_add32_def)

lemma wrap_add64_exact [sat_simps]: "a + b \<le> u64_max \<Longrightarrow> wrap_add64 a b = a + b"
  by (simp add: wrap_add64_def u64_max_def)

lemma sat_sub_eq [sat_simps]: "sat_sub a b = a - b"
  by (simp add: sat_sub_def)

lemma as_i64_small [sat_simps]: "n < 2 ^ 63 \<Longrightarrow> as_i64 n = int n"
  by (simp add: as_i64_def)

section \<open>Text formatting\<close>

definition digit_char :: "nat \<Rightarrow> char" where
  "digit_char d = char_of (48 + d)"

fun show_nat :: "nat \<Rightarrow> string" where
  "show_nat n = (if n < 10 then [digit_char n] else show_nat (n div 10) @ [digit_char (n mod 10)])"

declare show_nat.simps [simp del]

definition hex_char :: "nat \<Rightarrow> char" where
  "hex_char d = (if d < 10 then char_of (48 + d) else char_of (87 + d))"

definition hex2 :: "byte \<Rightarrow> string" where
  "hex2 b = [hex_char (unat b div 16), hex_char (unat b mod 16)]"

definition hex_bytes :: "bytes \<Rightarrow> string" where
  "hex_bytes bs = concat (map hex2 bs)"

fun join_with :: "string \<Rightarrow> string list \<Rightarrow> string" where
  "join_with sep [] = []"
| "join_with sep [x] = x"
| "join_with sep (x # y # ys) = x @ sep @ join_with sep (y # ys)"

text \<open>The derived \<open>Debug\<close> text of a byte array, \<open>[1, 2, 3]\<close>.\<close>

definition debug_bytes :: "bytes \<Rightarrow> string" where
  "debug_bytes bs = ''['' @ join_with '', '' (map (\<lambda>b. show_nat (unat b)) bs) @ '']''"

lemma show_nat_ne [simp]: "show_nat n \<noteq> []"
  by (subst show_nat.simps) simp

lemma length_hex2 [simp]: "length (hex2 b) = 2"
  by (simp add: hex2_def)

lemma length_hex_bytes [simp]: "length (hex_bytes bs) = 2 * length bs"
  by (induction bs) (auto simp: hex_bytes_def)

section \<open>Ordered maps\<close>

text \<open>
  \<open>BTreeMap<K, V>\<close> as the list of its entries in iteration order. The invariant is that keys
  are strictly increasing; \<open>len\<close> is \<open>length\<close> and \<open>iter\<close> is the list itself.
\<close>

type_synonym ('k, 'v) btree = "('k \<times> 'v) list"

definition bt_ok :: "('k::linorder, 'v) btree \<Rightarrow> bool" where
  "bt_ok m \<longleftrightarrow> sorted_wrt (<) (map fst m)"

definition bt_get :: "('k, 'v) btree \<Rightarrow> 'k \<Rightarrow> 'v option" where
  "bt_get m = map_of m"

fun bt_insert :: "'k::linorder \<Rightarrow> 'v \<Rightarrow> ('k, 'v) btree \<Rightarrow> ('k, 'v) btree" where
  "bt_insert k v [] = [(k, v)]"
| "bt_insert k v (e # es) =
     (if fst e < k then e # bt_insert k v es
      else if fst e = k then (k, v) # es
      else (k, v) # e # es)"

definition bt_remove :: "'k \<Rightarrow> ('k, 'v) btree \<Rightarrow> ('k, 'v) btree" where
  "bt_remove k m = filter (\<lambda>e. fst e \<noteq> k) m"

definition bt_retain :: "('k \<Rightarrow> 'v \<Rightarrow> bool) \<Rightarrow> ('k, 'v) btree \<Rightarrow> ('k, 'v) btree" where
  "bt_retain P m = filter (\<lambda>e. P (fst e) (snd e)) m"

definition bt_has :: "('k, 'v) btree \<Rightarrow> 'k \<Rightarrow> bool" where
  "bt_has m k \<longleftrightarrow> bt_get m k \<noteq> None"

definition bt_values :: "('k, 'v) btree \<Rightarrow> 'v list" where
  "bt_values m = map snd m"

definition bt_sum :: "('k \<Rightarrow> 'v \<Rightarrow> nat) \<Rightarrow> ('k, 'v) btree \<Rightarrow> nat" where
  "bt_sum w m = sum_list (map (\<lambda>e. w (fst e) (snd e)) m)"

subsection \<open>Lookups\<close>

lemma bt_get_Nil [simp]: "bt_get [] k = None"
  by (simp add: bt_get_def)

lemma bt_get_Cons: "bt_get (e # m) k = (if k = fst e then Some (snd e) else bt_get m k)"
  by (cases e) (simp add: bt_get_def)

lemma bt_get_insert [bt_simps]:
  "bt_get (bt_insert k v m) k' = (if k' = k then Some v else bt_get m k')"
  by (induction k v m rule: bt_insert.induct) (auto simp: bt_get_Cons)

lemma bt_get_remove [bt_simps]:
  "bt_get (bt_remove k m) k' = (if k' = k then None else bt_get m k')"
  by (induction m) (auto simp: bt_get_Cons bt_remove_def)

lemma bt_has_insert [bt_simps]: "bt_has (bt_insert k v m) k' \<longleftrightarrow> k' = k \<or> bt_has m k'"
  by (simp add: bt_has_def bt_get_insert)

lemma bt_has_remove [bt_simps]: "bt_has (bt_remove k m) k' \<longleftrightarrow> k' \<noteq> k \<and> bt_has m k'"
  by (simp add: bt_has_def bt_get_remove)

lemma bt_get_None_iff: "bt_get m k = None \<longleftrightarrow> k \<notin> fst ` set m"
  by (simp add: bt_get_def map_of_eq_None_iff)

lemma bt_get_in_set: "bt_get m k = Some v \<Longrightarrow> (k, v) \<in> set m"
  by (simp add: bt_get_def map_of_SomeD)

lemma bt_remove_absent: "bt_get m k = None \<Longrightarrow> bt_remove k m = m"
  by (auto simp: bt_remove_def bt_get_None_iff filter_id_conv image_iff)

subsection \<open>The invariant\<close>

lemma bt_ok_Nil [simp]: "bt_ok []"
  by (simp add: bt_ok_def)

lemma bt_ok_Cons: "bt_ok (e # m) \<longleftrightarrow> (\<forall>x \<in> set m. fst e < fst x) \<and> bt_ok m"
  by (auto simp: bt_ok_def)

lemma set_bt_insert: "set (bt_insert k v m) \<subseteq> insert (k, v) (set m)"
  by (induction k v m rule: bt_insert.induct) auto

lemma bt_ok_insert [bt_intros]: "bt_ok m \<Longrightarrow> bt_ok (bt_insert k v m)"
proof (induction k v m rule: bt_insert.induct)
  case (1 k v)
  then show ?case by (simp add: bt_ok_Cons)
next
  case (2 k v e es)
  then show ?case
    using set_bt_insert [of k v es] by (fastforce simp: bt_ok_Cons)
qed

lemma bt_ok_filter: "bt_ok m \<Longrightarrow> bt_ok (filter P m)"
  by (induction m) (auto simp: bt_ok_Cons)

lemma bt_ok_remove [bt_intros]: "bt_ok m \<Longrightarrow> bt_ok (bt_remove k m)"
  by (simp add: bt_remove_def bt_ok_filter)

lemma bt_ok_retain [bt_intros]: "bt_ok m \<Longrightarrow> bt_ok (bt_retain P m)"
  by (simp add: bt_retain_def bt_ok_filter)

lemma bt_ok_distinct: "bt_ok m \<Longrightarrow> distinct (map fst m)"
  by (simp add: bt_ok_def strict_sorted_iff)

lemma bt_in_set_iff: "bt_ok m \<Longrightarrow> (k, v) \<in> set m \<longleftrightarrow> bt_get m k = Some v"
  by (simp add: bt_get_def bt_ok_distinct)

lemma bt_get_retain [bt_simps]:
  "bt_ok m \<Longrightarrow> bt_get (bt_retain P m) k =
     (case bt_get m k of Some v \<Rightarrow> if P k v then Some v else None | None \<Rightarrow> None)"
proof (induction m)
  case (Cons e m)
  then have "fst e \<notin> fst ` set m" and "bt_ok m"
    by (auto simp: bt_ok_Cons)
  with Cons.IH show ?case
    using bt_get_None_iff [of m "fst e"]
    by (auto simp: bt_get_Cons bt_retain_def split: option.splits)
qed (simp add: bt_retain_def)

subsection \<open>Sizes and sums\<close>

lemma bt_sum_Nil [simp]: "bt_sum w [] = 0"
  by (simp add: bt_sum_def)

lemma bt_sum_Cons: "bt_sum w (e # m) = w (fst e) (snd e) + bt_sum w m"
  by (simp add: bt_sum_def)

lemma bt_remove_Cons:
  "bt_remove k (e # m) = (if fst e = k then bt_remove k m else e # bt_remove k m)"
  by (simp add: bt_remove_def)

lemma bt_remove_above: "\<forall>x \<in> set m. (k::'k::linorder) < fst x \<Longrightarrow> bt_remove k m = m"
  unfolding bt_remove_def by (rule filter_True) force

lemma bt_sum_split:
  "bt_ok m \<Longrightarrow> bt_sum w m =
     (case bt_get m k of None \<Rightarrow> 0 | Some v \<Rightarrow> w k v) + bt_sum w (bt_remove k m)"
proof (induction m)
  case (Cons e m)
  show ?case
  proof (cases "fst e = k")
    case True
    with Cons.prems have "bt_remove k m = m"
      by (intro bt_remove_above) (auto simp: bt_ok_Cons)
    with True show ?thesis
      by (simp add: bt_get_Cons bt_sum_Cons bt_remove_Cons)
  next
    case False
    with Cons show ?thesis
      by (simp add: bt_get_Cons bt_sum_Cons bt_remove_Cons bt_ok_Cons)
  qed
qed (simp add: bt_remove_def)

lemma bt_remove_insert: "bt_ok m \<Longrightarrow> bt_remove k (bt_insert k v m) = bt_remove k m"
proof (induction k v m rule: bt_insert.induct)
  case (2 k v e es)
  then show ?case by (auto simp: bt_remove_Cons bt_ok_Cons)
qed (simp add: bt_remove_def)

lemma bt_sum_insert:
  assumes "bt_ok m"
  shows "bt_sum w (bt_insert k v m) = w k v + bt_sum w (bt_remove k m)"
  using bt_sum_split [OF bt_ok_insert [OF assms], of w k v k] assms
  by (simp add: bt_get_insert bt_remove_insert)

lemma bt_length_sum: "bt_sum (\<lambda>_ _. Suc 0) m = length m"
  by (induction m) (auto simp: bt_sum_Cons)

lemma bt_length_insert:
  assumes "bt_ok m"
  shows "length (bt_insert k v m) = (if bt_has m k then length m else Suc (length m))"
  using bt_sum_split [OF assms, of "\<lambda>_ _. Suc 0" k] bt_sum_insert [OF assms, of "\<lambda>_ _. Suc 0" k v]
  by (auto simp: bt_length_sum bt_has_def split: option.splits)

lemma bt_length_remove:
  assumes "bt_ok m"
  shows "length (bt_remove k m) = (if bt_has m k then length m - 1 else length m)"
  using bt_sum_split [OF assms, of "\<lambda>_ _. Suc 0" k]
  by (auto simp: bt_length_sum bt_has_def split: option.splits)

lemma bt_length_remove_le: "length (bt_remove k m) \<le> length m"
  by (simp add: bt_remove_def)

lemma bt_length_retain_le: "length (bt_retain P m) \<le> length m"
  by (simp add: bt_retain_def)

lemma bt_sum_cong:
  "(\<And>k v. (k, v) \<in> set m \<Longrightarrow> w k v = w' k v) \<Longrightarrow> bt_sum w m = bt_sum w' m"
  unfolding bt_sum_def by (intro arg_cong [where f = sum_list] map_cong) auto

lemma bt_sum_member_le: "(k, v) \<in> set m \<Longrightarrow> w k v \<le> bt_sum w m"
  by (induction m) (auto simp: bt_sum_Cons)

text \<open>Two maps with the same entries are the same map: \<open>get\<close> determines the iteration order.\<close>

lemma bt_ext:
  assumes "bt_ok m" and "bt_ok n" and "\<And>k. bt_get m k = bt_get n k"
  shows "m = n"
proof -
  have keys: "map fst m = map fst n"
  proof (rule sorted_distinct_set_unique)
    show "set (map fst m) = set (map fst n)"
      using assms(3) bt_get_None_iff [of m] bt_get_None_iff [of n] by (simp add: set_eq_iff)
  qed (use assms(1,2) in \<open>simp_all add: bt_ok_def strict_sorted_iff\<close>)
  show ?thesis
  proof (rule nth_equalityI)
    show len: "length m = length n"
      using arg_cong [OF keys, of length] by simp
    fix i assume i: "i < length m"
    have "bt_get m (fst (m ! i)) = Some (snd (m ! i))"
      using assms(1) i by (simp add: bt_in_set_iff [symmetric])
    moreover have "bt_get n (fst (n ! i)) = Some (snd (n ! i))"
      using assms(2) i len by (simp add: bt_in_set_iff [symmetric])
    moreover have "fst (m ! i) = fst (n ! i)"
      using arg_cong [OF keys, of "\<lambda>xs. xs ! i"] i len by simp
    ultimately show "m ! i = n ! i"
      using assms(3) by (simp add: prod_eq_iff)
  qed
qed

section \<open>Interfaces\<close>

text \<open>
  What the components rely on in a map: lookups after updates, the invariant, and a weighted total
  (bytes, entries, reserved resources) that an update changes by exactly one entry. The client
  lemmas about replacing, adding and dropping an entry are proved once here.
\<close>

locale metered_map =
  fixes get :: "'m \<Rightarrow> 'k \<Rightarrow> 'v option"
    and insert :: "'k \<Rightarrow> 'v \<Rightarrow> 'm \<Rightarrow> 'm"
    and remove :: "'k \<Rightarrow> 'm \<Rightarrow> 'm"
    and ok :: "'m \<Rightarrow> bool"
    and total :: "('k \<Rightarrow> 'v \<Rightarrow> nat) \<Rightarrow> 'm \<Rightarrow> nat"
  assumes get_insert: "get (insert k v m) k' = (if k' = k then Some v else get m k')"
    and get_remove: "get (remove k m) k' = (if k' = k then None else get m k')"
    and ok_insert: "ok m \<Longrightarrow> ok (insert k v m)"
    and ok_remove: "ok m \<Longrightarrow> ok (remove k m)"
    and total_insert: "ok m \<Longrightarrow> total w (insert k v m) = w k v + total w (remove k m)"
    and total_split: "ok m \<Longrightarrow>
      total w m = (case get m k of None \<Rightarrow> 0 | Some v \<Rightarrow> w k v) + total w (remove k m)"
begin

lemma total_fresh:
  "ok m \<Longrightarrow> get m k = None \<Longrightarrow> total w (insert k v m) = total w m + w k v"
  by (simp add: total_insert total_split [of m w k])

lemma total_replace:
  "ok m \<Longrightarrow> get m k = Some u \<Longrightarrow> total w (insert k v m) = total w m - w k u + w k v"
  by (simp add: total_insert total_split [of m w k])

lemma total_drop:
  "ok m \<Longrightarrow> get m k = Some u \<Longrightarrow> total w (remove k m) = total w m - w k u"
  by (simp add: total_split [of m w k])

lemma total_drop_absent:
  "ok m \<Longrightarrow> get m k = None \<Longrightarrow> total w (remove k m) = total w m"
  by (simp add: total_split [of m w k])

lemma entry_le_total: "ok m \<Longrightarrow> get m k = Some u \<Longrightarrow> w k u \<le> total w m"
  by (simp add: total_split [of m w k])

lemma get_insert_same: "get (insert k v m) k = Some v"
  by (simp add: get_insert)

lemma get_insert_other: "k' \<noteq> k \<Longrightarrow> get (insert k v m) k' = get m k'"
  by (simp add: get_insert)

end

interpretation bt: metered_map bt_get bt_insert bt_remove bt_ok bt_sum
  by unfold_locales
    (simp_all add: bt_get_insert bt_get_remove bt_ok_insert bt_ok_remove bt_sum_insert bt_sum_split)

text \<open>
  A component driven by commands: every command keeps the invariant, so every run does. The
  second interface adds a counter (a revision, an epoch, a committed clock) that no command
  moves backwards.
\<close>

locale invariant_machine =
  fixes step :: "'c \<Rightarrow> 's \<Rightarrow> 's"
    and inv :: "'s \<Rightarrow> bool"
  assumes inv_step: "inv s \<Longrightarrow> inv (step c s)"
begin

lemma inv_run: "inv s \<Longrightarrow> inv (fold step cs s)"
  by (induction cs arbitrary: s) (simp_all add: inv_step)

end

locale monotone_machine = invariant_machine step inv
  for step :: "'c \<Rightarrow> 's \<Rightarrow> 's" and inv :: "'s \<Rightarrow> bool" +
  fixes clock :: "'s \<Rightarrow> nat"
  assumes clock_step: "inv s \<Longrightarrow> clock s \<le> clock (step c s)"
begin

lemma clock_run: "inv s \<Longrightarrow> clock s \<le> clock (fold step cs s)"
proof (induction cs arbitrary: s)
  case (Cons c cs)
  then have "clock (step c s) \<le> clock (fold step cs (step c s))"
    by (simp add: inv_step)
  with clock_step [OF Cons.prems, of c] show ?case by simp
qed simp

lemma clock_prefix:
  "inv s \<Longrightarrow> clock (fold step cs s) \<le> clock (fold step (cs @ ds) s)"
  by (simp add: clock_run inv_run)

end

end
