(* ===== verification/Record_Keys.thy ===== *)
theory Record_Keys
  imports Gump_Prelude
begin

text \<open>
  The typed record keyspace and the versioned record values of the replicated memory:
  \<open>gump-memory/src/records/key.rs\<close> and \<open>gump-memory/src/records/value.rs\<close>. The BLAKE3 digest
  comes from a third-party crate and is the parameter \<open>H\<close>.
\<close>

section \<open>Keys\<close>

datatype key_prefix =
    ClusterMeta | Members | AuthorityController | Names | WorkloadsDesired | WorkloadsHistory
  | Executions | Units | Placements | Attempts | Barriers | Materializations | Publication
  | Custody | Operations | Observations | Reasons

datatype record_class = ClassAuthoritative | ClassLeasedCapable | ClassHistory

fun max_payload :: "key_prefix \<Rightarrow> usize" where
  "max_payload ClusterMeta = 64 * 1024"
| "max_payload Members = 64 * 1024"
| "max_payload AuthorityController = 8 * 1024"
| "max_payload Names = 4 * 1024"
| "max_payload WorkloadsDesired = 256 * 1024"
| "max_payload WorkloadsHistory = 64 * 1024"
| "max_payload Executions = 64 * 1024"
| "max_payload Attempts = 64 * 1024"
| "max_payload Operations = 64 * 1024"
| "max_payload Observations = 64 * 1024"
| "max_payload Units = 32 * 1024"
| "max_payload Placements = 32 * 1024"
| "max_payload Publication = 32 * 1024"
| "max_payload Barriers = 256 * 1024"
| "max_payload Materializations = 8 * 1024"
| "max_payload Custody = 8 * 1024"
| "max_payload Reasons = 64 * 1024"

fun prefix_as_str :: "key_prefix \<Rightarrow> string" where
  "prefix_as_str ClusterMeta = ''/cluster/meta''"
| "prefix_as_str Members = ''/members''"
| "prefix_as_str AuthorityController = ''/authority/controller''"
| "prefix_as_str Names = ''/names''"
| "prefix_as_str WorkloadsDesired = ''/workloads/desired''"
| "prefix_as_str WorkloadsHistory = ''/workloads/history''"
| "prefix_as_str Executions = ''/executions''"
| "prefix_as_str Units = ''/units''"
| "prefix_as_str Placements = ''/placements''"
| "prefix_as_str Attempts = ''/attempts''"
| "prefix_as_str Barriers = ''/barriers''"
| "prefix_as_str Materializations = ''/materializations''"
| "prefix_as_str Publication = ''/publication''"
| "prefix_as_str Custody = ''/custody''"
| "prefix_as_str Operations = ''/operations''"
| "prefix_as_str Observations = ''/observations''"
| "prefix_as_str Reasons = ''/reasons''"

fun default_class :: "key_prefix \<Rightarrow> record_class" where
  "default_class WorkloadsHistory = ClassHistory"
| "default_class Operations = ClassHistory"
| "default_class Observations = ClassHistory"
| "default_class Reasons = ClassHistory"
| "default_class Members = ClassLeasedCapable"
| "default_class AuthorityController = ClassLeasedCapable"
| "default_class Placements = ClassLeasedCapable"
| "default_class Attempts = ClassLeasedCapable"
| "default_class Barriers = ClassLeasedCapable"
| "default_class Materializations = ClassLeasedCapable"
| "default_class Publication = ClassLeasedCapable"
| "default_class Custody = ClassLeasedCapable"
| "default_class _ = ClassAuthoritative"

datatype record_key = RecordKey (key_prefix: key_prefix) (key_suffix: string)

datatype key_error = SuffixTooLong usize usize | InvalidSuffix

definition max_suffix :: usize where
  "max_suffix = 256"

text \<open>
  \<open>chars().any(|c| c == '\0' || c.is_control())\<close> on UTF-8 bytes: the control characters are
  U+0000 to U+001F and U+007F, which are single bytes, and U+0080 to U+009F, which are encoded as
  the lead byte C2 followed by 80 to 9F.
\<close>

fun has_control :: "string \<Rightarrow> bool" where
  "has_control [] = False"
| "has_control (c # cs) =
     (of_char c < (32::nat) \<or> of_char c = (127::nat) \<or>
      (of_char c = (194::nat) \<and>
        (case cs of d # _ \<Rightarrow> (128::nat) \<le> of_char d \<and> of_char d \<le> (159::nat) | [] \<Rightarrow> False)) \<or>
      has_control cs)"

definition record_key_new :: "key_prefix \<Rightarrow> string \<Rightarrow> key_error + record_key" where
  "record_key_new p s =
     (if length s > max_suffix then Inl (SuffixTooLong (length s) max_suffix)
      else if has_control s then Inl InvalidSuffix
      else Inr (RecordKey p s))"

definition record_key_display :: "record_key \<Rightarrow> string" where
  "record_key_display k =
     (if key_suffix k = [] then prefix_as_str (key_prefix k)
      else prefix_as_str (key_prefix k) @ ''/'' @ key_suffix k)"

fun key_error_display :: "key_error \<Rightarrow> string" where
  "key_error_display (SuffixTooLong l m) =
     ''key suffix length '' @ show_nat l @ '' exceeds max '' @ show_nat m"
| "key_error_display InvalidSuffix = ''key suffix contains invalid characters''"

text \<open>The derived order of \<open>RecordKey\<close>: declaration order of the prefixes, then the suffix bytes.\<close>

fun prefix_index :: "key_prefix \<Rightarrow> nat" where
  "prefix_index ClusterMeta = 0"
| "prefix_index Members = 1"
| "prefix_index AuthorityController = 2"
| "prefix_index Names = 3"
| "prefix_index WorkloadsDesired = 4"
| "prefix_index WorkloadsHistory = 5"
| "prefix_index Executions = 6"
| "prefix_index Units = 7"
| "prefix_index Placements = 8"
| "prefix_index Attempts = 9"
| "prefix_index Barriers = 10"
| "prefix_index Materializations = 11"
| "prefix_index Publication = 12"
| "prefix_index Custody = 13"
| "prefix_index Operations = 14"
| "prefix_index Observations = 15"
| "prefix_index Reasons = 16"

lemma prefix_index_inject [simp]: "prefix_index p = prefix_index q \<longleftrightarrow> p = q"
  by (cases p; cases q) simp_all

definition key_rank :: "record_key \<Rightarrow> nat \<times> string" where
  "key_rank k = (prefix_index (key_prefix k), key_suffix k)"

lemma key_rank_inject [simp]: "key_rank k = key_rank l \<longleftrightarrow> k = l"
  by (cases k; cases l) (simp add: key_rank_def)

instantiation record_key :: linorder
begin

definition less_eq_record_key :: "record_key \<Rightarrow> record_key \<Rightarrow> bool" where
  "less_eq_record_key k l \<longleftrightarrow> key_rank k \<le> key_rank l"

definition less_record_key :: "record_key \<Rightarrow> record_key \<Rightarrow> bool" where
  "less_record_key k l \<longleftrightarrow> key_rank k < key_rank l"

instance
proof
  fix k l m :: record_key
  show "k < l \<longleftrightarrow> k \<le> l \<and> \<not> l \<le> k"
    by (simp add: less_eq_record_key_def less_record_key_def less_le_not_le)
  show "k \<le> k"
    by (simp add: less_eq_record_key_def)
  show "k \<le> l \<Longrightarrow> l \<le> m \<Longrightarrow> k \<le> m"
    by (auto simp: less_eq_record_key_def intro: order_trans)
  show "k \<le> l \<Longrightarrow> l \<le> k \<Longrightarrow> k = l"
    using antisym [of "key_rank k" "key_rank l"] by (simp add: less_eq_record_key_def)
  show "k \<le> l \<or> l \<le> k"
    by (auto simp: less_eq_record_key_def)
qed

end

section \<open>Values\<close>

record record_value =
  rv_revision :: u64
  rv_digest :: bytes
  rv_payload :: bytes
  rv_leased :: bool

datatype value_error = PayloadTooLarge usize usize

definition record_value_new :: "(bytes \<Rightarrow> bytes) \<Rightarrow> u64 \<Rightarrow> bytes \<Rightarrow> bool \<Rightarrow> record_value" where
  "record_value_new H r pay leased =
     \<lparr>rv_revision = r, rv_digest = H pay, rv_payload = pay, rv_leased = leased\<rparr>"

definition byte_len :: "record_value \<Rightarrow> u64" where
  "byte_len v = length (rv_payload v)"

definition validate_size :: "record_value \<Rightarrow> key_prefix \<Rightarrow> value_error + unit" where
  "validate_size v p =
     (if length (rv_payload v) > max_payload p
      then Inl (PayloadTooLarge (length (rv_payload v)) (max_payload p)) else Inr ())"

fun value_error_display :: "value_error \<Rightarrow> string" where
  "value_error_display (PayloadTooLarge l m) =
     ''payload length '' @ show_nat l @ '' exceeds prefix max '' @ show_nat m"

section \<open>Facts\<close>

lemma validate_size_Inr [simp]:
  "validate_size v p = Inr u \<longleftrightarrow> length (rv_payload v) \<le> max_payload p"
  by (auto simp: validate_size_def)

lemma record_key_new_Inr_iff:
  "record_key_new p s = Inr k \<longleftrightarrow> length s \<le> 256 \<and> \<not> has_control s \<and> k = RecordKey p s"
  by (auto simp: record_key_new_def max_suffix_def)

text \<open>No rendered prefix is a path prefix of another one, so rendering separates keys.\<close>

lemma prefix_as_str_path_inj:
  assumes "prefix_as_str p @ s = prefix_as_str q @ t"
    and "s = [] \<or> hd s = CHR ''/''" and "t = [] \<or> hd t = CHR ''/''"
  shows "p = q \<and> s = t"
  using assms by (cases p; cases q) auto

lemma max_payload_le: "max_payload p \<le> 256 * 1024"
  by (cases p) simp_all

end
