(* ===== verification/Memory_Budgets.thy ===== *)
theory Memory_Budgets
  imports Gump_Prelude
begin

text \<open>
  Byte budgets of the replicated memory, \<open>gump-memory/src/records/budgets.rs\<close>: one counter and
  one limit for each class of record, checked before growth and charged afterwards.
\<close>

section \<open>Operations\<close>

record memory_budgets =
  mb_authoritative :: u64
  mb_leased :: u64
  mb_history :: u64

record budget_usage =
  bu_authoritative :: u64
  bu_leased :: u64
  bu_history :: u64

datatype budget_class = Authoritative | Leased | History

datatype budget_error = Exhausted budget_class u64 u64 u64

definition memory_budgets_default :: memory_budgets where
  "memory_budgets_default =
     \<lparr>mb_authoritative = 64 * 1024 * 1024, mb_leased = 32 * 1024 * 1024,
      mb_history = 32 * 1024 * 1024\<rparr>"

definition budget_usage_default :: budget_usage where
  "budget_usage_default = \<lparr>bu_authoritative = 0, bu_leased = 0, bu_history = 0\<rparr>"

definition check_grow ::
  "budget_usage \<Rightarrow> memory_budgets \<Rightarrow> budget_class \<Rightarrow> u64 \<Rightarrow> budget_error + unit" where
  "check_grow u b c additional =
     (let (used, limit) = (case c of
            Authoritative \<Rightarrow> (bu_authoritative u, mb_authoritative b)
          | Leased \<Rightarrow> (bu_leased u, mb_leased b)
          | History \<Rightarrow> (bu_history u, mb_history b));
          nxt = sat_add64 used additional
      in if nxt > limit then Inl (Exhausted c used additional limit) else Inr ())"

fun usage_add :: "budget_usage \<Rightarrow> budget_class \<Rightarrow> u64 \<Rightarrow> budget_usage" where
  "usage_add u Authoritative n = u\<lparr>bu_authoritative := wrap_add64 (bu_authoritative u) n\<rparr>"
| "usage_add u Leased n = u\<lparr>bu_leased := wrap_add64 (bu_leased u) n\<rparr>"
| "usage_add u History n = u\<lparr>bu_history := wrap_add64 (bu_history u) n\<rparr>"

fun usage_sub :: "budget_usage \<Rightarrow> budget_class \<Rightarrow> u64 \<Rightarrow> budget_usage" where
  "usage_sub u Authoritative n = u\<lparr>bu_authoritative := sat_sub (bu_authoritative u) n\<rparr>"
| "usage_sub u Leased n = u\<lparr>bu_leased := sat_sub (bu_leased u) n\<rparr>"
| "usage_sub u History n = u\<lparr>bu_history := sat_sub (bu_history u) n\<rparr>"

fun budget_class_debug :: "budget_class \<Rightarrow> string" where
  "budget_class_debug Authoritative = ''Authoritative''"
| "budget_class_debug Leased = ''Leased''"
| "budget_class_debug History = ''History''"

fun budget_error_display :: "budget_error \<Rightarrow> string" where
  "budget_error_display (Exhausted c used additional limit) =
     budget_class_debug c @ '' budget exhausted: used='' @ show_nat used @ '' +'' @
     show_nat additional @ '' > limit='' @ show_nat limit"

section \<open>The counter and the limit of a class\<close>

fun used_of :: "budget_usage \<Rightarrow> budget_class \<Rightarrow> u64" where
  "used_of u Authoritative = bu_authoritative u"
| "used_of u Leased = bu_leased u"
| "used_of u History = bu_history u"

fun limit_of :: "memory_budgets \<Rightarrow> budget_class \<Rightarrow> u64" where
  "limit_of b Authoritative = mb_authoritative b"
| "limit_of b Leased = mb_leased b"
| "limit_of b History = mb_history b"

text \<open>
  Limits below \<open>u64::MAX\<close>. At \<open>u64::MAX\<close> the saturated sum can never exceed the limit, and
  the unchecked \<open>+=\<close> of \<open>BudgetUsage::add\<close> would not be protected by the check.
\<close>

definition limits_ok :: "memory_budgets \<Rightarrow> bool" where
  "limits_ok b \<longleftrightarrow> mb_authoritative b < u64_max \<and> mb_leased b < u64_max \<and> mb_history b < u64_max"

lemma limits_ok_limit: "limits_ok b \<Longrightarrow> limit_of b c < u64_max"
  by (cases c) (simp_all add: limits_ok_def)

lemma limits_ok_default [simp]: "limits_ok memory_budgets_default"
  by (simp add: limits_ok_def memory_budgets_default_def u64_max_def)

lemma check_grow_iff:
  "check_grow u b c n = Inr () \<longleftrightarrow> sat_add64 (used_of u c) n \<le> limit_of b c"
  by (cases c) (auto simp: check_grow_def)

lemma check_grow_Inl:
  "check_grow u b c n = Inl e \<longleftrightarrow>
     limit_of b c < sat_add64 (used_of u c) n \<and> e = Exhausted c (used_of u c) n (limit_of b c)"
  by (cases c) (auto simp: check_grow_def)

lemma usage_eqI: "(\<And>c. used_of u c = used_of (v::budget_usage) c) \<Longrightarrow> u = v"
  by (metis budget_usage.equality used_of.simps unit.exhaust)

section \<open>Interface\<close>

text \<open>
  The contract the record machine relies on: the counters change by exactly the charged amount,
  and a successful check leaves room for it. The exchange of one charge for another (an overwrite
  that may move a record to another class) is derived once.
\<close>

locale budget_meter =
  fixes used :: "'u \<Rightarrow> 'c \<Rightarrow> nat"
    and limit :: "'b \<Rightarrow> 'c \<Rightarrow> nat"
    and check :: "'u \<Rightarrow> 'b \<Rightarrow> 'c \<Rightarrow> nat \<Rightarrow> 'e + unit"
    and add :: "'u \<Rightarrow> 'c \<Rightarrow> nat \<Rightarrow> 'u"
    and sub :: "'u \<Rightarrow> 'c \<Rightarrow> nat \<Rightarrow> 'u"
    and proper :: "'b \<Rightarrow> bool"
  assumes used_add: "used u c + n \<le> u64_max \<Longrightarrow>
      used (add u c n) c' = (if c' = c then used u c + n else used u c')"
    and used_sub: "used (sub u c n) c' = (if c' = c then used u c - n else used u c')"
    and check_room: "proper b \<Longrightarrow> check u b c n = Inr () \<Longrightarrow> used u c + n \<le> limit b c"
    and limit_bound: "proper b \<Longrightarrow> limit b c \<le> u64_max"
begin

lemma used_charge:
  assumes "proper b" and "check u b c n = Inr ()"
  shows "used (add u c n) c' = (if c' = c then used u c + n else used u c')"
  using check_room [OF assms] limit_bound [OF assms(1), of c] by (simp add: used_add)

lemma charge_within:
  assumes "proper b" and "check u b c n = Inr ()" and "\<And>c'. used u c' \<le> limit b c'"
  shows "used (add u c n) c' \<le> limit b c'"
  using check_room [OF assms(1,2)] assms(3) [of c'] by (simp add: used_charge [OF assms(1,2)])

lemma exchange_within:
  assumes "proper b" and "check (sub u c0 n0) b c n = Inr ()"
    and "\<And>c'. used u c' \<le> limit b c'"
  shows "used (add (sub u c0 n0) c n) c' \<le> limit b c'"
proof (rule charge_within [OF assms(1,2)])
  show "used (sub u c0 n0) c'' \<le> limit b c''" for c''
    using assms(3) [of c''] by (auto simp: used_sub)
qed

end

interpretation meter: budget_meter used_of limit_of check_grow usage_add usage_sub limits_ok
proof
  fix u c n c' and b :: memory_budgets
  show "used_of u c + n \<le> u64_max \<Longrightarrow>
      used_of (usage_add u c n) c' = (if c' = c then used_of u c + n else used_of u c')"
    by (cases c; cases c') (simp_all add: sat_simps)
  show "used_of (usage_sub u c n) c' = (if c' = c then used_of u c - n else used_of u c')"
    by (cases c; cases c') (simp_all add: sat_simps)
  show "limits_ok b \<Longrightarrow> check_grow u b c n = Inr () \<Longrightarrow> used_of u c + n \<le> limit_of b c"
    using limits_ok_limit by (auto simp: check_grow_iff dest: sat_add64_not_gt)
  show "limits_ok b \<Longrightarrow> limit_of b c \<le> u64_max"
    using limits_ok_limit less_imp_le by blast
qed

end
