(* ===== verification/Watch_History.thy ===== *)
theory Watch_History
  imports Record_Keys
begin

text \<open>
  The bounded log of committed changes that watchers read, \<open>gump-memory/src/records/watch.rs\<close>.
  The log forgets old batches (by age, by count, by byte budget, by explicit compaction) and raises
  its floor when it does. The contract proved here is that forgetting is never silent: whatever
  watcher the log still answers gets every change committed after its revision.
\<close>

section \<open>Operations\<close>

definition max_watch_revisions :: usize where
  "max_watch_revisions = 10000"

definition max_watch_age_ms :: u64 where
  "max_watch_age_ms = 10 * 60 * 1000"

datatype watch_change =
    WPut record_key u64 bytes
  | WDelete record_key u64
  | WLeaseRevoked u64 u64

record watch_batch =
  wb_revision :: u64
  wb_at_ms :: u64
  wb_changes :: "watch_change list"

datatype compacted = Compacted (compaction_floor: u64)

record watch_history =
  wh_compacted_through :: u64
  wh_batches :: "watch_batch list"
  wh_approx_bytes :: u64

definition watch_history_default :: watch_history where
  "watch_history_default = \<lparr>wh_compacted_through = 0, wh_batches = [], wh_approx_bytes = 0\<rparr>"

fun change_bytes :: "watch_change \<Rightarrow> u64" where
  "change_bytes (WPut k _ _) = 40 + length (record_key_display k)"
| "change_bytes (WDelete k _) = 16 + length (record_key_display k)"
| "change_bytes (WLeaseRevoked _ _) = 24"

definition batch_bytes :: "watch_batch \<Rightarrow> u64" where
  "batch_bytes b = 16 + sum_list (map change_bytes (wb_changes b))"

definition batches_bytes :: "watch_batch list \<Rightarrow> u64" where
  "batches_bytes bs = sum_list (map batch_bytes bs)"

definition recompute_bytes :: "watch_history \<Rightarrow> watch_history" where
  "recompute_bytes h = h\<lparr>wh_approx_bytes := batches_bytes (wh_batches h)\<rparr>"

definition prune_compacted :: "watch_history \<Rightarrow> watch_history" where
  "prune_compacted h = recompute_bytes
     (h\<lparr>wh_batches := filter (\<lambda>b. wb_revision b > wh_compacted_through h) (wh_batches h)\<rparr>)"

definition compact_through :: "u64 \<Rightarrow> watch_history \<Rightarrow> watch_history" where
  "compact_through through h =
     prune_compacted (h\<lparr>wh_compacted_through := max (wh_compacted_through h) through\<rparr>)"

text \<open>
  The three \<open>while\<close> loops of \<open>retain\<close> have one shape: while a condition on the remaining
  batches holds, the floor is raised to the first batch's revision and that batch is removed.
\<close>

fun drop_front ::
  "(watch_batch list \<Rightarrow> bool) \<Rightarrow> u64 \<Rightarrow> watch_batch list \<Rightarrow> u64 \<times> watch_batch list" where
  "drop_front g fl [] = (fl, [])"
| "drop_front g fl (b # bs) =
     (if g (b # bs) then drop_front g (max fl (wb_revision b)) bs else (fl, b # bs))"

definition age_guard :: "u64 \<Rightarrow> watch_batch list \<Rightarrow> bool" where
  "age_guard cutoff bs = (case bs of [] \<Rightarrow> False | b # _ \<Rightarrow> \<not> wb_at_ms b \<ge> cutoff)"

definition count_guard :: "watch_batch list \<Rightarrow> bool" where
  "count_guard bs \<longleftrightarrow> length bs > max_watch_revisions"

definition budget_guard :: "u64 \<Rightarrow> watch_batch list \<Rightarrow> bool" where
  "budget_guard budget bs \<longleftrightarrow> batches_bytes bs > budget \<and> bs \<noteq> []"

definition watch_retain :: "u64 \<Rightarrow> u64 \<Rightarrow> watch_history \<Rightarrow> watch_history" where
  "watch_retain now_ms history_budget h0 =
     (let h = prune_compacted h0;
          cutoff = sat_sub now_ms max_watch_age_ms;
          (f1, b1) = drop_front (age_guard cutoff) (wh_compacted_through h) (wh_batches h);
          (f2, b2) = drop_front count_guard f1 b1;
          (f3, b3) = drop_front (budget_guard history_budget) f2 b2
      in recompute_bytes (h\<lparr>wh_compacted_through := f3, wh_batches := b3\<rparr>))"

definition watch_push :: "watch_batch \<Rightarrow> u64 \<Rightarrow> u64 \<Rightarrow> watch_history \<Rightarrow> watch_history" where
  "watch_push b now_ms history_budget h =
     watch_retain now_ms history_budget
       (h\<lparr>wh_approx_bytes := sat_add64 (wh_approx_bytes h) (batch_bytes b),
          wh_batches := wh_batches h @ [b]\<rparr>)"

definition watch_after :: "watch_history \<Rightarrow> u64 \<Rightarrow> compacted + watch_batch list" where
  "watch_after h after =
     (if after < wh_compacted_through h then Inl (Compacted (wh_compacted_through h))
      else Inr (filter (\<lambda>b. wb_revision b > after) (wh_batches h)))"

section \<open>The change log as an interface\<close>

text \<open>
  \<open>since\<close> is what a watcher at a revision still has to see; \<open>log_complete\<close> says that a bounded
  log with a given floor loses nothing above its floor, compared with the unbounded log of every
  batch ever committed.
\<close>

definition since :: "u64 \<Rightarrow> watch_batch list \<Rightarrow> watch_batch list" where
  "since a bs = filter (\<lambda>b. a < wb_revision b) bs"

definition log_complete :: "u64 \<Rightarrow> watch_batch list \<Rightarrow> watch_batch list \<Rightarrow> bool" where
  "log_complete fl bs log \<longleftrightarrow> (\<forall>a \<ge> fl. since a bs = since a log)"

locale change_log =
  fixes floor :: "'h \<Rightarrow> u64"
    and entries :: "'h \<Rightarrow> watch_batch list"
    and push :: "watch_batch \<Rightarrow> 'x \<Rightarrow> 'h \<Rightarrow> 'h"
    and trim :: "'t \<Rightarrow> 'h \<Rightarrow> 'h"
  assumes floor_push: "floor h \<le> floor (push b x h)"
    and floor_trim: "floor h \<le> floor (trim t h)"
    and since_push: "floor (push b x h) \<le> a \<Longrightarrow>
      since a (entries (push b x h)) = since a (entries h @ [b])"
    and since_trim: "floor (trim t h) \<le> a \<Longrightarrow> since a (entries (trim t h)) = since a (entries h)"
begin

lemma complete_push:
  assumes "log_complete (floor h) (entries h) log"
  shows "log_complete (floor (push b x h)) (entries (push b x h)) (log @ [b])"
  using assms floor_push [of h b x] since_push [of b x h]
  by (auto simp: log_complete_def since_def)

lemma complete_trim:
  assumes "log_complete (floor h) (entries h) log"
  shows "log_complete (floor (trim t h)) (entries (trim t h)) log"
  using assms floor_trim [of h t] since_trim [of t h] by (auto simp: log_complete_def)

end

section \<open>Facts about the bounded log\<close>

lemma since_since: "a \<le> a' \<Longrightarrow> since a' (since a bs) = since a' bs"
  by (induction bs) (auto simp: since_def)

lemma since_append [simp]: "since a (bs @ cs) = since a bs @ since a cs"
  by (simp add: since_def)

lemma drop_front_floor: "fl \<le> fst (drop_front g fl bs)"
  by (induction g fl bs rule: drop_front.induct) auto

lemma drop_front_since:
  "fst (drop_front g fl bs) \<le> a \<Longrightarrow> since a (snd (drop_front g fl bs)) = since a bs"
proof (induction g fl bs rule: drop_front.induct)
  case (2 g fl b bs)
  show ?case
  proof (cases "g (b # bs)")
    case True
    have "wb_revision b \<le> fst (drop_front g (max fl (wb_revision b)) bs)"
      using drop_front_floor [of "max fl (wb_revision b)" g bs] by simp
    with True 2 show ?thesis by (simp add: since_def)
  qed simp
qed simp

lemma drop_front_suffix: "\<exists>n. snd (drop_front g fl bs) = drop n bs"
proof (induction g fl bs rule: drop_front.induct)
  case (2 g fl b bs)
  then show ?case
    by (cases "g (b # bs)") (fastforce intro: exI [of _ "Suc _"] exI [of _ 0])+
qed simp

lemma drop_front_stops: "snd (drop_front g fl bs) = [] \<or> \<not> g (snd (drop_front g fl bs))"
  by (induction g fl bs rule: drop_front.induct) auto

lemma wh_floor_recompute [simp]: "wh_compacted_through (recompute_bytes h) = wh_compacted_through h"
  and wh_batches_recompute [simp]: "wh_batches (recompute_bytes h) = wh_batches h"
  and wh_bytes_recompute [simp]: "wh_approx_bytes (recompute_bytes h) = batches_bytes (wh_batches h)"
  by (simp_all add: recompute_bytes_def)

lemma wh_floor_prune [simp]: "wh_compacted_through (prune_compacted h) = wh_compacted_through h"
  and wh_batches_prune [simp]:
    "wh_batches (prune_compacted h) = since (wh_compacted_through h) (wh_batches h)"
  by (simp_all add: prune_compacted_def since_def)

text \<open>The result of \<open>retain\<close> in terms of its three loops.\<close>

lemma watch_retain_loops:
  obtains f1 b1 f2 b2 f3 b3 where
    "drop_front (age_guard (now - max_watch_age_ms)) (wh_compacted_through h)
       (since (wh_compacted_through h) (wh_batches h)) = (f1, b1)"
    "drop_front count_guard f1 b1 = (f2, b2)"
    "drop_front (budget_guard budget) f2 b2 = (f3, b3)"
    "wh_compacted_through (watch_retain now budget h) = f3"
    "wh_batches (watch_retain now budget h) = b3"
    "wh_approx_bytes (watch_retain now budget h) = batches_bytes b3"
  by (rule that [OF prod.collapse [symmetric] prod.collapse [symmetric] prod.collapse [symmetric]])
    (simp_all add: watch_retain_def Let_def sat_sub_def split: prod.splits)

lemma watch_retain_floor: "wh_compacted_through h \<le> wh_compacted_through (watch_retain now budget h)"
  by (rule watch_retain_loops [of now h budget]) (metis drop_front_floor fst_conv order_trans)

lemma watch_retain_since:
  assumes "wh_compacted_through (watch_retain now budget h) \<le> a"
  shows "since a (wh_batches (watch_retain now budget h)) = since a (wh_batches h)"
proof (rule watch_retain_loops [of now h budget])
  fix f1 b1 f2 b2 f3 b3
  assume loops: "drop_front (age_guard (now - max_watch_age_ms)) (wh_compacted_through h)
       (since (wh_compacted_through h) (wh_batches h)) = (f1, b1)"
    "drop_front count_guard f1 b1 = (f2, b2)"
    "drop_front (budget_guard budget) f2 b2 = (f3, b3)"
    and r: "wh_compacted_through (watch_retain now budget h) = f3"
      "wh_batches (watch_retain now budget h) = b3"
  have "f2 \<le> f3" "f1 \<le> f2" "wh_compacted_through h \<le> f1"
    using drop_front_floor loops by (metis fst_conv)+
  moreover have "since a b3 = since a b2" "f2 \<le> a \<Longrightarrow> since a b2 = since a b1"
    "f1 \<le> a \<Longrightarrow> since a b1 = since a (since (wh_compacted_through h) (wh_batches h))"
    using drop_front_since assms loops r by (metis fst_conv snd_conv)+
  ultimately show ?thesis
    using assms r by (simp add: since_since)
qed

text \<open>Trimming is either a retention pass or an explicit compaction.\<close>

definition watch_trim :: "u64 \<times> u64 + u64 \<Rightarrow> watch_history \<Rightarrow> watch_history" where
  "watch_trim t h = (case t of
       Inl (now_ms, history_budget) \<Rightarrow> watch_retain now_ms history_budget h
     | Inr through \<Rightarrow> compact_through through h)"

lemma watch_push_floor: "wh_compacted_through h \<le> wh_compacted_through (watch_push b now budget h)"
  unfolding watch_push_def by (rule order_trans [OF _ watch_retain_floor]) simp

lemma watch_push_since:
  "wh_compacted_through (watch_push b now budget h) \<le> a \<Longrightarrow>
     since a (wh_batches (watch_push b now budget h)) = since a (wh_batches h @ [b])"
  unfolding watch_push_def by (subst watch_retain_since) simp_all

interpretation watch: change_log wh_compacted_through wh_batches
  "\<lambda>b (now_ms, history_budget). watch_push b now_ms history_budget" watch_trim
  by unfold_locales
    (auto simp: watch_trim_def watch_push_floor watch_push_since watch_retain_floor
      watch_retain_since compact_through_def since_since split: sum.splits)

lemma log_complete_push:
  "log_complete (wh_compacted_through h) (wh_batches h) log \<Longrightarrow>
     log_complete (wh_compacted_through (watch_push b now budget h))
       (wh_batches (watch_push b now budget h)) (log @ [b])"
  using watch.complete_push [of h log b "(now, budget)"] by simp

lemma log_complete_retain:
  "log_complete (wh_compacted_through h) (wh_batches h) log \<Longrightarrow>
     log_complete (wh_compacted_through (watch_retain now budget h))
       (wh_batches (watch_retain now budget h)) log"
  using watch.complete_trim [of h log "Inl (now, budget)"] by (simp add: watch_trim_def)

lemma log_complete_compact:
  "log_complete (wh_compacted_through h) (wh_batches h) log \<Longrightarrow>
     log_complete (wh_compacted_through (compact_through t h))
       (wh_batches (compact_through t h)) log"
  using watch.complete_trim [of h log "Inr t"] by (simp add: watch_trim_def)

lemma log_complete_default [simp]:
  "log_complete (wh_compacted_through watch_history_default) (wh_batches watch_history_default) []"
  by (simp add: log_complete_def watch_history_default_def)

lemma watch_after_complete:
  "log_complete (wh_compacted_through h) (wh_batches h) log \<Longrightarrow>
     watch_after h a =
       (if a < wh_compacted_through h then Inl (Compacted (wh_compacted_through h))
        else Inr (since a log))"
  by (auto simp: log_complete_def watch_after_def since_def)

section \<open>Order and bounds\<close>

text \<open>
  Batches are kept in commit order, their revisions and commit times never decrease, and the byte
  counter is exact.
\<close>

definition watch_ok :: "watch_history \<Rightarrow> bool" where
  "watch_ok h \<longleftrightarrow>
     sorted (map wb_revision (wh_batches h)) \<and> sorted (map wb_at_ms (wh_batches h)) \<and>
     wh_approx_bytes h = batches_bytes (wh_batches h)"

lemma watch_retain_subseq:
  "\<exists>n. wh_batches (watch_retain now budget h) =
     drop n (since (wh_compacted_through h) (wh_batches h))"
  by (rule watch_retain_loops [of now h budget]) (metis drop_drop drop_front_suffix snd_conv)

lemma sorted_map_since: "sorted (map f bs) \<Longrightarrow> sorted (map f (since a bs))"
  by (simp add: since_def sorted_filter)

lemma watch_retain_sorted:
  "sorted (map f (wh_batches h)) \<Longrightarrow> sorted (map f (wh_batches (watch_retain now budget h)))"
  using watch_retain_subseq [of now budget h] by (auto simp: drop_map [symmetric] sorted_map_since)

lemma watch_retain_bytes:
  "wh_approx_bytes (watch_retain now budget h) = batches_bytes (wh_batches (watch_retain now budget h))"
  by (rule watch_retain_loops [of now h budget]) simp

lemma watch_ok_retain: "watch_ok h \<Longrightarrow> watch_ok (watch_retain now budget h)"
  by (simp add: watch_ok_def watch_retain_sorted watch_retain_bytes)

lemma watch_ok_compact: "watch_ok h \<Longrightarrow> watch_ok (compact_through t h)"
  by (simp add: watch_ok_def compact_through_def prune_compacted_def sorted_filter)

lemma watch_ok_push:
  assumes "watch_ok h" and "\<forall>x \<in> set (wh_batches h). wb_revision x \<le> wb_revision b"
    and "\<forall>x \<in> set (wh_batches h). wb_at_ms x \<le> wb_at_ms b"
  shows "watch_ok (watch_push b now budget h)"
  using assms unfolding watch_push_def watch_ok_def
  by (auto simp: watch_retain_bytes intro!: watch_retain_sorted simp: sorted_append)

lemma watch_ok_default [simp]: "watch_ok watch_history_default"
  by (simp add: watch_ok_def watch_history_default_def batches_bytes_def)

lemma set_watch_retain: "set (wh_batches (watch_retain now budget h)) \<subseteq> set (wh_batches h)"
  using watch_retain_subseq [of now budget h] set_drop_subset
  by (fastforce simp: since_def)

lemma set_watch_push: "set (wh_batches (watch_push b now budget h)) \<subseteq> insert b (set (wh_batches h))"
  unfolding watch_push_def by (rule order_trans [OF set_watch_retain]) auto

lemma set_watch_compact: "set (wh_batches (compact_through t h)) \<subseteq> set (wh_batches h)"
  by (auto simp: compact_through_def since_def)

lemma watch_retain_length: "length (wh_batches (watch_retain now budget h)) \<le> max_watch_revisions"
proof (rule watch_retain_loops [of now h budget])
  fix f1 b1 f2 b2 f3 b3
  assume "drop_front count_guard f1 b1 = (f2, b2)" "drop_front (budget_guard budget) f2 b2 = (f3, b3)"
    and r: "wh_batches (watch_retain now budget h) = b3"
  then have "length b3 \<le> length b2" "length b2 \<le> max_watch_revisions"
    using drop_front_suffix [of "budget_guard budget" f2 b2] drop_front_stops [of count_guard f1 b1]
    by (auto simp: count_guard_def)
  with r show ?thesis by simp
qed

lemma watch_retain_budget: "batches_bytes (wh_batches (watch_retain now budget h)) \<le> budget"
proof (rule watch_retain_loops [of now h budget])
  fix f1 b1 f2 b2 f3 b3
  assume "drop_front (budget_guard budget) f2 b2 = (f3, b3)"
    and r: "wh_batches (watch_retain now budget h) = b3"
  then show ?thesis
    using drop_front_stops [of "budget_guard budget" f2 b2]
    by (cases "b3 = []") (simp_all add: budget_guard_def batches_bytes_def)
qed

lemma watch_retain_age:
  assumes "sorted (map wb_at_ms (wh_batches h))"
    and "b \<in> set (wh_batches (watch_retain now budget h))"
  shows "now \<le> wb_at_ms b + max_watch_age_ms"
proof (rule watch_retain_loops [of now h budget])
  fix f1 b1 f2 b2 f3 b3
  assume loops: "drop_front (age_guard (now - max_watch_age_ms)) (wh_compacted_through h)
       (since (wh_compacted_through h) (wh_batches h)) = (f1, b1)"
    "drop_front count_guard f1 b1 = (f2, b2)" "drop_front (budget_guard budget) f2 b2 = (f3, b3)"
    and r: "wh_batches (watch_retain now budget h) = b3"
  have sub: "set b3 \<subseteq> set b2" "set b2 \<subseteq> set b1"
    using drop_front_suffix loops set_drop_subset by (metis snd_conv)+
  have "sorted (map wb_at_ms b1)"
    using drop_front_suffix [of "age_guard (now - max_watch_age_ms)" "wh_compacted_through h"
        "since (wh_compacted_through h) (wh_batches h)"] loops(1) assms(1)
    by (auto simp: drop_map [symmetric] sorted_map_since)
  moreover have "b1 = [] \<or> now - max_watch_age_ms \<le> wb_at_ms (hd b1)"
    using drop_front_stops [of "age_guard (now - max_watch_age_ms)" "wh_compacted_through h"
        "since (wh_compacted_through h) (wh_batches h)"] loops(1)
    by (cases b1) (auto simp: age_guard_def)
  moreover have "b \<in> set b1" using assms(2) r sub by auto
  ultimately have "now - max_watch_age_ms \<le> wb_at_ms b"
    by (cases b1) auto
  then show ?thesis by simp
qed

end
