(* ===== verification/Lease_Table.thy ===== *)
theory Lease_Table
  imports Gump_Prelude
begin

text \<open>
  Leases of the replicated memory, \<open>gump-memory/src/records/lease.rs\<close>: granting, renewing,
  revoking and expiring, on the committed monotonic clock. The locale \<open>lease_store\<close> is what the
  controller authority relies on.
\<close>

section \<open>Operations\<close>

datatype lease_purpose =
    ControllerAuthorityLease | MemberLiveness | PlacementAttempt | GangReservation
  | TelemetrySubscription

fun ttl_ms :: "lease_purpose \<Rightarrow> u64" where
  "ttl_ms ControllerAuthorityLease = 10000"
| "ttl_ms MemberLiveness = 15000"
| "ttl_ms PlacementAttempt = 20000"
| "ttl_ms GangReservation = 30000"
| "ttl_ms TelemetrySubscription = 30000"

fun renew_by_ms :: "lease_purpose \<Rightarrow> u64" where
  "renew_by_ms ControllerAuthorityLease = 3000"
| "renew_by_ms MemberLiveness = 5000"
| "renew_by_ms PlacementAttempt = 6000"
| "renew_by_ms GangReservation = 10000"
| "renew_by_ms TelemetrySubscription = 10000"

record lease =
  l_id :: u64
  l_purpose :: lease_purpose
  l_ttl_ms :: u64
  l_expires_at_ms :: u64

record lease_table =
  lt_next_id :: u64
  lt_leases :: "(u64, lease) btree"

datatype lease_error = LeaseNotFound u64 | LeaseExpired u64

definition lease_table_default :: lease_table where
  "lease_table_default = \<lparr>lt_next_id = 0, lt_leases = []\<rparr>"

fun lease_error_display :: "lease_error \<Rightarrow> string" where
  "lease_error_display (LeaseNotFound i) = ''lease '' @ show_nat i @ '' not found''"
| "lease_error_display (LeaseExpired i) = ''lease '' @ show_nat i @ '' expired''"

definition lease_get :: "lease_table \<Rightarrow> u64 \<Rightarrow> lease option" where
  "lease_get t i = bt_get (lt_leases t) i"

definition lease_grant :: "lease_purpose \<Rightarrow> u64 \<Rightarrow> lease_table \<Rightarrow> lease \<times> lease_table" where
  "lease_grant p now t =
     (let i = sat_add64 (lt_next_id t) 1;
          l = \<lparr>l_id = i, l_purpose = p, l_ttl_ms = ttl_ms p,
               l_expires_at_ms = sat_add64 now (ttl_ms p)\<rparr>
      in (l, t\<lparr>lt_next_id := i, lt_leases := bt_insert i l (lt_leases t)\<rparr>))"

definition lease_renew :: "u64 \<Rightarrow> u64 \<Rightarrow> lease_table \<Rightarrow> (lease_error + lease) \<times> lease_table" where
  "lease_renew i now t =
     (case bt_get (lt_leases t) i of
        None \<Rightarrow> (Inl (LeaseNotFound i), t)
      | Some l \<Rightarrow>
          if l_expires_at_ms l \<le> now
          then (Inl (LeaseExpired i), t\<lparr>lt_leases := bt_remove i (lt_leases t)\<rparr>)
          else (let l' = l\<lparr>l_expires_at_ms := sat_add64 now (l_ttl_ms l)\<rparr>
                in (Inr l', t\<lparr>lt_leases := bt_insert i l' (lt_leases t)\<rparr>)))"

definition lease_revoke :: "u64 \<Rightarrow> lease_table \<Rightarrow> (lease_error + lease) \<times> lease_table" where
  "lease_revoke i t =
     (case bt_get (lt_leases t) i of
        None \<Rightarrow> (Inl (LeaseNotFound i), t)
      | Some l \<Rightarrow> (Inr l, t\<lparr>lt_leases := bt_remove i (lt_leases t)\<rparr>))"

definition lease_expire_due :: "u64 \<Rightarrow> lease_table \<Rightarrow> u64 list \<times> lease_table" where
  "lease_expire_due now t =
     (let due = map fst (filter (\<lambda>e. l_expires_at_ms (snd e) \<le> now) (lt_leases t))
      in (due, t\<lparr>lt_leases := fold bt_remove due (lt_leases t)\<rparr>))"

section \<open>Invariant\<close>

definition lease_ok :: "lease_table \<Rightarrow> bool" where
  "lease_ok t \<longleftrightarrow> bt_ok (lt_leases t) \<and> lt_next_id t \<le> u64_max \<and>
     (\<forall>i l. lease_get t i = Some l \<longrightarrow>
        l_id l = i \<and> 1 \<le> i \<and> i \<le> lt_next_id t \<and> l_ttl_ms l = ttl_ms (l_purpose l))"

text \<open>A lease is live when it is in the table and its deadline is in the future.\<close>

definition lease_live :: "lease_table \<Rightarrow> u64 \<Rightarrow> u64 \<Rightarrow> bool" where
  "lease_live t now i \<longleftrightarrow> (\<exists>l. lease_get t i = Some l \<and> now < l_expires_at_ms l)"

lemma lease_ok_default [simp]: "lease_ok lease_table_default"
  by (simp add: lease_ok_def lease_table_default_def lease_get_def)

lemma lease_okD: "lease_ok t \<Longrightarrow> bt_ok (lt_leases t)"
  by (simp add: lease_ok_def)

lemma lease_ok_entry:
  "lease_ok t \<Longrightarrow> lease_get t i = Some l \<Longrightarrow>
     l_id l = i \<and> 1 \<le> i \<and> i \<le> lt_next_id t \<and> l_ttl_ms l = ttl_ms (l_purpose l)"
  by (simp add: lease_ok_def)

lemma lease_get_grant:
  "lease_get (snd (lease_grant p now t)) i =
     (if i = l_id (fst (lease_grant p now t)) then Some (fst (lease_grant p now t)) else lease_get t i)"
  by (simp add: lease_get_def lease_grant_def Let_def bt_simps)

lemma lease_grant_fields:
  "l_id (fst (lease_grant p now t)) = sat_add64 (lt_next_id t) 1"
  "l_purpose (fst (lease_grant p now t)) = p"
  "l_ttl_ms (fst (lease_grant p now t)) = ttl_ms p"
  "l_expires_at_ms (fst (lease_grant p now t)) = sat_add64 now (ttl_ms p)"
  "lt_next_id (snd (lease_grant p now t)) = sat_add64 (lt_next_id t) 1"
  by (simp_all add: lease_grant_def Let_def)

lemma lease_grant_ok: "lease_ok t \<Longrightarrow> lease_ok (snd (lease_grant p now t))"
proof -
  assume t: "lease_ok t"
  then have "lt_next_id t \<le> sat_add64 (lt_next_id t) 1"
    by (simp add: lease_ok_def sat_add64_mono)
  moreover have "1 \<le> sat_add64 (lt_next_id t) 1"
    by (simp add: sat_add64_def u64_max_def)
  moreover have "bt_ok (lt_leases (snd (lease_grant p now t)))"
    using t by (simp add: lease_grant_def Let_def lease_okD bt_intros)
  ultimately show ?thesis
    using t unfolding lease_ok_def
    by (auto simp: lease_get_grant lease_grant_fields split: if_splits intro: order_trans)
qed

lemma lease_grant_fresh:
  "lease_ok t \<Longrightarrow> lt_next_id t < u64_max \<Longrightarrow> lease_get t (l_id (fst (lease_grant p now t))) = None"
  using lease_ok_entry [of t "Suc (lt_next_id t)"]
  by (cases "lease_get t (Suc (lt_next_id t))") (auto simp: lease_grant_fields sat_simps)

lemma lease_ok_remove:
  "lease_ok t \<Longrightarrow> lease_ok (t\<lparr>lt_leases := bt_remove i (lt_leases t)\<rparr>)"
  by (auto simp: lease_ok_def lease_get_def bt_simps bt_intros split: if_splits)

lemma lease_renew_ok: "lease_ok t \<Longrightarrow> lease_ok (snd (lease_renew i now t))"
proof (cases "bt_get (lt_leases t) i")
  case (Some l)
  assume t: "lease_ok t"
  then show ?thesis
  proof (cases "l_expires_at_ms l \<le> now")
    case False
    with t Some show ?thesis
      by (auto simp: lease_renew_def Let_def lease_ok_def lease_get_def bt_simps bt_intros)
  qed (simp add: Some lease_renew_def lease_ok_remove)
qed (simp add: lease_renew_def)

lemma lease_revoke_ok: "lease_ok t \<Longrightarrow> lease_ok (snd (lease_revoke i t))"
  by (auto simp: lease_revoke_def lease_ok_remove split: option.splits)

lemma bt_get_fold_remove:
  "bt_get (fold bt_remove ks m) k = (if k \<in> set ks then None else bt_get m k)"
  by (induction ks arbitrary: m) (auto simp: bt_simps)

lemma bt_ok_fold_remove: "bt_ok m \<Longrightarrow> bt_ok (fold bt_remove ks m)"
  by (induction ks arbitrary: m) (simp_all add: bt_intros)

lemma lease_expire_due_ids:
  "lease_ok t \<Longrightarrow> i \<in> set (fst (lease_expire_due now t)) \<longleftrightarrow>
     (\<exists>l. lease_get t i = Some l \<and> l_expires_at_ms l \<le> now)"
  by (force simp: lease_expire_due_def Let_def lease_get_def bt_in_set_iff [OF lease_okD, symmetric])

lemma lease_get_expire_due:
  "lease_ok t \<Longrightarrow> lease_get (snd (lease_expire_due now t)) i =
     (if lease_live t now i then lease_get t i else None)"
  using lease_expire_due_ids [of t i now]
  by (cases "lease_get t i")
    (auto simp: lease_expire_due_def Let_def lease_get_def bt_get_fold_remove lease_live_def)

lemma lt_next_id_expire_due [simp]: "lt_next_id (snd (lease_expire_due now t)) = lt_next_id t"
  by (simp add: lease_expire_due_def Let_def)

lemma lease_expire_due_ok: "lease_ok t \<Longrightarrow> lease_ok (snd (lease_expire_due now t))"
proof -
  assume t: "lease_ok t"
  have "bt_ok (lt_leases (snd (lease_expire_due now t)))"
    using t by (simp add: lease_expire_due_def Let_def bt_ok_fold_remove lease_okD)
  with t show ?thesis
    unfolding lease_ok_def by (simp add: t lease_get_expire_due)
qed

lemma lease_expire_due_sorted: "lease_ok t \<Longrightarrow> sorted_wrt (<) (fst (lease_expire_due now t))"
  using bt_ok_filter [OF lease_okD, of t] by (simp add: lease_expire_due_def Let_def bt_ok_def)

section \<open>Interface\<close>

text \<open>
  The contract towards a holder of authority: a granted lease is stored under a fresh id, other
  leases do not change, and its deadline is one time-to-live away.
\<close>

locale lease_store =
  fixes lookup :: "'t \<Rightarrow> u64 \<Rightarrow> lease option"
    and grant :: "lease_purpose \<Rightarrow> u64 \<Rightarrow> 't \<Rightarrow> lease \<times> 't"
    and valid :: "'t \<Rightarrow> bool"
    and room :: "'t \<Rightarrow> bool"
  assumes valid_grant: "valid t \<Longrightarrow> valid (snd (grant p now t))"
    and lookup_grant: "lookup (snd (grant p now t)) i =
      (if i = l_id (fst (grant p now t)) then Some (fst (grant p now t)) else lookup t i)"
    and fresh_grant: "valid t \<Longrightarrow> room t \<Longrightarrow> lookup t (l_id (fst (grant p now t))) = None"
    and deadline_grant: "l_expires_at_ms (fst (grant p now t)) = sat_add64 now (ttl_ms p)"
begin

lemma granted_live:
  "sat_add64 now (ttl_ms p) > at \<Longrightarrow>
     \<exists>l. lookup (snd (grant p now t)) (l_id (fst (grant p now t))) = Some l \<and> at < l_expires_at_ms l"
  by (simp add: lookup_grant deadline_grant)

lemma granted_expires:
  "lookup (snd (grant p now t)) (l_id (fst (grant p now t))) = Some l \<Longrightarrow>
     l_expires_at_ms l \<le> now + ttl_ms p"
  using sat_add64_le [of now "ttl_ms p"] by (auto simp: lookup_grant deadline_grant)

lemma others_kept:
  "valid t \<Longrightarrow> room t \<Longrightarrow> lookup t i = Some l \<Longrightarrow> lookup (snd (grant p now t)) i = Some l"
  using fresh_grant by (auto simp: lookup_grant)

end

interpretation leases: lease_store lease_get lease_grant lease_ok "\<lambda>t. lt_next_id t < u64_max"
  by unfold_locales
    (simp_all add: lease_grant_ok lease_get_grant lease_grant_fresh lease_grant_fields(4))

end
