(* ===== verification/Record_Machine.thy ===== *)
theory Record_Machine
  imports Record_Keys Memory_Budgets Watch_History Lease_Table
begin

text \<open>
  The typed record state machine: \<open>gump-memory/src/records/command.rs\<close> and
  \<open>gump-memory/src/records/machine.rs\<close>. A command is applied to the machine and gives a result or
  an error together with the new machine, because some commands change the state even when they
  are refused. \<open>H\<close> is the BLAKE3 digest.
\<close>

section \<open>Commands\<close>

datatype expected = Absent | ExactRevision u64 | ExactDigest bytes | AnyRev

datatype mutate_op =
    MPut record_key expected bytes bool
  | MDelete record_key expected

record comparison =
  cmp_key :: record_key
  cmp_expected :: expected

record txn =
  txn_comparisons :: "comparison list"
  txn_success_ops :: "mutate_op list"
  txn_failure_ops :: "mutate_op list"

datatype command =
    CPut record_key expected bytes bool
  | CDelete record_key expected
  | CTxn txn
  | CCompact u64
  | CLeaseGrant lease_purpose u64
  | CLeaseRenew u64 u64
  | CLeaseRevoke u64
  | CAdvanceTime u64
  | CExpireLeases u64

section \<open>State\<close>

record machine =
  tm_revision :: u64
  tm_records :: "(record_key, record_value) btree"
  tm_budgets :: memory_budgets
  tm_usage :: budget_usage
  tm_now_ms :: u64
  tm_watch :: watch_history
  tm_leases :: lease_table
  tm_pending :: "watch_change list"

datatype apply_error =
    AKey key_error
  | AValue value_error
  | ABudget budget_error
  | ALease lease_error
  | PreconditionFailed record_key expected
  | ANotFound record_key
  | TimeWentBackward u64 u64

record apply_result =
  ar_revision :: u64
  ar_txn_succeeded :: "bool option"
  ar_lease :: "lease option"
  ar_expired_lease_ids :: "u64 list"

definition machine_new :: "memory_budgets \<Rightarrow> machine" where
  "machine_new b =
     \<lparr>tm_revision = 0, tm_records = [], tm_budgets = b, tm_usage = budget_usage_default,
      tm_now_ms = 0, tm_watch = watch_history_default, tm_leases = lease_table_default,
      tm_pending = []\<rparr>"

definition machine_default :: machine where
  "machine_default = machine_new memory_budgets_default"

fun expected_debug :: "expected \<Rightarrow> string" where
  "expected_debug Absent = ''Absent''"
| "expected_debug (ExactRevision r) = ''ExactRevision('' @ show_nat r @ '')''"
| "expected_debug (ExactDigest d) = ''ExactDigest('' @ debug_bytes d @ '')''"
| "expected_debug AnyRev = ''Any''"

fun apply_error_display :: "apply_error \<Rightarrow> string" where
  "apply_error_display (AKey e) = key_error_display e"
| "apply_error_display (AValue e) = value_error_display e"
| "apply_error_display (ABudget e) = budget_error_display e"
| "apply_error_display (ALease e) = lease_error_display e"
| "apply_error_display (PreconditionFailed k x) =
     ''precondition failed for '' @ record_key_display k @ '': '' @ expected_debug x"
| "apply_error_display (ANotFound k) = ''key not found: '' @ record_key_display k"
| "apply_error_display (TimeWentBackward cur pres) =
     ''committed time went backward: current='' @ show_nat cur @ '' presented='' @ show_nat pres"

section \<open>Operations\<close>

definition budget_class_of :: "key_prefix \<Rightarrow> bool \<Rightarrow> budget_class" where
  "budget_class_of p leased = (case default_class p of
       ClassHistory \<Rightarrow> History
     | ClassAuthoritative \<Rightarrow> Authoritative
     | ClassLeasedCapable \<Rightarrow> if leased then Leased else Authoritative)"

definition commit_time :: "u64 \<Rightarrow> machine \<Rightarrow> (apply_error + unit) \<times> machine" where
  "commit_time now m =
     (if now < tm_now_ms m then (Inl (TimeWentBackward (tm_now_ms m) now), m)
      else if now > tm_now_ms m then
        (Inr (), m\<lparr>tm_now_ms := now,
                  tm_watch := watch_retain now (mb_history (tm_budgets m)) (tm_watch m)\<rparr>)
      else (Inr (), m))"

definition check_expected :: "machine \<Rightarrow> record_key \<Rightarrow> expected \<Rightarrow> apply_error + unit" where
  "check_expected m k x =
     (let cur = bt_get (tm_records m) k;
          ok = (case x of
              AnyRev \<Rightarrow> True
            | Absent \<Rightarrow> cur = None
            | ExactRevision r \<Rightarrow> (case cur of Some v \<Rightarrow> rv_revision v = r | None \<Rightarrow> False)
            | ExactDigest d \<Rightarrow> (case cur of Some v \<Rightarrow> rv_digest v = d | None \<Rightarrow> False))
      in if ok then Inr () else Inl (PreconditionFailed k x))"

definition comparisons_hold :: "machine \<Rightarrow> comparison list \<Rightarrow> bool" where
  "comparisons_hold m cs =
     list_all (\<lambda>c. check_expected m (cmp_key c) (cmp_expected c) = Inr ()) cs"

definition put_record ::
  "(bytes \<Rightarrow> bytes) \<Rightarrow> record_key \<Rightarrow> expected \<Rightarrow> bytes \<Rightarrow> bool \<Rightarrow> machine \<Rightarrow> apply_error + machine"
where
  "put_record H k x pay leased m =
     (case check_expected m k x of
        Inl e \<Rightarrow> Inl e
      | Inr _ \<Rightarrow>
        (let v = record_value_new H (sat_add64 (tm_revision m) 1) pay leased in
         case validate_size v (key_prefix k) of
           Inl e \<Rightarrow> Inl (AValue e)
         | Inr _ \<Rightarrow>
           (let c = budget_class_of (key_prefix k) leased;
                new_bytes = byte_len v;
                old = map_option (\<lambda>w. (byte_len w, budget_class_of (key_prefix k) (rv_leased w)))
                        (bt_get (tm_records m) k);
                probe = (case old of Some (n, oc) \<Rightarrow> usage_sub (tm_usage m) oc n
                                   | None \<Rightarrow> tm_usage m)
            in case check_grow probe (tm_budgets m) c new_bytes of
                 Inl e \<Rightarrow> Inl (ABudget e)
               | Inr _ \<Rightarrow>
                 (let u = (case old of Some (n, oc) \<Rightarrow> usage_sub (tm_usage m) oc n
                                     | None \<Rightarrow> tm_usage m)
                  in Inr (m\<lparr>tm_usage := usage_add u c new_bytes,
                            tm_revision := rv_revision v,
                            tm_pending := tm_pending m @ [WPut k (rv_revision v) (rv_digest v)],
                            tm_records := bt_insert k v (tm_records m)\<rparr>)))))"

definition delete_record :: "record_key \<Rightarrow> expected \<Rightarrow> machine \<Rightarrow> apply_error + machine" where
  "delete_record k x m =
     (case check_expected m k x of
        Inl e \<Rightarrow> Inl e
      | Inr _ \<Rightarrow>
        (case bt_get (tm_records m) k of
           None \<Rightarrow> Inl (ANotFound k)
         | Some w \<Rightarrow>
           (let c = budget_class_of (key_prefix k) (rv_leased w);
                r = sat_add64 (tm_revision m) 1
            in Inr (m\<lparr>tm_records := bt_remove k (tm_records m),
                      tm_usage := usage_sub (tm_usage m) c (byte_len w),
                      tm_revision := r,
                      tm_pending := tm_pending m @ [WDelete k r]\<rparr>))))"

fun apply_mutate :: "(bytes \<Rightarrow> bytes) \<Rightarrow> mutate_op \<Rightarrow> machine \<Rightarrow> apply_error + machine" where
  "apply_mutate H (MPut k x pay leased) m = put_record H k x pay leased m"
| "apply_mutate H (MDelete k x) m = delete_record k x m"

definition flush_pending :: "machine \<Rightarrow> machine" where
  "flush_pending m =
     (if tm_pending m = [] then m
      else m\<lparr>tm_pending := [],
             tm_watch := watch_push
               \<lparr>wb_revision = tm_revision m, wb_at_ms = tm_now_ms m, wb_changes = tm_pending m\<rparr>
               (tm_now_ms m) (mb_history (tm_budgets m)) (tm_watch m)\<rparr>)"

record machine_snap =
  ms_revision :: u64
  ms_records :: "(record_key, record_value) btree"
  ms_usage :: budget_usage
  ms_watch :: watch_history
  ms_leases :: lease_table
  ms_pending :: "watch_change list"

definition machine_snapshot :: "machine \<Rightarrow> machine_snap" where
  "machine_snapshot m =
     \<lparr>ms_revision = tm_revision m, ms_records = tm_records m, ms_usage = tm_usage m,
      ms_watch = tm_watch m, ms_leases = tm_leases m, ms_pending = tm_pending m\<rparr>"

definition machine_restore :: "machine_snap \<Rightarrow> machine \<Rightarrow> machine" where
  "machine_restore s m =
     m\<lparr>tm_revision := ms_revision s, tm_records := ms_records s, tm_usage := ms_usage s,
       tm_watch := ms_watch s, tm_leases := ms_leases s, tm_pending := ms_pending s\<rparr>"

text \<open>The loop over a transaction's operations: it stops at the first error, in the state reached.\<close>

fun apply_ops ::
  "(bytes \<Rightarrow> bytes) \<Rightarrow> mutate_op list \<Rightarrow> machine \<Rightarrow> apply_error option \<times> machine" where
  "apply_ops H [] m = (None, m)"
| "apply_ops H (oper # ops) m =
     (case apply_mutate H oper m of Inl e \<Rightarrow> (Some e, m) | Inr m' \<Rightarrow> apply_ops H ops m')"

definition result_at :: "machine \<Rightarrow> bool option \<Rightarrow> lease option \<Rightarrow> u64 list \<Rightarrow> apply_result" where
  "result_at m ok l expired =
     \<lparr>ar_revision = tm_revision m, ar_txn_succeeded = ok, ar_lease = l,
      ar_expired_lease_ids = expired\<rparr>"

definition apply_txn ::
  "(bytes \<Rightarrow> bytes) \<Rightarrow> txn \<Rightarrow> machine \<Rightarrow> (apply_error + apply_result) \<times> machine" where
  "apply_txn H t m =
     (let ok = comparisons_hold m (txn_comparisons t);
          ops = (if ok then txn_success_ops t else txn_failure_ops t);
          snap = machine_snapshot m
      in case apply_ops H ops m of
           (Some e, m') \<Rightarrow> (Inl e, machine_restore snap m')
         | (None, m') \<Rightarrow>
             (let m'' = flush_pending m' in (Inr (result_at m'' (Some ok) None []), m'')))"

definition bump_revision :: "machine \<Rightarrow> machine" where
  "bump_revision m = m\<lparr>tm_revision := sat_add64 (tm_revision m) 1\<rparr>"

definition flush_result ::
  "apply_error + machine \<Rightarrow> machine \<Rightarrow> (apply_error + apply_result) \<times> machine" where
  "flush_result r m = (case r of
       Inl e \<Rightarrow> (Inl e, m)
     | Inr m' \<Rightarrow> (let m'' = flush_pending m' in (Inr (result_at m'' None None []), m'')))"

fun apply_command ::
  "(bytes \<Rightarrow> bytes) \<Rightarrow> command \<Rightarrow> machine \<Rightarrow> (apply_error + apply_result) \<times> machine" where
  "apply_command H (CPut k x pay leased) m =
     flush_result (apply_mutate H (MPut k x pay leased) m) m"
| "apply_command H (CDelete k x) m = flush_result (apply_mutate H (MDelete k x) m) m"
| "apply_command H (CTxn t) m = apply_txn H t m"
| "apply_command H (CCompact through) m =
     (let m' = m\<lparr>tm_watch := compact_through through (tm_watch m)\<rparr>
      in (Inr (result_at m' None None []), m'))"
| "apply_command H (CLeaseGrant p now) m =
     (case commit_time now m of
        (Inl e, m1) \<Rightarrow> (Inl e, m1)
      | (Inr _, m1) \<Rightarrow>
          (let (l, t) = lease_grant p (tm_now_ms m1) (tm_leases m1);
               m2 = bump_revision (m1\<lparr>tm_leases := t\<rparr>)
           in (Inr (result_at m2 None (Some l) []), m2)))"
| "apply_command H (CLeaseRenew i now) m =
     (case commit_time now m of
        (Inl e, m1) \<Rightarrow> (Inl e, m1)
      | (Inr _, m1) \<Rightarrow>
          (case lease_renew i (tm_now_ms m1) (tm_leases m1) of
             (Inl e, t) \<Rightarrow> (Inl (ALease e), m1\<lparr>tm_leases := t\<rparr>)
           | (Inr l, t) \<Rightarrow>
               (let m2 = bump_revision (m1\<lparr>tm_leases := t\<rparr>)
                in (Inr (result_at m2 None (Some l) []), m2))))"
| "apply_command H (CLeaseRevoke i) m =
     (case lease_revoke i (tm_leases m) of
        (Inl e, t) \<Rightarrow> (Inl (ALease e), m\<lparr>tm_leases := t\<rparr>)
      | (Inr _, t) \<Rightarrow>
          (let m1 = bump_revision (m\<lparr>tm_leases := t\<rparr>);
               m2 = flush_pending
                 (m1\<lparr>tm_pending := tm_pending m1 @ [WLeaseRevoked i (tm_revision m1)]\<rparr>)
           in (Inr (result_at m2 None None [i]), m2)))"
| "apply_command H (CAdvanceTime now) m =
     (case commit_time now m of
        (Inl e, m1) \<Rightarrow> (Inl e, m1)
      | (Inr _, m1) \<Rightarrow> (Inr (result_at m1 None None []), m1))"
| "apply_command H (CExpireLeases now) m =
     (case commit_time now m of
        (Inl e, m1) \<Rightarrow> (Inl e, m1)
      | (Inr _, m1) \<Rightarrow>
          (let (expired, t) = lease_expire_due (tm_now_ms m1) (tm_leases m1);
               m2 = m1\<lparr>tm_leases := t\<rparr>
           in if expired = [] then (Inr (result_at m2 None None []), m2)
              else let m3 = bump_revision m2;
                       m4 = flush_pending (m3\<lparr>tm_pending := tm_pending m3 @
                              map (\<lambda>i. WLeaseRevoked i (tm_revision m3)) expired\<rparr>)
                   in (Inr (result_at m4 None None expired), m4)))"

end
