(* ===== verification/Record_Invariant.thy ===== *)
theory Record_Invariant
  imports Record_Machine
begin

text \<open>
  Correctness of the typed record state machine: the invariant that every command keeps (exact
  budget accounting within the limits, digests and sizes of values, ordered watch history, sound
  lease table), atomicity of refused commands, progress of the revision and of the committed
  clock, and completeness of the bounded watch history against the unbounded log of changes.
\<close>

section \<open>The invariant\<close>

text \<open>The bytes a record is charged for, in the class it belongs to.\<close>

definition charge :: "budget_class \<Rightarrow> record_key \<Rightarrow> record_value \<Rightarrow> nat" where
  "charge c k v = (if budget_class_of (key_prefix k) (rv_leased v) = c then byte_len v else 0)"

definition record_ok :: "(bytes \<Rightarrow> bytes) \<Rightarrow> u64 \<Rightarrow> record_key \<Rightarrow> record_value \<Rightarrow> bool" where
  "record_ok H r k v \<longleftrightarrow> rv_revision v \<le> r \<and> rv_digest v = H (rv_payload v) \<and>
     length (rv_payload v) \<le> max_payload (key_prefix k)"

definition batch_ok :: "u64 \<Rightarrow> u64 \<Rightarrow> watch_batch \<Rightarrow> bool" where
  "batch_ok r now b \<longleftrightarrow> wb_revision b \<le> r \<and> wb_at_ms b \<le> now"

definition core_ok :: "(bytes \<Rightarrow> bytes) \<Rightarrow> machine \<Rightarrow> bool" where
  "core_ok H m \<longleftrightarrow>
     bt_ok (tm_records m) \<and>
     (\<forall>k v. bt_get (tm_records m) k = Some v \<longrightarrow> record_ok H (tm_revision m) k v) \<and>
     limits_ok (tm_budgets m) \<and>
     (\<forall>c. used_of (tm_usage m) c = bt_sum (charge c) (tm_records m)) \<and>
     (\<forall>c. bt_sum (charge c) (tm_records m) \<le> limit_of (tm_budgets m) c) \<and>
     tm_revision m \<le> u64_max \<and>
     watch_ok (tm_watch m) \<and>
     (\<forall>b \<in> set (wh_batches (tm_watch m)). batch_ok (tm_revision m) (tm_now_ms m) b) \<and>
     lease_ok (tm_leases m)"

lemma core_okI:
  assumes "bt_ok (tm_records m)"
    and "\<And>k v. bt_get (tm_records m) k = Some v \<Longrightarrow> record_ok H (tm_revision m) k v"
    and "limits_ok (tm_budgets m)"
    and "\<And>c. used_of (tm_usage m) c = bt_sum (charge c) (tm_records m)"
    and "\<And>c. used_of (tm_usage m) c \<le> limit_of (tm_budgets m) c"
    and "tm_revision m \<le> u64_max" and "watch_ok (tm_watch m)"
    and "\<And>b. b \<in> set (wh_batches (tm_watch m)) \<Longrightarrow> batch_ok (tm_revision m) (tm_now_ms m) b"
    and "lease_ok (tm_leases m)"
  shows "core_ok H m"
  using assms unfolding core_ok_def by simp

lemma core_okD:
  assumes "core_ok H m"
  shows "bt_ok (tm_records m)"
    and "bt_get (tm_records m) k = Some v \<Longrightarrow> record_ok H (tm_revision m) k v"
    and "limits_ok (tm_budgets m)"
    and "used_of (tm_usage m) c = bt_sum (charge c) (tm_records m)"
    and "used_of (tm_usage m) c \<le> limit_of (tm_budgets m) c"
    and "tm_revision m \<le> u64_max" and "watch_ok (tm_watch m)"
    and "b \<in> set (wh_batches (tm_watch m)) \<Longrightarrow> batch_ok (tm_revision m) (tm_now_ms m) b"
    and "lease_ok (tm_leases m)"
    and "tm_revision m \<le> sat_add64 (tm_revision m) n"
  using assms unfolding core_ok_def by (auto intro: sat_add64_mono)

lemma record_ok_mono: "record_ok H r k v \<Longrightarrow> r \<le> r' \<Longrightarrow> record_ok H r' k v"
  by (simp add: record_ok_def)

lemma batch_ok_mono: "batch_ok r n b \<Longrightarrow> r \<le> r' \<Longrightarrow> n \<le> n' \<Longrightarrow> batch_ok r' n' b"
  by (simp add: batch_ok_def)

definition machine_ok :: "(bytes \<Rightarrow> bytes) \<Rightarrow> machine \<Rightarrow> bool" where
  "machine_ok H m \<longleftrightarrow> core_ok H m \<and> tm_pending m = []"

definition usage_without :: "machine \<Rightarrow> record_key \<Rightarrow> budget_usage" where
  "usage_without m k = (case bt_get (tm_records m) k of
       None \<Rightarrow> tm_usage m
     | Some w \<Rightarrow> usage_sub (tm_usage m) (budget_class_of (key_prefix k) (rv_leased w)) (byte_len w))"

lemma put_record_Inr:
  "put_record H k x pay leased m = Inr m' \<longleftrightarrow>
     check_expected m k x = Inr () \<and> length pay \<le> max_payload (key_prefix k) \<and>
     check_grow (usage_without m k) (tm_budgets m) (budget_class_of (key_prefix k) leased) (length pay)
       = Inr () \<and>
     m' = m\<lparr>tm_usage := usage_add (usage_without m k) (budget_class_of (key_prefix k) leased) (length pay),
            tm_revision := sat_add64 (tm_revision m) 1,
            tm_pending := tm_pending m @ [WPut k (sat_add64 (tm_revision m) 1) (H pay)],
            tm_records := bt_insert k (record_value_new H (sat_add64 (tm_revision m) 1) pay leased)
              (tm_records m)\<rparr>"
  unfolding put_record_def usage_without_def
  by (auto simp: Let_def record_value_new_def byte_len_def validate_size_def
      split: sum.splits option.splits if_splits)

lemma delete_record_Inr:
  "delete_record k x m = Inr m' \<longleftrightarrow>
     check_expected m k x = Inr () \<and> bt_get (tm_records m) k \<noteq> None \<and>
     m' = m\<lparr>tm_records := bt_remove k (tm_records m), tm_usage := usage_without m k,
            tm_revision := sat_add64 (tm_revision m) 1,
            tm_pending := tm_pending m @ [WDelete k (sat_add64 (tm_revision m) 1)]\<rparr>"
  unfolding delete_record_def usage_without_def
  by (auto simp: Let_def split: sum.splits option.splits)

lemma used_without:
  assumes "core_ok H m"
  shows "used_of (usage_without m k) c = bt_sum (charge c) (bt_remove k (tm_records m))"
proof (cases "bt_get (tm_records m) k")
  case None
  with assms show ?thesis
    by (simp add: usage_without_def core_ok_def bt.total_drop_absent)
next
  case (Some w)
  with assms show ?thesis
    by (auto simp: usage_without_def core_ok_def bt.total_drop meter.used_sub charge_def)
qed

lemma used_without_le:
  "core_ok H m \<Longrightarrow> used_of (usage_without m k) c \<le> limit_of (tm_budgets m) c"
  using meter.used_sub by (auto simp: usage_without_def core_ok_def le_diff_conv trans_le_add1 split: option.splits)

lemma put_record_core_ok:
  assumes m: "core_ok H m" and put: "put_record H k x pay leased m = Inr m'"
  shows "core_ok H m'"
proof -
  let ?c = "budget_class_of (key_prefix k) leased" and ?r = "sat_add64 (tm_revision m) 1"
  let ?v = "record_value_new H ?r pay leased"
  from put have size: "length pay \<le> max_payload (key_prefix k)"
    and room: "check_grow (usage_without m k) (tm_budgets m) ?c (length pay) = Inr ()"
    and m': "m' = m\<lparr>tm_usage := usage_add (usage_without m k) ?c (length pay), tm_revision := ?r,
            tm_pending := tm_pending m @ [WPut k ?r (H pay)],
            tm_records := bt_insert k ?v (tm_records m)\<rparr>"
    by (simp_all add: put_record_Inr)
  note ok = core_okD [OF m]
  have new: "record_ok H ?r k ?v"
    using size by (simp add: record_ok_def record_value_new_def)
  show ?thesis
  proof (rule core_okI)
    show "used_of (tm_usage m') c = bt_sum (charge c) (tm_records m')" for c
      using meter.used_charge [OF ok(3) room, of c] used_without [OF m, of k] ok(1)
      by (auto simp: m' bt_sum_insert charge_def byte_len_def record_value_new_def)
    show "used_of (tm_usage m') c \<le> limit_of (tm_budgets m') c" for c
      using meter.charge_within [OF ok(3) room used_without_le [OF m]] by (simp add: m')
    show "record_ok H (tm_revision m') k' v" if "bt_get (tm_records m') k' = Some v" for k' v
      using that new record_ok_mono [OF ok(2) ok(10)] by (auto simp: m' bt_simps split: if_splits)
    show "batch_ok (tm_revision m') (tm_now_ms m') b" if "b \<in> set (wh_batches (tm_watch m'))" for b
      using that batch_ok_mono [OF ok(8) ok(10)] by (simp add: m')
  qed (use ok in \<open>simp_all add: m' bt_intros\<close>)
qed

lemma delete_record_core_ok:
  assumes m: "core_ok H m" and del: "delete_record k x m = Inr m'"
  shows "core_ok H m'"
proof -
  from del have m': "m' = m\<lparr>tm_records := bt_remove k (tm_records m), tm_usage := usage_without m k,
            tm_revision := sat_add64 (tm_revision m) 1,
            tm_pending := tm_pending m @ [WDelete k (sat_add64 (tm_revision m) 1)]\<rparr>"
    by (simp add: delete_record_Inr)
  note ok = core_okD [OF m]
  show ?thesis
  proof (rule core_okI)
    show "record_ok H (tm_revision m') k' v" if "bt_get (tm_records m') k' = Some v" for k' v
      using that record_ok_mono [OF ok(2) ok(10)] by (auto simp: m' bt_simps split: if_splits)
    show "batch_ok (tm_revision m') (tm_now_ms m') b" if "b \<in> set (wh_batches (tm_watch m'))" for b
      using that batch_ok_mono [OF ok(8) ok(10)] by (simp add: m')
  qed (use ok used_without [OF m] used_without_le [OF m] in \<open>simp_all add: m' bt_intros\<close>)
qed

lemma apply_mutate_core_ok: "core_ok H m \<Longrightarrow> apply_mutate H oper m = Inr m' \<Longrightarrow> core_ok H m'"
  by (cases oper) (auto intro: put_record_core_ok delete_record_core_ok)

lemma apply_mutate_frame:
  assumes "apply_mutate H oper m = Inr m'"
  shows "tm_budgets m' = tm_budgets m" "tm_now_ms m' = tm_now_ms m" "tm_watch m' = tm_watch m"
    "tm_leases m' = tm_leases m" "tm_revision m' = sat_add64 (tm_revision m) 1"
  using assms by (cases oper; auto simp: put_record_Inr delete_record_Inr)+

lemma commit_time_cases:
  obtains (backward) "now < tm_now_ms m" "commit_time now m = (Inl (TimeWentBackward (tm_now_ms m) now), m)"
  | (forward) "tm_now_ms m < now" "commit_time now m = (Inr (), m\<lparr>tm_now_ms := now,
        tm_watch := watch_retain now (mb_history (tm_budgets m)) (tm_watch m)\<rparr>)"
  | (same) "now = tm_now_ms m" "commit_time now m = (Inr (), m)"
  by (cases now "tm_now_ms m" rule: linorder_cases) (auto simp: commit_time_def)

lemma commit_time_core_ok: "core_ok H m \<Longrightarrow> core_ok H (snd (commit_time now m))"
proof (cases now m rule: commit_time_cases)
  case forward
  assume m: "core_ok H m"
  note ok = core_okD [OF m]
  show ?thesis
  proof (rule core_okI)
    fix b assume "b \<in> set (wh_batches (tm_watch (snd (commit_time now m))))"
    then have "b \<in> set (wh_batches (tm_watch m))"
      using set_watch_retain forward by fastforce
    then show "batch_ok (tm_revision (snd (commit_time now m))) (tm_now_ms (snd (commit_time now m))) b"
      using batch_ok_mono [OF ok(8), of b "tm_revision m" now] forward by simp
  qed (use ok watch_ok_retain forward in simp_all)
qed simp_all

lemma commit_time_frame:
  "tm_records (snd (commit_time now m)) = tm_records m"
  "tm_revision (snd (commit_time now m)) = tm_revision m"
  "tm_pending (snd (commit_time now m)) = tm_pending m"
  "tm_leases (snd (commit_time now m)) = tm_leases m"
  "tm_budgets (snd (commit_time now m)) = tm_budgets m"
  "tm_usage (snd (commit_time now m)) = tm_usage m"
  "tm_now_ms m \<le> tm_now_ms (snd (commit_time now m))"
  by (cases now m rule: commit_time_cases; simp)+

lemma flush_pending_frame [simp]:
  "tm_records (flush_pending m) = tm_records m"
  "tm_revision (flush_pending m) = tm_revision m"
  "tm_pending (flush_pending m) = []"
  "tm_leases (flush_pending m) = tm_leases m"
  "tm_budgets (flush_pending m) = tm_budgets m"
  "tm_usage (flush_pending m) = tm_usage m"
  "tm_now_ms (flush_pending m) = tm_now_ms m"
  by (simp_all add: flush_pending_def)

lemma flush_pending_ok:
  assumes m: "core_ok H m"
  shows "machine_ok H (flush_pending m)"
proof -
  note ok = core_okD [OF m]
  let ?b = "\<lparr>wb_revision = tm_revision m, wb_at_ms = tm_now_ms m, wb_changes = tm_pending m\<rparr>"
  have "watch_ok (watch_push ?b (tm_now_ms m) (mb_history (tm_budgets m)) (tm_watch m))"
    using ok(7,8) by (intro watch_ok_push) (auto simp: batch_ok_def)
  moreover have "batch_ok (tm_revision m) (tm_now_ms m) b"
    if "b \<in> set (wh_batches (watch_push ?b (tm_now_ms m) (mb_history (tm_budgets m)) (tm_watch m)))" for b
    using that set_watch_push ok(8) by (fastforce simp: batch_ok_def)
  ultimately have "core_ok H (flush_pending m)"
    by (intro core_okI) (use ok in \<open>simp_all add: flush_pending_def split: if_splits\<close>)
  then show ?thesis by (simp add: machine_ok_def)
qed

lemma core_ok_leases: "core_ok H m \<Longrightarrow> lease_ok t \<Longrightarrow> core_ok H (m\<lparr>tm_leases := t\<rparr>)"
  unfolding core_ok_def by simp

lemma core_ok_pending [simp]: "core_ok H (m\<lparr>tm_pending := p\<rparr>) = core_ok H m"
  by (simp add: core_ok_def)

lemma bump_revision_core_ok: "core_ok H m \<Longrightarrow> core_ok H (bump_revision m)"
proof -
  assume m: "core_ok H m"
  note ok = core_okD [OF m]
  show ?thesis
  proof (rule core_okI)
    show "record_ok H (tm_revision (bump_revision m)) k v"
      if "bt_get (tm_records (bump_revision m)) k = Some v" for k v
      using that record_ok_mono [OF ok(2) ok(10)] by (simp add: bump_revision_def)
    show "batch_ok (tm_revision (bump_revision m)) (tm_now_ms (bump_revision m)) b"
      if "b \<in> set (wh_batches (tm_watch (bump_revision m)))" for b
      using that batch_ok_mono [OF ok(8) ok(10)] by (simp add: bump_revision_def)
  qed (use ok in \<open>simp_all add: bump_revision_def\<close>)
qed

lemma apply_ops_core_ok: "core_ok H m \<Longrightarrow> core_ok H (snd (apply_ops H ops m))"
  by (induction H ops m rule: apply_ops.induct)
    (auto split: sum.splits dest: apply_mutate_core_ok)

lemma apply_ops_frame:
  "tm_budgets (snd (apply_ops H ops m)) = tm_budgets m"
  "tm_now_ms (snd (apply_ops H ops m)) = tm_now_ms m"
  "tm_watch (snd (apply_ops H ops m)) = tm_watch m"
  "tm_leases (snd (apply_ops H ops m)) = tm_leases m"
  by (induction H ops m rule: apply_ops.induct) (auto split: sum.splits dest: apply_mutate_frame)

lemma machine_restore_snapshot:
  "tm_budgets m' = tm_budgets m \<Longrightarrow> tm_now_ms m' = tm_now_ms m \<Longrightarrow>
     machine_restore (machine_snapshot m) m' = m"
  by (simp add: machine_restore_def machine_snapshot_def)

definition txn_ops :: "machine \<Rightarrow> txn \<Rightarrow> mutate_op list" where
  "txn_ops m t =
     (if comparisons_hold m (txn_comparisons t) then txn_success_ops t else txn_failure_ops t)"

lemma apply_txn_unfold:
  "apply_txn H t m = (case apply_ops H (txn_ops m t) m of
       (Some e, m') \<Rightarrow> (Inl e, m)
     | (None, m') \<Rightarrow>
         (Inr (result_at (flush_pending m') (Some (comparisons_hold m (txn_comparisons t))) None []),
          flush_pending m'))"
proof -
  obtain e m' where r: "apply_ops H (txn_ops m t) m = (e, m')" by fastforce
  then have "machine_restore (machine_snapshot m) m' = m"
    using apply_ops_frame(1,2) [of H "txn_ops m t" m] by (simp add: machine_restore_snapshot)
  with r show ?thesis
    by (simp add: apply_txn_def txn_ops_def [symmetric] Let_def split: option.splits)
qed

lemma apply_txn_ok: "machine_ok H m \<Longrightarrow> machine_ok H (snd (apply_txn H t m))"
  using apply_ops_core_ok [of H m "txn_ops m t"]
  by (auto simp: apply_txn_unfold machine_ok_def [of H m] flush_pending_ok
      split: prod.splits option.splits)

lemma machine_ok_flush_result:
  "machine_ok H m \<Longrightarrow> (\<And>m'. r = Inr m' \<Longrightarrow> core_ok H m') \<Longrightarrow> machine_ok H (snd (flush_result r m))"
  by (cases r) (simp_all add: flush_result_def Let_def flush_pending_ok)

lemma core_ok_compact:
  assumes m: "core_ok H m"
  shows "core_ok H (m\<lparr>tm_watch := compact_through through (tm_watch m)\<rparr>)"
  using core_okD [OF m] watch_ok_compact set_watch_compact [of through "tm_watch m"]
  by (intro core_okI) auto

lemma machine_ok_timed:
  assumes m: "machine_ok H m" and t: "commit_time now m = (r, m1)"
  shows "core_ok H m1" "tm_pending m1 = []" "lease_ok (tm_leases m1)" "machine_ok H m1"
proof -
  from m have core: "core_ok H m" by (simp add: machine_ok_def)
  from commit_time_core_ok [OF core, of now] t show "core_ok H m1" by simp
  then show "lease_ok (tm_leases m1)" by (rule core_okD)
  from commit_time_frame(3) [of now m] t m show "tm_pending m1 = []" by (simp add: machine_ok_def)
  with \<open>core_ok H m1\<close> show "machine_ok H m1" by (simp add: machine_ok_def)
qed

lemma machine_ok_leases: "machine_ok H m \<Longrightarrow> lease_ok t \<Longrightarrow> machine_ok H (m\<lparr>tm_leases := t\<rparr>)"
  by (simp add: machine_ok_def core_ok_leases)

lemma machine_ok_bump_leases:
  "core_ok H m \<Longrightarrow> tm_pending m = [] \<Longrightarrow> lease_ok t \<Longrightarrow> machine_ok H (bump_revision (m\<lparr>tm_leases := t\<rparr>))"
  by (simp add: machine_ok_def bump_revision_core_ok core_ok_leases) (simp add: bump_revision_def)

lemma apply_command_ok: "machine_ok H m \<Longrightarrow> machine_ok H (snd (apply_command H c m))"
proof -
  assume m: "machine_ok H m"
  then have core: "core_ok H m" and pend: "tm_pending m = []"
    by (simp_all add: machine_ok_def)
  note timed = machine_ok_timed [OF m]
  show ?thesis
  proof (cases c)
    case (CPut k x pay l)
    then show ?thesis
      using m core by (auto intro!: machine_ok_flush_result intro: put_record_core_ok)
  next
    case (CDelete k x)
    then show ?thesis
      using m core by (auto intro!: machine_ok_flush_result intro: delete_record_core_ok)
  next
    case (CTxn t)
    then show ?thesis using m by (simp add: apply_txn_ok)
  next
    case (CCompact through)
    then show ?thesis
      using core pend by (simp add: Let_def machine_ok_def core_ok_compact)
  next
    case (CLeaseGrant p now)
    obtain r m1 where t: "commit_time now m = (r, m1)" by fastforce
    obtain l lt where g: "lease_grant p (tm_now_ms m1) (tm_leases m1) = (l, lt)" by fastforce
    have "lease_ok lt"
      using lease_grant_ok [OF timed(3) [OF t], of p "tm_now_ms m1"] g by simp
    then show ?thesis
      using CLeaseGrant t g timed [OF t]
      by (simp add: machine_ok_bump_leases Let_def split: sum.splits)
  next
    case (CLeaseRenew i now)
    obtain r m1 where t: "commit_time now m = (r, m1)" by fastforce
    obtain q lt where g: "lease_renew i (tm_now_ms m1) (tm_leases m1) = (q, lt)" by fastforce
    have "lease_ok lt"
      using lease_renew_ok [OF timed(3) [OF t], of i "tm_now_ms m1"] g by simp
    then show ?thesis
      using CLeaseRenew t g timed [OF t]
      by (simp add: machine_ok_bump_leases machine_ok_leases Let_def split: sum.splits)
  next
    case (CLeaseRevoke i)
    obtain q lt where g: "lease_revoke i (tm_leases m) = (q, lt)" by fastforce
    have "lease_ok lt"
      using lease_revoke_ok [OF core_okD(9) [OF core], of i] g by simp
    then show ?thesis
      using CLeaseRevoke g core pend m
      by (simp add: machine_ok_leases Let_def flush_pending_ok bump_revision_core_ok core_ok_leases
          split: sum.splits)
  next
    case (CAdvanceTime now)
    obtain r m1 where t: "commit_time now m = (r, m1)" by fastforce
    then show ?thesis
      using CAdvanceTime timed [OF t] by (simp split: sum.splits)
  next
    case (CExpireLeases now)
    obtain r m1 where t: "commit_time now m = (r, m1)" by fastforce
    obtain ids lt where g: "lease_expire_due (tm_now_ms m1) (tm_leases m1) = (ids, lt)" by fastforce
    have "lease_ok lt"
      using lease_expire_due_ok [OF timed(3) [OF t], of "tm_now_ms m1"] g by simp
    then show ?thesis
      using CExpireLeases t g timed [OF t]
      by (simp add: machine_ok_leases Let_def flush_pending_ok bump_revision_core_ok core_ok_leases
          split: sum.splits)
  qed
qed

lemma used_of_default [simp]: "used_of budget_usage_default c = 0"
  by (cases c) (simp_all add: budget_usage_default_def)

lemma machine_new_ok: "limits_ok b \<Longrightarrow> machine_ok H (machine_new b)"
  unfolding machine_ok_def machine_new_def
  by (auto intro!: core_okI) (simp add: watch_history_default_def)

section \<open>Progress and frames\<close>

lemma apply_ops_revision_mono:
  "tm_revision m \<le> u64_max \<Longrightarrow> tm_revision m \<le> tm_revision (snd (apply_ops H ops m))"
proof (induction H ops m rule: apply_ops.induct)
  case (2 H oper ops m)
  show ?case
  proof (cases "apply_mutate H oper m")
    case (Inr m')
    then have "tm_revision m \<le> tm_revision m'" "tm_revision m' \<le> u64_max"
      using 2 by (simp_all add: apply_mutate_frame sat_add64_mono)
    with 2 Inr show ?thesis by (auto intro: order_trans)
  qed simp
qed simp

text \<open>Between two machines, neither the revision nor the committed clock goes back.\<close>

definition no_rollback :: "machine \<Rightarrow> machine \<Rightarrow> bool" where
  "no_rollback m m' \<longleftrightarrow> tm_revision m \<le> tm_revision m' \<and> tm_now_ms m \<le> tm_now_ms m' \<and>
     tm_budgets m' = tm_budgets m"

lemma no_rollback_refl [simp]: "no_rollback m m"
  by (simp add: no_rollback_def)

lemma no_rollback_time: "commit_time now m = (r, m1) \<Longrightarrow> no_rollback m m1"
  using commit_time_frame [where now = now and m = m] by (simp add: no_rollback_def)

lemma apply_txn_no_rollback:
  assumes "tm_revision m \<le> u64_max"
  shows "no_rollback m (snd (apply_txn H t m))"
  using apply_ops_revision_mono [OF assms, of H "txn_ops m t"] apply_ops_frame [of H "txn_ops m t" m]
  by (auto simp: apply_txn_unfold no_rollback_def split: prod.splits option.splits)

lemma flush_result_no_rollback:
  assumes "\<And>m'. r = Inr m' \<Longrightarrow> no_rollback m m'"
  shows "no_rollback m (snd (flush_result r m))"
  using assms by (cases r) (simp_all add: flush_result_def Let_def no_rollback_def)

lemma apply_mutate_no_rollback:
  "tm_revision m \<le> u64_max \<Longrightarrow> apply_mutate H oper m = Inr m' \<Longrightarrow> no_rollback m m'"
  by (simp add: no_rollback_def apply_mutate_frame sat_add64_mono)

lemma bump_revision_fields [simp]:
  "tm_revision (bump_revision m) = sat_add64 (tm_revision m) 1"
  "tm_now_ms (bump_revision m) = tm_now_ms m"
  "tm_budgets (bump_revision m) = tm_budgets m"
  "tm_records (bump_revision m) = tm_records m"
  "tm_usage (bump_revision m) = tm_usage m"
  "tm_watch (bump_revision m) = tm_watch m"
  "tm_leases (bump_revision m) = tm_leases m"
  "tm_pending (bump_revision m) = tm_pending m"
  by (simp_all add: bump_revision_def)

lemma no_rollback_bump: "no_rollback m m1 \<Longrightarrow> tm_revision m1 \<le> u64_max \<Longrightarrow> no_rollback m (bump_revision m1)"
  using sat_add64_mono [of "tm_revision m1" 1] by (simp add: no_rollback_def)

lemma no_rollback_simps [simp]:
  "no_rollback m (flush_pending m1) = no_rollback m m1"
  "no_rollback m (m1\<lparr>tm_leases := t\<rparr>) = no_rollback m m1"
  "no_rollback m (m1\<lparr>tm_pending := p\<rparr>) = no_rollback m m1"
  "no_rollback m (m1\<lparr>tm_watch := w\<rparr>) = no_rollback m m1"
  by (simp_all add: no_rollback_def)

lemma apply_command_no_rollback:
  assumes "machine_ok H m"
  shows "no_rollback m (snd (apply_command H c m))"
proof -
  from assms have r: "tm_revision m \<le> u64_max"
    by (simp add: machine_ok_def core_ok_def)
  have t: "no_rollback m m1 \<and> tm_revision m1 \<le> u64_max" if "commit_time now m = (q, m1)" for now q m1
    using no_rollback_time [OF that] commit_time_frame(2) [of now m] that r by simp
  show ?thesis
  proof (cases c)
    case (CPut k x pay l)
    then show ?thesis
      using apply_mutate_no_rollback [OF r, of H "MPut k x pay l"] flush_result_no_rollback
      by simp
  next
    case (CDelete k x)
    then show ?thesis
      using apply_mutate_no_rollback [OF r, of H "MDelete k x"] flush_result_no_rollback
      by simp
  next
    case (CTxn t)
    then show ?thesis using r by (simp add: apply_txn_no_rollback)
  qed (use r in \<open>auto simp: Let_def no_rollback_bump split: prod.splits sum.splits dest!: t\<close>)
qed

section \<open>The unbounded log of committed changes\<close>

text \<open>
  The specification of what watchers should see, written without the bounded history: the changes
  an accepted command makes, in order, as one batch stamped with the revision and the committed
  time after the command. The operations of one command take consecutive revisions.
\<close>

fun op_change :: "(bytes \<Rightarrow> bytes) \<Rightarrow> u64 \<Rightarrow> mutate_op \<Rightarrow> watch_change" where
  "op_change H r (MPut k x pay leased) = WPut k r (H pay)"
| "op_change H r (MDelete k x) = WDelete k r"

fun ops_changes :: "(bytes \<Rightarrow> bytes) \<Rightarrow> u64 \<Rightarrow> mutate_op list \<Rightarrow> watch_change list" where
  "ops_changes H r [] = []"
| "ops_changes H r (oper # ops) =
     op_change H (sat_add64 r 1) oper # ops_changes H (sat_add64 r 1) ops"

definition command_changes :: "(bytes \<Rightarrow> bytes) \<Rightarrow> command \<Rightarrow> machine \<Rightarrow> watch_change list" where
  "command_changes H c m = (case fst (apply_command H c m) of
       Inl _ \<Rightarrow> []
     | Inr res \<Rightarrow> (case c of
           CPut k x pay leased \<Rightarrow> ops_changes H (tm_revision m) [MPut k x pay leased]
         | CDelete k x \<Rightarrow> ops_changes H (tm_revision m) [MDelete k x]
         | CTxn t \<Rightarrow> ops_changes H (tm_revision m) (txn_ops m t)
         | CLeaseRevoke i \<Rightarrow> [WLeaseRevoked i (ar_revision res)]
         | CExpireLeases now \<Rightarrow>
             map (\<lambda>i. WLeaseRevoked i (ar_revision res)) (ar_expired_lease_ids res)
         | _ \<Rightarrow> []))"

definition batch_of :: "machine \<Rightarrow> watch_change list \<Rightarrow> watch_batch list" where
  "batch_of m chs = (if chs = [] then []
     else [\<lparr>wb_revision = tm_revision m, wb_at_ms = tm_now_ms m, wb_changes = chs\<rparr>])"

definition command_log :: "(bytes \<Rightarrow> bytes) \<Rightarrow> command \<Rightarrow> machine \<Rightarrow> watch_batch list" where
  "command_log H c m = batch_of (snd (apply_command H c m)) (command_changes H c m)"

fun run_log :: "(bytes \<Rightarrow> bytes) \<Rightarrow> command list \<Rightarrow> machine \<Rightarrow> watch_batch list" where
  "run_log H [] m = []"
| "run_log H (c # cs) m = command_log H c m @ run_log H cs (snd (apply_command H c m))"

definition machine_step :: "(bytes \<Rightarrow> bytes) \<Rightarrow> command \<Rightarrow> machine \<Rightarrow> machine" where
  "machine_step H c m = snd (apply_command H c m)"

abbreviation watch_complete :: "machine \<Rightarrow> watch_batch list \<Rightarrow> bool" where
  "watch_complete m log \<equiv>
     log_complete (wh_compacted_through (tm_watch m)) (wh_batches (tm_watch m)) log"

lemma apply_mutate_pending:
  "apply_mutate H oper m = Inr m' \<Longrightarrow>
     tm_pending m' = tm_pending m @ [op_change H (sat_add64 (tm_revision m) 1) oper]"
  by (cases oper) (auto simp: put_record_Inr delete_record_Inr)

lemma apply_ops_pending:
  "fst (apply_ops H ops m) = None \<Longrightarrow>
     tm_pending (snd (apply_ops H ops m)) = tm_pending m @ ops_changes H (tm_revision m) ops"
proof (induction H ops m rule: apply_ops.induct)
  case (2 H oper ops m)
  then show ?case
    by (auto split: sum.splits simp: apply_mutate_pending apply_mutate_frame(5))
qed simp

lemma flush_pending_complete:
  "watch_complete m log \<Longrightarrow> watch_complete (flush_pending m) (log @ batch_of m (tm_pending m))"
  by (simp add: flush_pending_def batch_of_def log_complete_push)

lemma commit_time_complete: "watch_complete m log \<Longrightarrow> watch_complete (snd (commit_time now m)) log"
  by (cases now m rule: commit_time_cases) (simp_all add: log_complete_retain)

lemma batch_of_Nil [simp]: "batch_of m [] = []"
  by (simp add: batch_of_def)

lemma batch_of_pending [simp]: "batch_of (m\<lparr>tm_pending := p\<rparr>) chs = batch_of m chs"
  by (simp add: batch_of_def)

lemma batch_of_cong:
  "tm_revision m = tm_revision m' \<Longrightarrow> tm_now_ms m = tm_now_ms m' \<Longrightarrow> batch_of m chs = batch_of m' chs"
  by (simp add: batch_of_def)

lemma flush_result_complete:
  assumes "watch_complete m log" and "tm_pending m = []" and r: "r = apply_mutate H oper m"
  shows "watch_complete (snd (flush_result r m)) (log @ (case fst (flush_result r m) of
      Inl _ \<Rightarrow> [] | Inr _ \<Rightarrow> batch_of (snd (flush_result r m)) (ops_changes H (tm_revision m) [oper])))"
proof (cases r)
  case (Inr m')
  then have "watch_complete (flush_pending m') (log @ batch_of m' (tm_pending m'))"
    using assms by (intro flush_pending_complete) (simp add: apply_mutate_frame)
  then show ?thesis
    using Inr assms
    by (simp add: flush_result_def Let_def apply_mutate_pending batch_of_cong [of "flush_pending m'" m'])
qed (use assms in \<open>simp add: flush_result_def\<close>)

lemma apply_txn_complete:
  assumes "watch_complete m log" and "tm_pending m = []"
  shows "watch_complete (snd (apply_txn H t m)) (log @ (case fst (apply_txn H t m) of
      Inl _ \<Rightarrow> [] | Inr _ \<Rightarrow> batch_of (snd (apply_txn H t m)) (ops_changes H (tm_revision m) (txn_ops m t))))"
proof -
  obtain e m' where r: "apply_ops H (txn_ops m t) m = (e, m')" by fastforce
  show ?thesis
  proof (cases e)
    case None
    have "watch_complete (flush_pending m') (log @ batch_of m' (tm_pending m'))"
      using assms r apply_ops_frame(3) [of H "txn_ops m t" m] by (intro flush_pending_complete) simp
    then show ?thesis
      using r None assms apply_ops_pending [of H "txn_ops m t" m]
      by (simp add: apply_txn_unfold batch_of_cong [of "flush_pending m'" m'])
  qed (use r assms in \<open>simp add: apply_txn_unfold\<close>)
qed

lemma command_log_complete:
  assumes "watch_complete m log" and "tm_pending m = []"
  shows "watch_complete (snd (apply_command H c m)) (log @ command_log H c m)"
proof (cases c)
  case (CPut k x pay l)
  then show ?thesis
    using flush_result_complete [OF assms refl, of H "MPut k x pay l"]
    by (simp add: command_log_def command_changes_def split: sum.splits)
next
  case (CDelete k x)
  then show ?thesis
    using flush_result_complete [OF assms refl, of H "MDelete k x"]
    by (simp add: command_log_def command_changes_def split: sum.splits)
next
  case (CTxn t)
  then show ?thesis
    using apply_txn_complete [OF assms, of H t]
    by (simp add: command_log_def command_changes_def split: sum.splits)
next
  case (CCompact through)
  then show ?thesis
    using log_complete_compact [OF assms(1)]
    by (simp add: command_log_def command_changes_def Let_def)
next
  case (CLeaseGrant p now)
  then show ?thesis
    using commit_time_complete [OF assms(1), of now]
    by (auto simp: command_log_def command_changes_def Let_def
        split: prod.splits sum.splits)
next
  case (CLeaseRenew i now)
  then show ?thesis
    using commit_time_complete [OF assms(1), of now]
    by (auto simp: command_log_def command_changes_def Let_def
        split: prod.splits sum.splits)
next
  case (CLeaseRevoke i)
  obtain q lt where g: "lease_revoke i (tm_leases m) = (q, lt)" by fastforce
  let ?m1 = "bump_revision (m\<lparr>tm_leases := lt\<rparr>)"
  have "watch_complete (flush_pending (?m1\<lparr>tm_pending := [WLeaseRevoked i (tm_revision ?m1)]\<rparr>))
      (log @ batch_of ?m1 [WLeaseRevoked i (tm_revision ?m1)])"
    using flush_pending_complete [of "?m1\<lparr>tm_pending := [WLeaseRevoked i (tm_revision ?m1)]\<rparr>" log] assms
    by (simp add: batch_of_def)
  then show ?thesis
    using CLeaseRevoke g assms
    by (simp add: command_log_def command_changes_def batch_of_def Let_def result_at_def
        split: sum.splits)
next
  case (CAdvanceTime now)
  then show ?thesis
    using commit_time_complete [OF assms(1), of now]
    by (auto simp: command_log_def command_changes_def Let_def
        split: prod.splits sum.splits)
next
  case (CExpireLeases now)
  obtain r m1 where t: "commit_time now m = (r, m1)" by fastforce
  obtain ids lt where g: "lease_expire_due (tm_now_ms m1) (tm_leases m1) = (ids, lt)" by fastforce
  let ?m2 = "bump_revision (m1\<lparr>tm_leases := lt\<rparr>)"
  let ?chs = "map (\<lambda>i. WLeaseRevoked i (tm_revision ?m2)) ids"
  have m1: "watch_complete m1 log" "tm_pending m1 = []"
    using commit_time_complete [OF assms(1), of now] commit_time_frame(3) [of now m] t assms by simp_all
  have "watch_complete (flush_pending (?m2\<lparr>tm_pending := ?chs\<rparr>)) (log @ batch_of ?m2 ?chs)"
    using flush_pending_complete [of "?m2\<lparr>tm_pending := ?chs\<rparr>" log] m1 by simp
  then show ?thesis
    using CExpireLeases t g m1
    by (auto simp: command_log_def command_changes_def batch_of_def Let_def result_at_def
        split: sum.splits)
qed

lemma run_log_complete:
  assumes "machine_ok H m" and "watch_complete m log"
  shows "watch_complete (fold (machine_step H) cs m) (log @ run_log H cs m)"
  using assms
proof (induction cs arbitrary: m log)
  case (Cons c cs)
  have "tm_pending m = []" using Cons.prems by (simp add: machine_ok_def)
  with Cons.IH [OF apply_command_ok [OF Cons.prems(1)] command_log_complete [OF Cons.prems(2)]]
  show ?case by (simp add: machine_step_def)
qed simp

interpretation records: monotone_machine "machine_step H" "machine_ok H" tm_revision
  for H :: "bytes \<Rightarrow> bytes"
  by unfold_locales
    (use apply_command_ok apply_command_no_rollback in \<open>auto simp: machine_step_def no_rollback_def\<close>)

interpretation records_clock: monotone_machine "machine_step H" "machine_ok H" tm_now_ms
  for H :: "bytes \<Rightarrow> bytes"
  by unfold_locales
    (use apply_command_no_rollback in \<open>auto simp: machine_step_def no_rollback_def\<close>)

end
