(* ===== verification/Record_Properties.thy ===== *)
theory Record_Properties
  imports Record_Invariant
begin

text \<open>
  The properties of the typed record state machine that its clients rely on, each for every run of
  commands or for every machine that satisfies the invariant: completeness and retention of the
  watch history, exact budgets, the reference behaviour of a put, transactions, compare-and-set on
  revisions, lease expiry. The concrete runs at the end of the operations section serve the
  witnesses.
\<close>

section \<open>Reference notions\<close>

text \<open>The bytes that all other records of a class hold, recomputed from the records.\<close>

definition others_bytes :: "machine \<Rightarrow> record_key \<Rightarrow> budget_class \<Rightarrow> nat" where
  "others_bytes m k c = bt_sum (charge c) (bt_remove k (tm_records m))"

definition expected_holds :: "machine \<Rightarrow> record_key \<Rightarrow> expected \<Rightarrow> bool" where
  "expected_holds m k x \<longleftrightarrow> check_expected m k x = Inr ()"

text \<open>The records after a list of operations, each at its own revision.\<close>

fun ops_records ::
  "(bytes \<Rightarrow> bytes) \<Rightarrow> u64 \<Rightarrow> mutate_op list \<Rightarrow> (record_key, record_value) btree \<Rightarrow>
    (record_key, record_value) btree" where
  "ops_records H r [] recs = recs"
| "ops_records H r (MPut k x pay leased # ops) recs =
     ops_records H (sat_add64 r 1) ops
       (bt_insert k (record_value_new H (sat_add64 r 1) pay leased) recs)"
| "ops_records H r (MDelete k x # ops) recs =
     ops_records H (sat_add64 r 1) ops (bt_remove k recs)"

text \<open>The value of a key is newer than a given revision, which the machine has passed.\<close>

definition newer_than :: "u64 \<Rightarrow> record_key \<Rightarrow> machine \<Rightarrow> bool" where
  "newer_than r k m \<longleftrightarrow> r < tm_revision m \<and> (\<forall>v. bt_get (tm_records m) k = Some v \<longrightarrow> r < rv_revision v)"

text \<open>The retention bounds of the watch history.\<close>

definition watch_bounded :: "machine \<Rightarrow> bool" where
  "watch_bounded m \<longleftrightarrow>
     length (wh_batches (tm_watch m)) \<le> 10000 \<and>
     batches_bytes (wh_batches (tm_watch m)) \<le> mb_history (tm_budgets m) \<and>
     (\<forall>b \<in> set (wh_batches (tm_watch m)). tm_now_ms m \<le> wb_at_ms b + 10 * 60 * 1000)"

text \<open>Concrete runs.\<close>

definition demo_key :: record_key where
  "demo_key = RecordKey Names ''a''"

definition demo_cmds :: "command list" where
  "demo_cmds =
     [CPut demo_key Absent [1] False, CAdvanceTime 5, CPut demo_key (ExactRevision 1) [2, 3] False,
      CLeaseGrant MemberLiveness 6]"

definition demo_machine :: machine where
  "demo_machine = fold (machine_step (\<lambda>p. p)) demo_cmds machine_default"

definition demo_txn :: txn where
  "demo_txn =
     \<lparr>txn_comparisons = [\<lparr>cmp_key = demo_key, cmp_expected = ExactRevision 2\<rparr>],
      txn_success_ops = [MPut demo_key AnyRev [9] False, MDelete demo_key AnyRev],
      txn_failure_ops = []\<rparr>"

section \<open>Supporting lemmas\<close>

lemmas watch_eval =
  watch_history_default_def watch_push_def watch_retain_def prune_compacted_def recompute_bytes_def
  compact_through_def batches_bytes_def batch_bytes_def age_guard_def count_guard_def
  budget_guard_def max_watch_revisions_def max_watch_age_ms_def record_key_display_def sat_sub_def

lemmas machine_eval =
  machine_step_def machine_default_def machine_new_def memory_budgets_default_def
  budget_usage_default_def lease_table_default_def flush_result_def flush_pending_def
  put_record_def delete_record_def check_expected_def record_value_new_def validate_size_def
  budget_class_of_def byte_len_def check_grow_def commit_time_def result_at_def bump_revision_def
  lease_grant_def Let_def bt_get_def bt_remove_def sat_add64_def sat_sub_def u64_max_def wrap_add64_def

lemma machine_default_ok [simp]: "machine_ok H machine_default"
  by (simp add: machine_default_def machine_new_ok)

lemma demo_machine_ok [simp]: "machine_ok (\<lambda>p. p) demo_machine"
  by (simp add: demo_machine_def records.inv_run)

lemma demo_machine_eval:
  "demo_machine = \<lparr>tm_revision = 3,
     tm_records = [(demo_key, \<lparr>rv_revision = 2, rv_digest = [2, 3], rv_payload = [2, 3], rv_leased = False\<rparr>)],
     tm_budgets = memory_budgets_default,
     tm_usage = \<lparr>bu_authoritative = 2, bu_leased = 0, bu_history = 0\<rparr>, tm_now_ms = 6,
     tm_watch = \<lparr>wh_compacted_through = 0, wh_batches =
       [\<lparr>wb_revision = 1, wb_at_ms = 0, wb_changes = [WPut demo_key 1 [1]]\<rparr>,
        \<lparr>wb_revision = 2, wb_at_ms = 5, wb_changes = [WPut demo_key 2 [2, 3]]\<rparr>], wh_approx_bytes = 128\<rparr>,
     tm_leases = \<lparr>lt_next_id = 1, lt_leases =
       [(1, \<lparr>l_id = 1, l_purpose = MemberLiveness, l_ttl_ms = 15000, l_expires_at_ms = 15006\<rparr>)]\<rparr>,
     tm_pending = []\<rparr>"
  by (simp add: demo_machine_def demo_cmds_def demo_key_def machine_eval watch_eval)

lemma check_expected_Inl: "check_expected m k x = Inl e \<longleftrightarrow> e = PreconditionFailed k x \<and> \<not> expected_holds m k x"
  by (auto simp: check_expected_def expected_holds_def Let_def)

lemma put_record_cases:
  assumes m: "core_ok H m"
  shows "put_record H k x pay leased m =
     (if \<not> expected_holds m k x then Inl (PreconditionFailed k x)
      else if max_payload (key_prefix k) < length pay
      then Inl (AValue (PayloadTooLarge (length pay) (max_payload (key_prefix k))))
      else let c = budget_class_of (key_prefix k) leased in
        if limit_of (tm_budgets m) c < others_bytes m k c + length pay
        then Inl (ABudget (Exhausted c (others_bytes m k c) (length pay) (limit_of (tm_budgets m) c)))
        else Inr (m\<lparr>tm_usage := usage_add (usage_without m k) c (length pay),
            tm_revision := sat_add64 (tm_revision m) 1,
            tm_pending := tm_pending m @ [WPut k (sat_add64 (tm_revision m) 1) (H pay)],
            tm_records := bt_insert k (record_value_new H (sat_add64 (tm_revision m) 1) pay leased)
              (tm_records m)\<rparr>))"
proof -
  let ?c = "budget_class_of (key_prefix k) leased"
  have used: "used_of (usage_without m k) ?c = others_bytes m k ?c"
    by (simp add: used_without [OF m] others_bytes_def)
  have lim: "limit_of (tm_budgets m) ?c < u64_max"
    using core_okD(3) [OF m] by (rule limits_ok_limit)
  have grow: "check_grow (usage_without m k) (tm_budgets m) ?c (length pay) =
     (if limit_of (tm_budgets m) ?c < others_bytes m k ?c + length pay
      then Inl (Exhausted ?c (others_bytes m k ?c) (length pay) (limit_of (tm_budgets m) ?c)) else Inr ())"
    using lim check_grow_iff [of "usage_without m k" "tm_budgets m" ?c "length pay"]
      check_grow_Inl [of "usage_without m k" "tm_budgets m" ?c "length pay"]
    by (auto simp: used sat_add64_def)
  show ?thesis
    unfolding put_record_def
    using grow check_expected_Inl [of m k x]
    by (auto simp: Let_def record_value_new_def byte_len_def validate_size_def expected_holds_def
        usage_without_def split: sum.splits option.splits if_splits)
qed

text \<open>Once a key's value is newer than a revision, it stays newer: revisions are never reused.\<close>

lemma newer_than_mutate:
  assumes "newer_than r k m" and "tm_revision m \<le> u64_max" and "apply_mutate H oper m = Inr m'"
  shows "newer_than r k m'"
proof -
  have "tm_revision m \<le> sat_add64 (tm_revision m) 1"
    using assms(2) by (rule sat_add64_mono)
  with assms show ?thesis
    by (cases oper) (auto simp: newer_than_def put_record_Inr delete_record_Inr bt_simps record_value_new_def)
qed

lemma newer_than_ops:
  assumes "newer_than r k m" and "tm_revision m \<le> u64_max"
  shows "newer_than r k (snd (apply_ops H ops m))"
  using assms
proof (induction H ops m rule: apply_ops.induct)
  case (2 H oper ops m)
  then show ?case
    using newer_than_mutate [of r k m H oper] by (auto split: sum.splits simp: apply_mutate_frame)
qed simp

lemma newer_than_frame [simp]:
  "newer_than r k (flush_pending m) = newer_than r k m"
  "newer_than r k (snd (commit_time now m)) = newer_than r k m"
  "newer_than r k (m\<lparr>tm_leases := t\<rparr>) = newer_than r k m"
  "newer_than r k (m\<lparr>tm_watch := w\<rparr>) = newer_than r k m"
  "newer_than r k (m\<lparr>tm_pending := p\<rparr>) = newer_than r k m"
  by (simp_all add: newer_than_def commit_time_frame)

lemma newer_than_bump: "newer_than r k m \<Longrightarrow> tm_revision m \<le> u64_max \<Longrightarrow> newer_than r k (bump_revision m)"
  using sat_add64_mono [of "tm_revision m" 1] by (simp add: newer_than_def)

lemma newer_than_step:
  assumes "machine_ok H m" and "newer_than r k m"
  shows "newer_than r k (machine_step H c m)"
proof -
  from assms have u: "tm_revision m \<le> u64_max" by (simp add: machine_ok_def core_ok_def)
  have t: "newer_than r k m1 \<and> tm_revision m1 \<le> u64_max" if "commit_time now m = (q, m1)" for now q m1
    using newer_than_frame(2) [of r k now m] commit_time_frame(2) [of now m] that assms u by simp
  show ?thesis
  proof (cases c)
    case (CTxn tx)
    then show ?thesis
      using newer_than_ops [OF assms(2) u, of H "txn_ops m tx"] assms
      by (auto simp: machine_step_def apply_txn_unfold split: prod.splits option.splits)
  qed (use assms u newer_than_mutate [OF assms(2) u] in
      \<open>auto simp: machine_step_def flush_result_def Let_def newer_than_bump
        simp del: apply_mutate.simps split: prod.splits sum.splits dest!: t\<close>)
qed

lemma newer_than_run:
  "machine_ok H m \<Longrightarrow> newer_than r k m \<Longrightarrow> newer_than r k (fold (machine_step H) cs m)"
  by (induction cs arbitrary: m) (simp_all add: newer_than_step records.inv_step)

lemma newer_than_refutes: "newer_than r k m \<Longrightarrow> \<not> expected_holds m k (ExactRevision r)"
  by (auto simp: newer_than_def expected_holds_def check_expected_def Let_def split: option.splits)

section \<open>Retention\<close>

lemma watch_bounded_retained:
  assumes "watch_ok h" and "tm_watch m = watch_retain (tm_now_ms m) (mb_history (tm_budgets m)) h"
  shows "watch_bounded m"
  using assms watch_retain_length [of "tm_now_ms m" _ h] watch_retain_budget [of "tm_now_ms m" _ h]
    watch_retain_age [of h _ "tm_now_ms m"]
  by (auto simp: watch_bounded_def watch_ok_def max_watch_revisions_def max_watch_age_ms_def)

lemma watch_bounded_time:
  assumes "core_ok H m" and "watch_bounded m"
  shows "watch_bounded (snd (commit_time now m))"
  by (cases now m rule: commit_time_cases)
    (use assms core_okD(7) [OF assms(1)] watch_bounded_retained [of "tm_watch m"] in simp_all)

lemma watch_bounded_flush:
  assumes "core_ok H m" and "watch_bounded m"
  shows "watch_bounded (flush_pending m)"
proof (cases "tm_pending m = []")
  case False
  let ?b = "\<lparr>wb_revision = tm_revision m, wb_at_ms = tm_now_ms m, wb_changes = tm_pending m\<rparr>"
  let ?h = "(tm_watch m)\<lparr>wh_approx_bytes := batches_bytes (wh_batches (tm_watch m) @ [?b]),
      wh_batches := wh_batches (tm_watch m) @ [?b]\<rparr>"
  have "watch_ok ?h"
    using core_okD(7,8) [OF assms(1)] by (auto simp: watch_ok_def sorted_append batch_ok_def)
  moreover have "watch_push ?b now bu (tm_watch m) = watch_retain now bu ?h" for now bu
    by (simp add: watch_push_def watch_retain_def prune_compacted_def recompute_bytes_def)
  ultimately show ?thesis
    using False by (intro watch_bounded_retained [of ?h]) (simp_all add: flush_pending_def)
qed (use assms in \<open>simp add: flush_pending_def\<close>)

lemma watch_bounded_frame [simp]:
  "watch_bounded (m\<lparr>tm_leases := t\<rparr>) = watch_bounded m"
  "watch_bounded (m\<lparr>tm_pending := p\<rparr>) = watch_bounded m"
  "watch_bounded (bump_revision m) = watch_bounded m"
  by (simp_all add: watch_bounded_def)

lemma watch_bounded_compact:
  assumes "watch_bounded m"
  shows "watch_bounded (m\<lparr>tm_watch := compact_through through (tm_watch m)\<rparr>)"
proof -
  have l: "length (since x bs) \<le> length bs" and b: "batches_bytes (since x bs) \<le> batches_bytes bs"
    and e: "set (since x bs) \<subseteq> set bs" for x bs
    by (simp add: since_def) (induction bs, auto simp: since_def batches_bytes_def)
  show ?thesis
    using assms unfolding watch_bounded_def
    by (simp add: compact_through_def order_trans [OF l] order_trans [OF b]) (use e in blast)
qed

lemma watch_bounded_mutated:
  "core_ok H m \<Longrightarrow> watch_bounded m \<Longrightarrow> apply_mutate H oper m = Inr m' \<Longrightarrow> watch_bounded (flush_pending m')"
  by (rule watch_bounded_flush [of H])
    (auto intro: apply_mutate_core_ok simp: watch_bounded_def apply_mutate_frame)

lemma watch_bounded_step:
  assumes m: "machine_ok H m" and "watch_bounded m"
  shows "watch_bounded (machine_step H c m)"
proof -
  from m have core: "core_ok H m" by (simp add: machine_ok_def)
  have t: "watch_bounded m1 \<and> core_ok H m1 \<and> lease_ok (tm_leases m1)" if "commit_time now m = (q, m1)" for now q m1
    using watch_bounded_time [OF core assms(2), of now] machine_ok_timed [OF m that] that by simp
  have fl: "watch_bounded (flush_pending (bump_revision (m1\<lparr>tm_leases := lt\<rparr>)\<lparr>tm_pending := p\<rparr>))"
    if "watch_bounded m1" "core_ok H m1" "lease_ok lt" for m1 lt p
    using that by (intro watch_bounded_flush [of H]) (simp_all add: core_ok_leases bump_revision_core_ok)
  show ?thesis
  proof (cases c)
    case (CTxn tx)
    have "watch_bounded (flush_pending (snd (apply_ops H ops m)))" for ops
      using assms apply_ops_core_ok [OF core, of ops]
      by (intro watch_bounded_flush [of H]) (simp_all add: watch_bounded_def apply_ops_frame)
    then show ?thesis
      using CTxn assms apply_ops_frame [of H "txn_ops m tx" m]
      by (auto simp: machine_step_def apply_txn_unfold split: prod.splits option.splits) (metis snd_conv)
  next
    case (CCompact through)
    then show ?thesis using assms by (simp add: machine_step_def Let_def watch_bounded_compact)
  next
    case (CLeaseRevoke i)
    then show ?thesis
      using assms fl [OF assms(2) core] lease_revoke_ok [OF core_okD(9) [OF core], of i]
      by (auto simp: machine_step_def Let_def split: prod.splits sum.splits)
  next
    case (CExpireLeases now)
    obtain r m1 where ct: "commit_time now m = (r, m1)" by fastforce
    then show ?thesis
      using CExpireLeases fl t [OF ct] lease_expire_due_ok [of "tm_leases m1" "tm_now_ms m1"]
      by (auto simp: machine_step_def Let_def split: prod.splits sum.splits)
  qed (use assms watch_bounded_mutated [OF core assms(2)] in
      \<open>auto simp: machine_step_def flush_result_def Let_def simp del: apply_mutate.simps
        split: prod.splits sum.splits dest!: t\<close>)
qed

interpretation retention: invariant_machine "machine_step H" "\<lambda>m. machine_ok H m \<and> watch_bounded m"
  for H :: "bytes \<Rightarrow> bytes"
  by unfold_locales (simp add: watch_bounded_step records.inv_step)

lemma watch_bounded_new [simp]: "watch_bounded (machine_new b)"
  by (simp add: watch_bounded_def machine_new_def watch_history_default_def batches_bytes_def)

interpretation fixed_budgets: invariant_machine "machine_step H" "\<lambda>m. machine_ok H m \<and> tm_budgets m = b"
  for H :: "bytes \<Rightarrow> bytes" and b
  by unfold_locales
    (use apply_command_no_rollback records.inv_step in \<open>auto simp: machine_step_def no_rollback_def\<close>)

lemma ops_revision:
  "fst (apply_ops H ops m) = None \<Longrightarrow> tm_revision m + length ops \<le> u64_max \<Longrightarrow>
     tm_revision (snd (apply_ops H ops m)) = tm_revision m + length ops"
proof (induction H ops m rule: apply_ops.induct)
  case (2 H oper ops m)
  then show ?case
    by (auto split: sum.splits simp: apply_mutate_frame sat_simps)
qed simp

lemma apply_mutate_records:
  "apply_mutate H oper m = Inr m' \<Longrightarrow>
     ops_records H (tm_revision m) (oper # ops) (tm_records m) =
     ops_records H (tm_revision m') ops (tm_records m')"
  by (cases oper) (auto simp: put_record_Inr delete_record_Inr)

lemma apply_ops_records:
  "fst (apply_ops H ops m) = None \<Longrightarrow>
     tm_records (snd (apply_ops H ops m)) = ops_records H (tm_revision m) ops (tm_records m)"
proof (induction H ops m rule: apply_ops.induct)
  case (2 H oper ops m)
  then show ?case
    by (auto simp: apply_mutate_records simp del: apply_mutate.simps ops_records.simps split: sum.splits)
qed simp

lemma refused_command_unchanged:
  assumes "fst (apply_command H c m) = Inl e" and "\<And>i now. c \<noteq> CLeaseRenew i now"
  shows "snd (apply_command H c m) = m"
proof (cases c)
  case (CTxn t)
  then show ?thesis using assms(1) by (auto simp: apply_txn_unfold split: prod.splits option.splits)
next
  case (CLeaseRevoke i)
  then show ?thesis using assms(1) by (auto simp: lease_revoke_def Let_def split: option.splits)
qed (use assms in \<open>auto simp: flush_result_def commit_time_def Let_def simp del: apply_mutate.simps
      split: sum.splits prod.splits if_splits\<close>)

section \<open>Properties\<close>

text \<open>
  C1: for every run of commands from an empty machine and every revision a client has seen, the
  watch history either answers with exactly the batches the run committed after that revision, in
  order, or reports that it is compacted past it. A change is never skipped silently, whatever the
  retention by age, count and bytes dropped.
\<close>

theorem watch_never_loses_changes:
  assumes "limits_ok b"
  shows "let h = tm_watch (fold (machine_step H) cs (machine_new b)) in
    watch_after h a =
      (if a < wh_compacted_through h then Inl (Compacted (wh_compacted_through h))
       else Inr (since a (run_log H cs (machine_new b))))"
  using run_log_complete [OF machine_new_ok [OF assms], where H = H and log = "[]" and cs = cs]
  by (simp add: watch_after_complete machine_new_def)

theorem watch_never_loses_changes_witness:
  "watch_after (tm_watch demo_machine) 1 =
     Inr [\<lparr>wb_revision = 2, wb_at_ms = 5, wb_changes = [WPut demo_key 2 [2, 3]]\<rparr>]"
  using watch_never_loses_changes [of memory_budgets_default "\<lambda>p. p" demo_cmds 1]
  by (simp add: demo_machine_def demo_cmds_def demo_key_def machine_eval watch_eval since_def
      command_log_def command_changes_def batch_of_def limits_ok_def)

text \<open>
  C2: after every run of commands the usage counters equal the bytes the live records of each budget
  class hold, recomputed from the records, and stay within the configured limits.
\<close>

theorem reachable_budget_exact:
  assumes "limits_ok b"
  shows "used_of (tm_usage (fold (machine_step H) cs (machine_new b))) c =
      bt_sum (charge c) (tm_records (fold (machine_step H) cs (machine_new b))) \<and>
    used_of (tm_usage (fold (machine_step H) cs (machine_new b))) c \<le> limit_of b c"
proof -
  let ?m = "fold (machine_step H) cs (machine_new b)"
  have "machine_ok H ?m \<and> tm_budgets ?m = b"
    by (rule fixed_budgets.inv_run) (simp add: machine_new_ok [OF assms], simp add: machine_new_def)
  then show ?thesis
    using core_okD(4,5) [of H ?m c] by (simp add: machine_ok_def)
qed

theorem reachable_budget_exact_witness:
  "used_of (tm_usage demo_machine) Authoritative =
     bt_sum (charge Authoritative) (tm_records demo_machine) \<and>
   used_of (tm_usage demo_machine) Authoritative = 2"
proof -
  have "limits_ok memory_budgets_default"
    by (simp add: limits_ok_def memory_budgets_default_def u64_max_def)
  from reachable_budget_exact [OF this, of "\<lambda>p. p" demo_cmds Authoritative] show ?thesis
    by (simp add: demo_machine_def [symmetric] machine_default_def [symmetric]) (simp add: demo_machine_eval)
qed

text \<open>
  C9: a command that the machine refuses leaves the whole state unchanged (records, revision, usage,
  history, clock and leases), a failed transaction included. The only exception is the renewal of a
  lease, which is treated on its own.
\<close>

theorem refused_command_no_effect:
  assumes "fst (apply_command H c m) = Inl e" and "\<And>i now. c \<noteq> CLeaseRenew i now"
  shows "snd (apply_command H c m) = m"
  by (rule refused_command_unchanged [OF assms])

theorem refused_command_no_effect_witness:
  "snd (apply_command (\<lambda>p. p) (CPut demo_key Absent [7] False) demo_machine) = demo_machine"
  by (rule refused_command_no_effect [where e = "PreconditionFailed demo_key Absent"])
    (simp_all add: demo_machine_eval machine_eval)

text \<open>
  C12: a put is refused exactly when its expectation does not hold, then when the payload exceeds the
  class limit, then when the other records of the class together with it exceed the budget, each with
  the stated error; otherwise it stores the value with its digest at the next revision and emits one
  watch batch with that change.
\<close>

theorem put_matches_reference:
  assumes "machine_ok H m"
  shows "apply_command H (CPut k x pay leased) m =
     (if \<not> expected_holds m k x then (Inl (PreconditionFailed k x), m)
      else if max_payload (key_prefix k) < length pay
      then (Inl (AValue (PayloadTooLarge (length pay) (max_payload (key_prefix k)))), m)
      else let c = budget_class_of (key_prefix k) leased in
        if limit_of (tm_budgets m) c < others_bytes m k c + length pay
        then (Inl (ABudget (Exhausted c (others_bytes m k c) (length pay) (limit_of (tm_budgets m) c))), m)
        else let r = sat_add64 (tm_revision m) 1;
                 v = \<lparr>rv_revision = r, rv_digest = H pay, rv_payload = pay, rv_leased = leased\<rparr>;
                 m' = m\<lparr>tm_records := bt_insert k v (tm_records m), tm_revision := r,
                        tm_usage := usage_add (usage_without m k) c (length pay),
                        tm_watch := watch_push
                          \<lparr>wb_revision = r, wb_at_ms = tm_now_ms m, wb_changes = [WPut k r (H pay)]\<rparr>
                          (tm_now_ms m) (mb_history (tm_budgets m)) (tm_watch m)\<rparr>
             in (Inr (result_at m' None None []), m'))"
proof -
  from assms have "core_ok H m" and "tm_pending m = []"
    by (simp_all add: machine_ok_def)
  then show ?thesis
    by (simp add: put_record_cases Let_def flush_result_def flush_pending_def record_value_new_def
        result_at_def)
qed

theorem put_matches_reference_witness:
  "fst (apply_command (\<lambda>p. p) (CPut demo_key Absent [7] False) demo_machine) =
     Inl (PreconditionFailed demo_key Absent)"
  using put_matches_reference [OF demo_machine_ok, of demo_key Absent "[7]" False]
  by (simp add: demo_machine_eval expected_holds_def machine_eval)

text \<open>
  C16: compare-and-set on revisions: once a put conditional on revision r has succeeded, no machine
  reached from there ever satisfies that condition again, so of several writers that read the same
  revision at most one wins.
\<close>

theorem revision_cas_single_winner:
  assumes "machine_ok H m" and "tm_revision m < u64_max"
    and "fst (apply_command H (CPut k (ExactRevision r) pay leased) m) = Inr res"
  shows "\<not> expected_holds (fold (machine_step H) cs (machine_step H (CPut k (ExactRevision r) pay leased) m))
           k (ExactRevision r)"
proof -
  obtain m' where put: "put_record H k (ExactRevision r) pay leased m = Inr m'"
    using assms(3) by (auto simp: flush_result_def split: sum.splits)
  then obtain v where v: "bt_get (tm_records m) k = Some v" "rv_revision v = r"
    by (auto simp: put_record_Inr check_expected_def Let_def split: option.splits if_splits)
  then have "r \<le> tm_revision m"
    using assms(1) core_okD(2) [of H m k v] by (simp add: machine_ok_def record_ok_def)
  with put assms(2) have "newer_than r k m'"
    by (auto simp: put_record_Inr newer_than_def bt_simps record_value_new_def sat_simps)
  with put have "newer_than r k (machine_step H (CPut k (ExactRevision r) pay leased) m)"
    by (simp add: machine_step_def flush_result_def Let_def)
  then show ?thesis
    by (intro newer_than_refutes newer_than_run) (rule records.inv_step [OF assms(1)])
qed

theorem revision_cas_single_winner_witness:
  "\<not> expected_holds
     (fold (machine_step (\<lambda>p. p)) [CDelete demo_key AnyRev, CPut demo_key Absent [1] False]
       (machine_step (\<lambda>p. p) (CPut demo_key (ExactRevision 2) [8] False) demo_machine))
     demo_key (ExactRevision 2)"
proof (rule revision_cas_single_winner [OF demo_machine_ok])
  show "fst (apply_command (\<lambda>p. p) (CPut demo_key (ExactRevision 2) [8] False) demo_machine) =
      Inr \<lparr>ar_revision = 4, ar_txn_succeeded = None, ar_lease = None, ar_expired_lease_ids = []\<rparr>"
    by (simp add: demo_machine_eval demo_key_def memory_budgets_default_def machine_eval)
qed (simp add: demo_machine_eval u64_max_def)

text \<open>
  C21: a transaction that succeeds has applied every operation of the branch its comparisons select,
  in order and each at the next revision, to the records; the revision it returns is the number of
  operations further. So a transaction of several operations takes several revisions.
\<close>

theorem txn_applies_operations:
  assumes "fst (apply_command H (CTxn t) m) = Inr res"
  shows "tm_records (machine_step H (CTxn t) m) =
       ops_records H (tm_revision m) (txn_ops m t) (tm_records m) \<and>
     (tm_revision m + length (txn_ops m t) \<le> u64_max \<longrightarrow>
       ar_revision res = tm_revision m + length (txn_ops m t))"
  using assms ops_revision [of H "txn_ops m t" m] apply_ops_records [of H "txn_ops m t" m]
  by (auto simp: machine_step_def apply_txn_unfold result_at_def split: prod.splits option.splits)

theorem txn_applies_operations_witness:
  "tm_records (machine_step (\<lambda>p. p) (CTxn demo_txn) demo_machine) = [] \<and>
   txn_ops demo_machine demo_txn \<noteq> []"
proof -
  have "fst (apply_command (\<lambda>p. p) (CTxn demo_txn) demo_machine) =
      Inr \<lparr>ar_revision = 5, ar_txn_succeeded = Some True, ar_lease = None, ar_expired_lease_ids = []\<rparr>"
    by (simp add: demo_machine_eval demo_txn_def demo_key_def memory_budgets_default_def machine_eval
        apply_txn_def comparisons_hold_def)
  from txn_applies_operations [OF this] show ?thesis
    by (simp add: demo_machine_eval demo_txn_def demo_key_def txn_ops_def comparisons_hold_def
        machine_eval)
qed

text \<open>
  C35: expiring leases at an instant that does not run backwards always succeeds, sets the clock,
  reports exactly the leases that are due and removes exactly those.
\<close>

theorem expire_revokes_exactly_due:
  assumes "machine_ok H m" and "tm_now_ms m \<le> now"
  shows "\<exists>res m'. apply_command H (CExpireLeases now) m = (Inr res, m') \<and> tm_now_ms m' = now \<and>
     set (ar_expired_lease_ids res) = {i. \<exists>l. lease_get (tm_leases m) i = Some l \<and> l_expires_at_ms l \<le> now} \<and>
     (\<forall>i. lease_get (tm_leases m') i =
        (if lease_live (tm_leases m) now i then lease_get (tm_leases m) i else None))"
proof -
  obtain q m1 where t: "commit_time now m = (q, m1)" by fastforce
  have q: "q = Inr ()" "tm_now_ms m1 = now" "tm_leases m1 = tm_leases m"
    using t assms(2) by (auto simp: commit_time_def split: if_splits)
  have ok: "lease_ok (tm_leases m)"
    using assms(1) by (simp add: machine_ok_def core_ok_def)
  obtain ids lt where g: "lease_expire_due now (tm_leases m) = (ids, lt)" by fastforce
  have ids: "{i. \<exists>l. lease_get (tm_leases m) i = Some l \<and> l_expires_at_ms l \<le> now} = set ids"
    and lt: "\<forall>i. lease_get lt i = (if lease_live (tm_leases m) now i then lease_get (tm_leases m) i else None)"
    using lease_expire_due_ids [OF ok, of _ now] lease_get_expire_due [OF ok, of now] g by auto
  show ?thesis
    unfolding ids using t q g lt by (cases "ids = []") (simp_all add: Let_def result_at_def)
qed

theorem expire_revokes_exactly_due_witness:
  "\<exists>res m'. apply_command (\<lambda>p. p) (CExpireLeases 20000) demo_machine = (Inr res, m') \<and>
     set (ar_expired_lease_ids res) = {1} \<and> lease_get (tm_leases m') 1 = None"
proof -
  have "tm_now_ms demo_machine \<le> 20000" by (simp add: demo_machine_eval)
  from expire_revokes_exactly_due [OF demo_machine_ok this] obtain res m' where
    r: "apply_command (\<lambda>p. p) (CExpireLeases 20000) demo_machine = (Inr res, m')"
    "set (ar_expired_lease_ids res) =
      {i. \<exists>l. lease_get (tm_leases demo_machine) i = Some l \<and> l_expires_at_ms l \<le> 20000}"
    "lease_get (tm_leases m') 1 =
      (if lease_live (tm_leases demo_machine) 20000 1 then lease_get (tm_leases demo_machine) 1 else None)"
    by blast
  then show ?thesis
    by (auto simp: demo_machine_eval lease_get_def bt_get_def lease_live_def split: if_splits)
qed

text \<open>
  Renewing a lease that has already expired is refused and removes the lease, but neither
  advances the revision nor emits a watch batch: unlike the expiry command, watchers are not told.
\<close>

theorem expired_renewal_is_silent:
  assumes "machine_ok H m" and "lease_get (tm_leases m) i = Some l"
    and "tm_now_ms m \<le> now" and "l_expires_at_ms l \<le> now"
  shows "fst (apply_command H (CLeaseRenew i now) m) = Inl (ALease (LeaseExpired i)) \<and>
     lease_get (tm_leases (machine_step H (CLeaseRenew i now) m)) i = None \<and>
     tm_revision (machine_step H (CLeaseRenew i now) m) = tm_revision m \<and>
     command_log H (CLeaseRenew i now) m = []"
proof -
  obtain q m1 where t: "commit_time now m = (q, m1)" by fastforce
  have q: "q = Inr ()" "tm_now_ms m1 = now" "tm_leases m1 = tm_leases m" "tm_revision m1 = tm_revision m"
    using t assms(3) by (auto simp: commit_time_def split: if_splits)
  have "lease_renew i now (tm_leases m) = (Inl (LeaseExpired i), (tm_leases m)\<lparr>lt_leases := bt_remove i (lt_leases (tm_leases m))\<rparr>)"
    using assms by (simp add: lease_renew_def lease_get_def)
  with t q show ?thesis
    by (simp add: machine_step_def command_log_def command_changes_def lease_get_def bt_simps)
qed

theorem expired_renewal_is_silent_witness:
  "lease_get (tm_leases (machine_step (\<lambda>p. p) (CLeaseRenew 1 20000) demo_machine)) 1 = None"
proof -
  have "lease_get (tm_leases demo_machine) 1 =
      Some \<lparr>l_id = 1, l_purpose = MemberLiveness, l_ttl_ms = 15000, l_expires_at_ms = 15006\<rparr>"
    by (simp add: demo_machine_eval lease_get_def bt_get_def)
  from expired_renewal_is_silent [OF demo_machine_ok this, of 20000] show ?thesis
    by (simp add: demo_machine_eval)
qed

text \<open>
  C36: after every run of commands the history holds no more batches and no more bytes than its limits,
  and no batch older than the maximal age at the last committed instant.
\<close>

theorem watch_history_bounded:
  assumes "limits_ok b"
  shows "watch_bounded (fold (machine_step H) cs (machine_new b))"
  using retention.inv_run [of H "machine_new b" cs] by (simp add: machine_new_ok [OF assms])

theorem watch_history_bounded_witness: "watch_bounded demo_machine"
  using watch_history_bounded [of memory_budgets_default "\<lambda>p. p" demo_cmds]
  by (simp add: demo_machine_def machine_default_def limits_ok_def memory_budgets_default_def u64_max_def)

text \<open>
  The textual path of a record key, under which watchers and budgets see it, identifies the key.
\<close>

theorem record_key_display_inj:
  assumes "record_key_display k = record_key_display l"
  shows "k = l"
proof -
  let ?tail = "\<lambda>s. if s = [] then [] else CHR ''/'' # s"
  have "record_key_display k = prefix_as_str (key_prefix k) @ ?tail (key_suffix k)" for k
    by (simp add: record_key_display_def)
  with assms have "key_prefix k = key_prefix l \<and> ?tail (key_suffix k) = ?tail (key_suffix l)"
    by (intro prefix_as_str_path_inj) auto
  then show ?thesis
    by (intro record_key.expand) (auto split: if_splits)
qed

theorem record_key_display_inj_witness:
  "record_key_display demo_key = ''/names/a'' \<and> RecordKey Names ''a'' = demo_key"
  using record_key_display_inj [of "RecordKey Names ''a''" demo_key]
  by (simp add: demo_key_def record_key_display_def)

text \<open>
  No command and no run of commands moves the committed revision or the committed instant
  backwards.
\<close>

theorem committed_order:
  assumes "machine_ok H m"
  shows "tm_revision m \<le> tm_revision (fold (machine_step H) cs m) \<and>
     tm_now_ms m \<le> tm_now_ms (fold (machine_step H) cs m)"
  using records.clock_run [OF assms] records_clock.clock_run [OF assms] by simp

theorem committed_order_witness:
  "tm_now_ms demo_machine \<le> tm_now_ms (fold (machine_step (\<lambda>p. p)) [CAdvanceTime 3] demo_machine)"
  using committed_order [OF demo_machine_ok, of "[CAdvanceTime 3]"] by simp

end
