(* ===== verification/Controller_Authority.thy ===== *)
theory Controller_Authority
  imports Lease_Table
begin

text \<open>
  Fencing of controllers: the fence tokens of \<open>gump-memory/src/authority/fence.rs\<close>, the
  cluster-side authority record that issues and validates them (\<open>controller.rs\<close>), and the memory
  of accepted fences that every agent keeps (\<open>agent.rs\<close>). The locale \<open>epoch_guard\<close> is what both
  promise: an epoch bar that only rises, below which nothing is admitted.
\<close>

section \<open>Fence tokens\<close>

record fence_token =
  ft_epoch :: u64
  ft_fence :: bytes
  ft_lease_id :: u64

definition le_bytes64 :: "u64 \<Rightarrow> bytes" where
  "le_bytes64 n = map (\<lambda>i. word_of_nat (n div 256 ^ i mod 256)) [0..<8]"

definition derive_fence :: "(bytes \<Rightarrow> bytes) \<Rightarrow> u64 \<Rightarrow> u64 \<Rightarrow> u64 \<Rightarrow> bytes" where
  "derive_fence H epoch holder nonce =
     take 16 (H (le_bytes64 epoch @ le_bytes64 holder @ le_bytes64 nonce))"

datatype effect_reject =
    StaleEpoch u64 u64
  | FenceMismatch u64
  | ExpiredOrUnverifiable u64
  | NoAuthority

fun effect_reject_display :: "effect_reject \<Rightarrow> string" where
  "effect_reject_display (StaleEpoch current presented) =
     ''stale controller epoch '' @ show_nat presented @ '' < current '' @ show_nat current"
| "effect_reject_display (FenceMismatch epoch) =
     ''fence mismatch at epoch '' @ show_nat epoch @ '' (protocol violation)''"
| "effect_reject_display (ExpiredOrUnverifiable i) =
     ''fence lease '' @ show_nat i @ '' expired or unverifiable''"
| "effect_reject_display NoAuthority = ''no controller authority''"

section \<open>Controller authority\<close>

record effect_command =
  ec_token :: fence_token
  ec_declaration_generation :: u64
  ec_object_revision :: u64
  ec_op_id :: u64

datatype controller_error = CReject effect_reject

fun controller_error_display :: "controller_error \<Rightarrow> string" where
  "controller_error_display (CReject e) = effect_reject_display e"

record controller_authority =
  ca_current :: "fence_token option"
  ca_holder :: "u64 option"
  ca_acquire_nonce :: u64

definition controller_authority_default :: controller_authority where
  "controller_authority_default = \<lparr>ca_current = None, ca_holder = None, ca_acquire_nonce = 0\<rparr>"

definition ca_epoch :: "controller_authority \<Rightarrow> u64" where
  "ca_epoch a = (case ca_current a of None \<Rightarrow> 0 | Some t \<Rightarrow> ft_epoch t)"

definition ca_acquire ::
  "(bytes \<Rightarrow> bytes) \<Rightarrow> u64 \<Rightarrow> u64 \<Rightarrow> controller_authority \<Rightarrow> lease_table \<Rightarrow>
    fence_token \<times> controller_authority \<times> lease_table" where
  "ca_acquire H holder now a leases =
     (let nonce = sat_add64 (ca_acquire_nonce a) 1;
          epoch = sat_add64 (ca_epoch a) 1;
          fence = derive_fence H epoch holder nonce;
          (l, leases') = lease_grant ControllerAuthorityLease now leases;
          token = \<lparr>ft_epoch = epoch, ft_fence = fence, ft_lease_id = l_id l\<rparr>
      in (token, a\<lparr>ca_acquire_nonce := nonce, ca_current := Some token, ca_holder := Some holder\<rparr>,
          leases'))"

definition validate_effect ::
  "controller_authority \<Rightarrow> effect_command \<Rightarrow> u64 \<Rightarrow> lease_table \<Rightarrow> controller_error + unit" where
  "validate_effect a cmd now leases =
     (case ca_current a of
        None \<Rightarrow> Inl (CReject NoAuthority)
      | Some current \<Rightarrow>
          if ft_epoch (ec_token cmd) < ft_epoch current
          then Inl (CReject (StaleEpoch (ft_epoch current) (ft_epoch (ec_token cmd))))
          else if ft_epoch (ec_token cmd) > ft_epoch current
          then Inl (CReject (StaleEpoch (ft_epoch current) (ft_epoch (ec_token cmd))))
          else if ft_fence (ec_token cmd) \<noteq> ft_fence current
                \<or> ft_lease_id (ec_token cmd) \<noteq> ft_lease_id current
          then Inl (CReject (FenceMismatch (ft_epoch current)))
          else (case lease_get leases (ft_lease_id (ec_token cmd)) of
                  Some l \<Rightarrow>
                    if l_expires_at_ms l > now then Inr ()
                    else Inl (CReject (ExpiredOrUnverifiable (ft_lease_id (ec_token cmd))))
                | None \<Rightarrow> Inl (CReject (ExpiredOrUnverifiable (ft_lease_id (ec_token cmd))))))"

definition accept_effect ::
  "controller_authority \<Rightarrow> effect_command \<Rightarrow> u64 \<Rightarrow> lease_table \<Rightarrow> controller_error + u64" where
  "accept_effect a cmd now leases =
     (case validate_effect a cmd now leases of Inl e \<Rightarrow> Inl e | Inr _ \<Rightarrow> Inr (ec_op_id cmd))"

section \<open>Agent fence memory\<close>

datatype agent_fence_error = AReject effect_reject | ProtocolViolation u64

fun agent_fence_error_display :: "agent_fence_error \<Rightarrow> string" where
  "agent_fence_error_display (AReject e) = effect_reject_display e"
| "agent_fence_error_display (ProtocolViolation epoch) =
     ''protocol violation: conflicting fence at epoch '' @ show_nat epoch"

record agent_fence_memory =
  af_accepted :: "fence_token option"
  af_max_epoch :: u64

definition agent_fence_memory_default :: agent_fence_memory where
  "agent_fence_memory_default = \<lparr>af_accepted = None, af_max_epoch = 0\<rparr>"

definition agent_accept ::
  "fence_token \<Rightarrow> agent_fence_memory \<Rightarrow> (agent_fence_error + unit) \<times> agent_fence_memory" where
  "agent_accept token s =
     (if ft_epoch token < af_max_epoch s
      then (Inl (AReject (StaleEpoch (af_max_epoch s) (ft_epoch token))), s)
      else if ft_epoch token = af_max_epoch s
            \<and> (case af_accepted s of None \<Rightarrow> False | Some prev \<Rightarrow> ft_fence prev \<noteq> ft_fence token)
      then (Inl (ProtocolViolation (ft_epoch token)), s)
      else (Inr (), s\<lparr>af_max_epoch := max (af_max_epoch s) (ft_epoch token),
                      af_accepted := Some token\<rparr>))"

definition authorize_effect :: "agent_fence_memory \<Rightarrow> fence_token \<Rightarrow> agent_fence_error + unit" where
  "authorize_effect s token =
     (if ft_epoch token < af_max_epoch s
      then Inl (AReject (StaleEpoch (af_max_epoch s) (ft_epoch token)))
      else case af_accepted s of
             None \<Rightarrow> Inl (AReject NoAuthority)
           | Some accepted \<Rightarrow>
               if ft_epoch token \<noteq> ft_epoch accepted
               then Inl (AReject (StaleEpoch (ft_epoch accepted) (ft_epoch token)))
               else if ft_fence token \<noteq> ft_fence accepted
               then Inl (ProtocolViolation (ft_epoch token))
               else Inr ())"

section \<open>Steps\<close>

text \<open>
  The cluster's authority record lives beside the lease table. Between two effects any server may
  acquire the controller role, and any lease may be granted, renewed, revoked or expired. An agent
  only ever accepts tokens, and refuses some of them.
\<close>

inductive authority_step ::
  "(bytes \<Rightarrow> bytes) \<Rightarrow> controller_authority \<times> lease_table \<Rightarrow> controller_authority \<times> lease_table \<Rightarrow> bool"
  for H where
  acquire: "ca_acquire H holder now a t = (token, a', t') \<Longrightarrow> authority_step H (a, t) (a', t')"
| grant: "authority_step H (a, t) (a, snd (lease_grant p now t))"
| renew: "authority_step H (a, t) (a, snd (lease_renew i now t))"
| revoke: "authority_step H (a, t) (a, snd (lease_revoke i t))"
| expire: "authority_step H (a, t) (a, snd (lease_expire_due now t))"

inductive agent_step :: "agent_fence_memory \<Rightarrow> agent_fence_memory \<Rightarrow> bool" where
  "agent_step s (snd (agent_accept token s))"

inductive_cases authority_stepE: "authority_step H s s'"
inductive_cases agent_stepE: "agent_step s s'"

definition authority_admits :: "controller_authority \<times> lease_table \<Rightarrow> fence_token \<Rightarrow> bool" where
  "authority_admits s token \<longleftrightarrow>
     (\<exists>cmd now. ec_token cmd = token \<and> validate_effect (fst s) cmd now (snd s) = Inr ())"

definition agent_admits :: "agent_fence_memory \<Rightarrow> fence_token \<Rightarrow> bool" where
  "agent_admits s token \<longleftrightarrow> authorize_effect s token = Inr ()"

definition agent_ok :: "agent_fence_memory \<Rightarrow> bool" where
  "agent_ok s \<longleftrightarrow> (\<forall>token. af_accepted s = Some token \<longrightarrow> ft_epoch token = af_max_epoch s)"

section \<open>The epoch guard\<close>

text \<open>
  An epoch guard never lowers its bar, and admits only tokens whose epoch is the bar and whose
  identity is the one it holds for that epoch; while the bar stays, so does that identity.
\<close>

locale epoch_guard =
  fixes step :: "'s \<Rightarrow> 's \<Rightarrow> bool"
    and ok :: "'s \<Rightarrow> bool"
    and bar :: "'s \<Rightarrow> nat"
    and admits :: "'s \<Rightarrow> 't \<Rightarrow> bool"
    and epoch_of :: "'t \<Rightarrow> nat"
    and identity :: "'t \<Rightarrow> 'i"
    and held :: "'s \<Rightarrow> 'i option"
  assumes ok_step: "ok s \<Longrightarrow> step s s' \<Longrightarrow> ok s'"
    and bar_step: "ok s \<Longrightarrow> step s s' \<Longrightarrow> bar s \<le> bar s'"
    and held_step: "ok s \<Longrightarrow> step s s' \<Longrightarrow> bar s' = bar s \<Longrightarrow> held s = Some i \<Longrightarrow> held s' = Some i"
    and admitted: "ok s \<Longrightarrow> admits s t \<Longrightarrow> epoch_of t = bar s \<and> held s = Some (identity t)"
begin

lemma run_ok: "step\<^sup>*\<^sup>* s s' \<Longrightarrow> ok s \<Longrightarrow> ok s'"
  by (induction rule: rtranclp_induct) (auto intro: ok_step)

lemma run_bar: "step\<^sup>*\<^sup>* s s' \<Longrightarrow> ok s \<Longrightarrow> bar s \<le> bar s'"
  by (induction rule: rtranclp_induct) (auto intro: order_trans bar_step run_ok)

lemma run_held:
  "step\<^sup>*\<^sup>* s s' \<Longrightarrow> ok s \<Longrightarrow> bar s' = bar s \<Longrightarrow> held s = Some i \<Longrightarrow> held s' = Some i"
proof (induction rule: rtranclp_induct)
  case (step s1 s2)
  then have s1: "bar s \<le> bar s1" "ok s1" by (auto intro: run_bar run_ok)
  have "bar s1 \<le> bar s2" using bar_step [OF s1(2) step.hyps(2)] .
  with s1 step show ?case by (auto intro: held_step)
qed simp

lemma fenced_forever: "step\<^sup>*\<^sup>* s s' \<Longrightarrow> ok s \<Longrightarrow> epoch_of t < bar s \<Longrightarrow> \<not> admits s' t"
  using admitted [of s' t] run_bar [of s s'] run_ok [of s s'] by auto

lemma admitted_in_order:
  assumes "step\<^sup>*\<^sup>* s s'" "ok s" "admits s t" "admits s' t'"
  shows "epoch_of t \<le> epoch_of t' \<and> (epoch_of t = epoch_of t' \<longrightarrow> identity t = identity t')"
proof -
  have "ok s'" using assms by (auto intro: run_ok)
  then have "epoch_of t = bar s" "held s = Some (identity t)"
    "epoch_of t' = bar s'" "held s' = Some (identity t')"
    using assms admitted by blast+
  then show ?thesis
    using run_bar [OF assms(1,2)] run_held [OF assms(1,2)] by auto
qed

end

lemma ca_acquire_simps:
  assumes "ca_acquire H holder now a t = (token, a', t')"
  shows "ft_epoch token = sat_add64 (ca_epoch a) 1"
    "ca_current a' = Some token" "ca_holder a' = Some holder"
    "t' = snd (lease_grant ControllerAuthorityLease now t)"
    "ft_lease_id token = l_id (fst (lease_grant ControllerAuthorityLease now t))"
    "ft_fence token = derive_fence H (sat_add64 (ca_epoch a) 1) holder (sat_add64 (ca_acquire_nonce a) 1)"
  using assms by (auto simp: ca_acquire_def Let_def split: prod.splits)

lemma ca_acquire_epoch:
  "ca_acquire H holder now a t = (token, a', t') \<Longrightarrow> ca_epoch a' = sat_add64 (ca_epoch a) 1"
  using ca_acquire_simps(1,2) [of H holder now a t token a' t'] by (simp add: ca_epoch_def)

lemma validate_effect_Inr:
  "validate_effect a cmd now t = Inr () \<longleftrightarrow>
     ca_current a \<noteq> None \<and> ft_epoch (ec_token cmd) = ca_epoch a \<and>
     map_option ft_fence (ca_current a) = Some (ft_fence (ec_token cmd)) \<and>
     map_option ft_lease_id (ca_current a) = Some (ft_lease_id (ec_token cmd)) \<and>
     lease_live t now (ft_lease_id (ec_token cmd))"
  by (auto simp: validate_effect_def ca_epoch_def lease_live_def split: option.splits)

lemma authority_admitted:
  "authority_admits s token \<Longrightarrow> ft_epoch token = ca_epoch (fst s) \<and> ca_current (fst s) = Some token"
  by (auto simp: authority_admits_def validate_effect_Inr ca_epoch_def)

text \<open>
  The epoch saturates at the largest \<open>u64\<close>, where two acquisitions would share it; the guard
  holds below.
\<close>

interpretation controller: epoch_guard
  "\<lambda>s s'. authority_step H s s' \<and> ca_epoch (fst s) < u64_max" "\<lambda>s. True"
  "\<lambda>s. ca_epoch (fst s)" authority_admits ft_epoch "\<lambda>t. t" "\<lambda>s. ca_current (fst s)"
  for H :: "bytes \<Rightarrow> bytes"
proof unfold_locales
  fix s s' :: "controller_authority \<times> lease_table"
  assume s: "authority_step H s s' \<and> ca_epoch (fst s) < u64_max"
  then show "ca_epoch (fst s) \<le> ca_epoch (fst s')"
    by (auto elim!: authority_stepE dest!: ca_acquire_epoch simp: sat_simps)
  show "ca_current (fst s') = Some i"
    if "ca_epoch (fst s') = ca_epoch (fst s)" "ca_current (fst s) = Some i" for i
    using s that
    by (auto elim!: authority_stepE dest!: ca_acquire_epoch simp: sat_simps)
qed (auto dest: authority_admitted)

lemma authority_step_below:
  "authority_step H s s' \<Longrightarrow> ca_epoch (fst s') < u64_max \<Longrightarrow> ca_epoch (fst s) < u64_max"
  by (auto elim!: authority_stepE dest!: ca_acquire_epoch simp: sat_add64_def)

lemma authority_run_below:
  "(authority_step H)\<^sup>*\<^sup>* s s' \<Longrightarrow> ca_epoch (fst s') < u64_max \<Longrightarrow>
     (\<lambda>s s'. authority_step H s s' \<and> ca_epoch (fst s) < u64_max)\<^sup>*\<^sup>* s s'"
proof (induction rule: rtranclp_induct)
  case (step s1 s2)
  then have "ca_epoch (fst s1) < u64_max" by (auto intro: authority_step_below)
  with step show ?case by (auto intro: rtranclp.rtrancl_into_rtrancl)
qed simp

lemma agent_accept_ok: "agent_ok s \<Longrightarrow> agent_ok (snd (agent_accept token s))"
  by (auto simp: agent_ok_def agent_accept_def)

lemma authorize_effect_Inr:
  "agent_ok s \<Longrightarrow> authorize_effect s token = Inr () \<longleftrightarrow>
     ft_epoch token = af_max_epoch s \<and> map_option ft_fence (af_accepted s) = Some (ft_fence token)"
  by (auto simp: authorize_effect_def agent_ok_def split: option.splits)

interpretation agent: epoch_guard
  agent_step agent_ok af_max_epoch agent_admits ft_epoch ft_fence "\<lambda>s. map_option ft_fence (af_accepted s)"
proof unfold_locales
  fix s s' :: agent_fence_memory
  assume s: "agent_ok s" "agent_step s s'"
  then obtain token where t: "s' = snd (agent_accept token s)" by (auto elim: agent_stepE)
  show "agent_ok s'" "af_max_epoch s \<le> af_max_epoch s'"
    using s t by (simp_all add: agent_accept_ok) (simp add: agent_accept_def)
  show "map_option ft_fence (af_accepted s') = Some i"
    if "af_max_epoch s' = af_max_epoch s" "map_option ft_fence (af_accepted s) = Some i" for i
    using s(1) t that by (auto simp: agent_accept_def agent_ok_def split: if_splits)
qed (simp add: agent_admits_def authorize_effect_Inr)

section \<open>Properties\<close>

definition demo_acquire :: "controller_authority \<times> lease_table" where
  "demo_acquire = snd (ca_acquire (\<lambda>p. p) 7 1000 controller_authority_default lease_table_default)"

definition demo_token :: fence_token where
  "demo_token = fst (ca_acquire (\<lambda>p. p) 7 1000 controller_authority_default lease_table_default)"

definition demo_effect :: "fence_token \<Rightarrow> effect_command" where
  "demo_effect token =
     \<lparr>ec_token = token, ec_declaration_generation = 1, ec_object_revision = 1, ec_op_id = 5\<rparr>"

lemma demo_acquired:
  "ca_acquire (\<lambda>p. p) 7 1000 controller_authority_default lease_table_default =
     (demo_token, fst demo_acquire, snd demo_acquire)"
  by (simp add: demo_token_def demo_acquire_def)

lemma demo_epoch [simp]: "ft_epoch demo_token = 1"
  using ca_acquire_simps(1) [OF demo_acquired]
  by (simp add: controller_authority_default_def ca_epoch_def sat_add64_def u64_max_def)

lemma demo_authority:
  "authority_admits demo_acquire demo_token" "ca_epoch (fst demo_acquire) < u64_max"
proof -
  have "validate_effect (fst demo_acquire) (demo_effect demo_token) 1000 (snd demo_acquire) = Inr ()"
    using ca_acquire_simps [OF demo_acquired]
    by (simp add: validate_effect_Inr demo_effect_def ca_epoch_def lease_live_def lease_get_grant
        lease_grant_fields sat_add64_def u64_max_def)
  then show "authority_admits demo_acquire demo_token"
    unfolding authority_admits_def by (metis demo_effect_def effect_command.select_convs(1))
  show "ca_epoch (fst demo_acquire) < u64_max"
    using ca_acquire_simps(2) [OF demo_acquired] by (simp add: ca_epoch_def u64_max_def)
qed

text \<open>
  C3: effects the cluster admits are ordered by controller epoch, with one token for each epoch: in
  any interleaving of acquisitions and lease operations, a token admitted later has an epoch no
  smaller, and the same epoch only if it is the very same token. So a controller that was replaced
  never has an effect admitted again, whatever its lease.
\<close>

theorem controller_effects_ordered:
  assumes "(authority_step H)\<^sup>*\<^sup>* (a, t) (a', t')" and "ca_epoch a' < u64_max"
    and "validate_effect a cmd now t = Inr ()" and "validate_effect a' cmd' now' t' = Inr ()"
  shows "ft_epoch (ec_token cmd) \<le> ft_epoch (ec_token cmd') \<and>
    (ft_epoch (ec_token cmd) = ft_epoch (ec_token cmd') \<longrightarrow> ec_token cmd = ec_token cmd')"
  using assms authority_run_below [OF assms(1)]
  by (intro controller.admitted_in_order [where s = "(a, t)" and s' = "(a', t')"])
    (auto simp: authority_admits_def)

theorem controller_effects_ordered_witness:
  "\<exists>cmd now. ec_token cmd = demo_token \<and>
     validate_effect (fst demo_acquire) cmd now (snd demo_acquire) = Inr () \<and>
     (ft_epoch demo_token = ft_epoch (ec_token cmd) \<longrightarrow> demo_token = ec_token cmd)"
proof -
  obtain cmd now where c: "ec_token cmd = demo_token"
    "validate_effect (fst demo_acquire) cmd now (snd demo_acquire) = Inr ()"
    using demo_authority(1) by (auto simp: authority_admits_def)
  from controller_effects_ordered [OF rtranclp.rtrancl_refl demo_authority(2) c(2) c(2)] c show ?thesis
    by auto
qed

text \<open>
  An acquisition takes over at once: exactly the new token is admitted, until its lease runs
  out, and every other token gets the error its epoch and fence call for.
\<close>

theorem acquire_takes_over:
  assumes "ca_acquire H holder now a t = (token, a', t')"
  shows "accept_effect a' cmd now' t' =
    (if ft_epoch (ec_token cmd) \<noteq> sat_add64 (ca_epoch a) 1
     then Inl (CReject (StaleEpoch (sat_add64 (ca_epoch a) 1) (ft_epoch (ec_token cmd))))
     else if ec_token cmd \<noteq> token then Inl (CReject (FenceMismatch (sat_add64 (ca_epoch a) 1)))
     else if now' < sat_add64 now (ttl_ms ControllerAuthorityLease) then Inr (ec_op_id cmd)
     else Inl (CReject (ExpiredOrUnverifiable (ft_lease_id token))))"
  using ca_acquire_simps [OF assms]
  by (auto simp: accept_effect_def validate_effect_def lease_get_grant lease_grant_fields)

theorem acquire_takes_over_witness:
  "accept_effect (fst demo_acquire) (demo_effect demo_token) 2000 (snd demo_acquire) = Inr 5"
  using acquire_takes_over [OF demo_acquired, of "demo_effect demo_token" 2000]
  by (simp add: demo_effect_def sat_add64_def u64_max_def controller_authority_default_def ca_epoch_def)

text \<open>
  C18: the same order holds at each agent, whatever tokens reach it and in whatever order: once a
  token has been let act, a token with a smaller epoch is refused as stale ever after, and under the
  same epoch no other fence is let act.
\<close>

theorem agent_effects_ordered:
  assumes "agent_step\<^sup>*\<^sup>* agent_fence_memory_default s" and "agent_step\<^sup>*\<^sup>* s s'"
    and "authorize_effect s token = Inr ()"
  shows "(ft_epoch token' < ft_epoch token \<longrightarrow>
      authorize_effect s' token' = Inl (AReject (StaleEpoch (af_max_epoch s') (ft_epoch token')))) \<and>
    (authorize_effect s' token' = Inr () \<longrightarrow> ft_epoch token = ft_epoch token' \<longrightarrow>
      ft_fence token = ft_fence token')"
proof -
  have "agent_ok agent_fence_memory_default"
    by (simp add: agent_ok_def agent_fence_memory_default_def)
  then have ok: "agent_ok s" using assms(1) agent.run_ok by blast
  have "ft_epoch token \<le> af_max_epoch s'"
    using agent.run_bar [OF assms(2) ok] ok assms(3) by (simp add: authorize_effect_Inr)
  with agent.admitted_in_order [OF assms(2) ok, of token token'] assms(3) show ?thesis
    by (auto simp: agent_admits_def authorize_effect_def)
qed

theorem agent_effects_ordered_witness:
  "authorize_effect (snd (agent_accept demo_token agent_fence_memory_default)) (demo_token\<lparr>ft_epoch := 0\<rparr>) =
     Inl (AReject (StaleEpoch 1 0))"
proof -
  let ?s = "snd (agent_accept demo_token agent_fence_memory_default)"
  have r: "agent_step\<^sup>*\<^sup>* agent_fence_memory_default ?s" by (blast intro: agent_step.intros)
  have "authorize_effect ?s demo_token = Inr ()"
    by (simp add: agent_accept_def agent_fence_memory_default_def authorize_effect_def)
  from agent_effects_ordered [OF r rtranclp.rtrancl_refl this, of "demo_token\<lparr>ft_epoch := 0\<rparr>"] show ?thesis
    by (simp add: agent_accept_def agent_fence_memory_default_def)
qed

end
