(* ===== verification/Cluster_Membership.thy ===== *)
theory Cluster_Membership
  imports Gump_Prelude
begin

text \<open>
  Voter sets, joint configurations and the life cycle of cluster members:
  \<open>gump-memory/src/quorum.rs\<close> and \<open>gump-memory/src/membership/\<close>. A \<open>BTreeSet\<close> of member ids is a
  set; the snapshot digest is the parameter \<open>H\<close>. Runs of the life cycle are the inductive
  \<open>membership_run\<close>, which records the emitted events.
\<close>

section \<open>Quorums\<close>

datatype quorum_error = NoVoters | AvailableExceedsVoters u32 u32

definition majority :: "u32 \<Rightarrow> quorum_error + u32" where
  "majority voters = (if voters = 0 then Inl NoVoters else Inr (voters div 2 + 1))"

definition can_commit :: "u32 \<Rightarrow> u32 \<Rightarrow> quorum_error + bool" where
  "can_commit voters available =
     (if available > voters then Inl (AvailableExceedsVoters available voters)
      else case majority voters of Inl e \<Rightarrow> Inl e | Inr n \<Rightarrow> Inr (available \<ge> n))"

fun quorum_error_display :: "quorum_error \<Rightarrow> string" where
  "quorum_error_display NoVoters = ''voter set is empty''"
| "quorum_error_display (AvailableExceedsVoters available voters) =
     ''available '' @ show_nat available @ '' exceeds voters '' @ show_nat voters"

section \<open>Joint configurations\<close>

type_synonym member_id = u64

record joint_config =
  jc_old_voters :: "member_id set"
  jc_new_voters :: "member_id set"

datatype joint_error = JQuorum quorum_error | EmptyOld | EmptyNew

fun joint_error_display :: "joint_error \<Rightarrow> string" where
  "joint_error_display (JQuorum e) = quorum_error_display e"
| "joint_error_display EmptyOld = ''joint old voter set is empty''"
| "joint_error_display EmptyNew = ''joint new voter set is empty''"

definition joint_config_new :: "member_id set \<Rightarrow> member_id set \<Rightarrow> joint_error + joint_config" where
  "joint_config_new old_voters new_voters =
     (if old_voters = {} then Inl EmptyOld
      else if new_voters = {} then Inl EmptyNew
      else Inr \<lparr>jc_old_voters = old_voters, jc_new_voters = new_voters\<rparr>)"

definition joint_intersection :: "joint_config \<Rightarrow> member_id set" where
  "joint_intersection j = jc_old_voters j \<inter> jc_new_voters j"

definition as_u32 :: "nat \<Rightarrow> u32" where
  "as_u32 n = n mod 2 ^ 32"

definition can_commit_joint :: "joint_config \<Rightarrow> member_id set \<Rightarrow> joint_error + bool" where
  "can_commit_joint joint available =
     (let old_n = as_u32 (card (jc_old_voters joint));
          new_n = as_u32 (card (jc_new_voters joint));
          old_avail = as_u32 (card (jc_old_voters joint \<inter> available));
          new_avail = as_u32 (card (jc_new_voters joint \<inter> available))
      in case can_commit old_n old_avail of
           Inl e \<Rightarrow> Inl (JQuorum e)
         | Inr False \<Rightarrow> Inr False
         | Inr True \<Rightarrow>
             (case can_commit new_n new_avail of Inl e \<Rightarrow> Inl (JQuorum e) | Inr b \<Rightarrow> Inr b))"

section \<open>Snapshot offers\<close>

record snapshot_offer =
  so_committed_index :: u64
  so_digest :: bytes
  so_bytes :: bytes

datatype snapshot_transfer_error = DigestMismatch bytes bytes | IndexMismatch u64 u64

fun snapshot_transfer_error_display :: "snapshot_transfer_error \<Rightarrow> string" where
  "snapshot_transfer_error_display (DigestMismatch x y) = ''snapshot digest mismatch''"
| "snapshot_transfer_error_display (IndexMismatch x y) =
     ''snapshot index mismatch: expected '' @ show_nat x @ '', got '' @ show_nat y"

definition snapshot_from_bytes :: "(bytes \<Rightarrow> bytes) \<Rightarrow> u64 \<Rightarrow> bytes \<Rightarrow> snapshot_offer" where
  "snapshot_from_bytes H i bs = \<lparr>so_committed_index = i, so_digest = H bs, so_bytes = bs\<rparr>"

definition snapshot_verify ::
  "(bytes \<Rightarrow> bytes) \<Rightarrow> snapshot_offer \<Rightarrow> u64 \<Rightarrow> bytes \<Rightarrow> snapshot_transfer_error + unit" where
  "snapshot_verify H offer expected_index expected_digest =
     (let actual = H (so_bytes offer) in
      if actual \<noteq> so_digest offer \<or> actual \<noteq> expected_digest
      then Inl (DigestMismatch expected_digest actual)
      else if so_committed_index offer \<noteq> expected_index
      then Inl (IndexMismatch expected_index (so_committed_index offer))
      else Inr ())"

section \<open>Members\<close>

datatype member_phase = Transferring | Learner | Voter | Draining

record member_record =
  mr_id :: member_id
  mr_phase :: member_phase

fun member_phase_debug :: "member_phase \<Rightarrow> string" where
  "member_phase_debug Transferring = ''Transferring''"
| "member_phase_debug Learner = ''Learner''"
| "member_phase_debug Voter = ''Voter''"
| "member_phase_debug Draining = ''Draining''"

datatype membership_error =
    AlreadyInitialized
  | NotInitialized
  | MemberExists member_id
  | UnknownMember member_id
  | BadPhase member_id member_phase string
  | JointInProgress
  | NoJoint
  | MSnapshot snapshot_transfer_error
  | MJoint joint_error
  | JointQuorumNotMet
  | NotAVoter member_id
  | LastVoter

fun membership_error_display :: "membership_error \<Rightarrow> string" where
  "membership_error_display AlreadyInitialized = ''cluster already initialized''"
| "membership_error_display NotInitialized = ''cluster not initialized''"
| "membership_error_display (MemberExists i) = ''member '' @ show_nat i @ '' already exists''"
| "membership_error_display (UnknownMember i) = ''unknown member '' @ show_nat i"
| "membership_error_display (BadPhase i phase needed) =
     ''member '' @ show_nat i @ '' in phase '' @ member_phase_debug phase @ ''; needed '' @ needed"
| "membership_error_display JointInProgress = ''joint membership change already in progress''"
| "membership_error_display NoJoint = ''no joint membership change in progress''"
| "membership_error_display (MSnapshot e) = snapshot_transfer_error_display e"
| "membership_error_display (MJoint e) = joint_error_display e"
| "membership_error_display JointQuorumNotMet =
     ''joint commit requires majority of old and new voter sets''"
| "membership_error_display (NotAVoter i) = ''member '' @ show_nat i @ '' is not a voter''"
| "membership_error_display LastVoter = ''cannot drain/remove the last voter''"

datatype membership_event =
    Initialized member_id u64
  | JoinStarted member_id
  | TransferCompleted member_id u64
  | TransferAborted member_id
  | JointEntered joint_config
  | JointCommitted "member_id set"
  | Removed member_id

record membership_cluster =
  mc_incarnation :: "u64 option"
  mc_members :: "(member_id, member_record) btree"
  mc_voters :: "member_id set"
  mc_learners :: "member_id set"
  mc_joint :: "joint_config option"
  mc_transfer_index :: "(member_id, u64) btree"
  mc_transfer_digest :: "(member_id, bytes) btree"

type_synonym membership_result = "(membership_error + membership_event) \<times> membership_cluster"

definition membership_cluster_default :: membership_cluster where
  "membership_cluster_default =
     \<lparr>mc_incarnation = None, mc_members = [], mc_voters = {}, mc_learners = {}, mc_joint = None,
      mc_transfer_index = [], mc_transfer_digest = []\<rparr>"

definition can_vote :: "membership_cluster \<Rightarrow> member_id \<Rightarrow> bool" where
  "can_vote s i \<longleftrightarrow>
     map_option mr_phase (bt_get (mc_members s) i) \<in> {Some Voter, Some Draining} \<and> i \<in> mc_voters s"

definition require_init :: "membership_cluster \<Rightarrow> membership_error + unit" where
  "require_init s = (if mc_incarnation s = None then Inl NotInitialized else Inr ())"

definition membership_init :: "member_id \<Rightarrow> u64 \<Rightarrow> membership_cluster \<Rightarrow> membership_result" where
  "membership_init seed incarnation s =
     (if mc_incarnation s \<noteq> None then (Inl AlreadyInitialized, s)
      else (Inr (Initialized seed incarnation),
            s\<lparr>mc_incarnation := Some incarnation,
              mc_members := bt_insert seed \<lparr>mr_id = seed, mr_phase = Voter\<rparr> (mc_members s),
              mc_voters := insert seed (mc_voters s)\<rparr>))"

definition begin_join :: "member_id \<Rightarrow> u64 \<Rightarrow> bytes \<Rightarrow> membership_cluster \<Rightarrow> membership_result" where
  "begin_join i expected_index expected_digest s =
     (case require_init s of
        Inl e \<Rightarrow> (Inl e, s)
      | Inr _ \<Rightarrow>
          if bt_has (mc_members s) i then (Inl (MemberExists i), s)
          else if mc_joint s \<noteq> None then (Inl JointInProgress, s)
          else (Inr (JoinStarted i),
                s\<lparr>mc_members := bt_insert i \<lparr>mr_id = i, mr_phase = Transferring\<rparr> (mc_members s),
                  mc_learners := insert i (mc_learners s),
                  mc_transfer_index := bt_insert i expected_index (mc_transfer_index s),
                  mc_transfer_digest := bt_insert i expected_digest (mc_transfer_digest s)\<rparr>))"

definition complete_transfer ::
  "(bytes \<Rightarrow> bytes) \<Rightarrow> member_id \<Rightarrow> snapshot_offer \<Rightarrow> membership_cluster \<Rightarrow> membership_result" where
  "complete_transfer H i offer s =
     (case require_init s of
        Inl e \<Rightarrow> (Inl e, s)
      | Inr _ \<Rightarrow>
        (case bt_get (mc_members s) i of
           None \<Rightarrow> (Inl (UnknownMember i), s)
         | Some rec \<Rightarrow>
             if mr_phase rec \<noteq> Transferring
             then (Inl (BadPhase i (mr_phase rec) ''Transferring''), s)
             else (case (bt_get (mc_transfer_index s) i, bt_get (mc_transfer_digest s) i) of
                     (Some expected_index, Some expected_digest) \<Rightarrow>
                       (case snapshot_verify H offer expected_index expected_digest of
                          Inl e \<Rightarrow> (Inl (MSnapshot e), s)
                        | Inr _ \<Rightarrow>
                            (Inr (TransferCompleted i (so_committed_index offer)),
                             s\<lparr>mc_members := bt_insert i (rec\<lparr>mr_phase := Learner\<rparr>) (mc_members s),
                               mc_transfer_index := bt_remove i (mc_transfer_index s),
                               mc_transfer_digest := bt_remove i (mc_transfer_digest s)\<rparr>))
                   | _ \<Rightarrow> (Inl (UnknownMember i), s))))"

definition abort_transfer :: "member_id \<Rightarrow> membership_cluster \<Rightarrow> membership_result" where
  "abort_transfer i s =
     (case require_init s of
        Inl e \<Rightarrow> (Inl e, s)
      | Inr _ \<Rightarrow>
        (case bt_get (mc_members s) i of
           None \<Rightarrow> (Inl (UnknownMember i), s)
         | Some rec \<Rightarrow>
             if mr_phase rec \<noteq> Transferring
             then (Inl (BadPhase i (mr_phase rec) ''Transferring''), s)
             else (Inr (TransferAborted i),
                   s\<lparr>mc_members := bt_remove i (mc_members s),
                     mc_learners := mc_learners s - {i},
                     mc_transfer_index := bt_remove i (mc_transfer_index s),
                     mc_transfer_digest := bt_remove i (mc_transfer_digest s)\<rparr>)))"

definition begin_promote :: "member_id \<Rightarrow> membership_cluster \<Rightarrow> membership_result" where
  "begin_promote i s =
     (case require_init s of
        Inl e \<Rightarrow> (Inl e, s)
      | Inr _ \<Rightarrow>
          if mc_joint s \<noteq> None then (Inl JointInProgress, s)
          else (case bt_get (mc_members s) i of
                  None \<Rightarrow> (Inl (UnknownMember i), s)
                | Some rec \<Rightarrow>
                    if mr_phase rec \<noteq> Learner
                    then (Inl (BadPhase i (mr_phase rec) ''Learner''), s)
                    else (case joint_config_new (mc_voters s) (insert i (mc_voters s)) of
                            Inl e \<Rightarrow> (Inl (MJoint e), s)
                          | Inr joint \<Rightarrow> (Inr (JointEntered joint), s\<lparr>mc_joint := Some joint\<rparr>))))"

definition begin_drain :: "member_id \<Rightarrow> membership_cluster \<Rightarrow> membership_result" where
  "begin_drain i s =
     (case require_init s of
        Inl e \<Rightarrow> (Inl e, s)
      | Inr _ \<Rightarrow>
          if mc_joint s \<noteq> None then (Inl JointInProgress, s)
          else if i \<notin> mc_voters s then (Inl (NotAVoter i), s)
          else if card (mc_voters s) = 1 then (Inl LastVoter, s)
          else (case bt_get (mc_members s) i of
                  None \<Rightarrow> (Inl (UnknownMember i), s)
                | Some rec \<Rightarrow>
                    if mr_phase rec \<noteq> Voter
                    then (Inl (BadPhase i (mr_phase rec) ''Voter''), s)
                    else (let s' = s\<lparr>mc_members :=
                                bt_insert i (rec\<lparr>mr_phase := Draining\<rparr>) (mc_members s)\<rparr>
                          in case joint_config_new (mc_voters s') (mc_voters s' - {i}) of
                               Inl e \<Rightarrow> (Inl (MJoint e), s')
                             | Inr joint \<Rightarrow>
                                 (Inr (JointEntered joint), s'\<lparr>mc_joint := Some joint\<rparr>))))"

text \<open>
  The two loops of \<open>commit_joint\<close> visit the joining and the leaving ids; each visits every id at
  most once and touches only its entries, so they are maps over the member table.
\<close>

definition promote_joining ::
  "member_id set \<Rightarrow> (member_id, member_record) btree \<Rightarrow> (member_id, member_record) btree" where
  "promote_joining joining members =
     map (\<lambda>(i, rec). (i, if i \<in> joining then rec\<lparr>mr_phase := Voter\<rparr> else rec)) members"

definition commit_joint :: "member_id set \<Rightarrow> membership_cluster \<Rightarrow> membership_result" where
  "commit_joint available s =
     (case require_init s of
        Inl e \<Rightarrow> (Inl e, s)
      | Inr _ \<Rightarrow>
        (case mc_joint s of
           None \<Rightarrow> (Inl NoJoint, s)
         | Some joint \<Rightarrow>
           (let s' = s\<lparr>mc_joint := None\<rparr> in
            case can_commit_joint joint available of
              Inl e \<Rightarrow> (Inl (MJoint e), s')
            | Inr False \<Rightarrow> (Inl JointQuorumNotMet, s'\<lparr>mc_joint := Some joint\<rparr>)
            | Inr True \<Rightarrow>
                (let new_voters = jc_new_voters joint;
                     leaving = jc_old_voters joint - new_voters;
                     joining = new_voters - jc_old_voters joint
                 in (Inr (JointCommitted new_voters),
                     s'\<lparr>mc_members := bt_retain (\<lambda>i _. i \<notin> leaving)
                           (promote_joining joining (mc_members s')),
                        mc_learners := mc_learners s' - joining - leaving,
                        mc_voters := new_voters\<rparr>)))))"

definition membership_remove :: "member_id \<Rightarrow> membership_cluster \<Rightarrow> membership_result" where
  "membership_remove i s =
     (case require_init s of
        Inl e \<Rightarrow> (Inl e, s)
      | Inr _ \<Rightarrow>
          if mc_joint s \<noteq> None then (Inl JointInProgress, s)
          else if i \<in> mc_voters s
          then (Inl (BadPhase i Voter ''non-voter (drain via joint first)''), s)
          else if \<not> bt_has (mc_members s) i then (Inl (UnknownMember i), s)
          else (Inr (Removed i),
                s\<lparr>mc_members := bt_remove i (mc_members s),
                  mc_learners := mc_learners s - {i},
                  mc_transfer_index := bt_remove i (mc_transfer_index s),
                  mc_transfer_digest := bt_remove i (mc_transfer_digest s)\<rparr>))"

section \<open>Runs\<close>

datatype membership_command =
    Init member_id u64
  | BeginJoin member_id u64 bytes
  | CompleteTransfer member_id snapshot_offer
  | AbortTransfer member_id
  | BeginPromote member_id
  | BeginDrain member_id
  | CommitJoint "member_id set"
  | Remove member_id

fun membership_apply ::
  "(bytes \<Rightarrow> bytes) \<Rightarrow> membership_command \<Rightarrow> membership_cluster \<Rightarrow> membership_result" where
  "membership_apply H (Init i n) s = membership_init i n s"
| "membership_apply H (BeginJoin i x d) s = begin_join i x d s"
| "membership_apply H (CompleteTransfer i x) s = complete_transfer H i x s"
| "membership_apply H (AbortTransfer i) s = abort_transfer i s"
| "membership_apply H (BeginPromote i) s = begin_promote i s"
| "membership_apply H (BeginDrain i) s = begin_drain i s"
| "membership_apply H (CommitJoint available) s = commit_joint available s"
| "membership_apply H (Remove i) s = membership_remove i s"

text \<open>
  \<open>can_commit_joint\<close> counts voters in 32 bits; the runs considered have fewer.
\<close>

inductive membership_run :: "(bytes \<Rightarrow> bytes) \<Rightarrow> membership_cluster \<Rightarrow> membership_event list \<Rightarrow> bool"
  for H where
  start: "membership_run H membership_cluster_default []"
| committed: "membership_run H s es \<Longrightarrow> card (mc_voters s) < 2 ^ 32 - 1 \<Longrightarrow>
    membership_apply H c s = (Inr e, s') \<Longrightarrow> membership_run H s' (es @ [e])"
| refused: "membership_run H s es \<Longrightarrow> card (mc_voters s) < 2 ^ 32 - 1 \<Longrightarrow>
    membership_apply H c s = (Inl x, s') \<Longrightarrow> membership_run H s' es"

section \<open>Invariant\<close>

definition phase_of :: "membership_cluster \<Rightarrow> member_id \<Rightarrow> member_phase option" where
  "phase_of s i = map_option mr_phase (bt_get (mc_members s) i)"

text \<open>
  A joint configuration in progress changes the committed voters by one member: a verified learner
  joins, or a draining voter leaves, and somebody stays.
\<close>

definition joint_ok :: "membership_cluster \<Rightarrow> bool" where
  "joint_ok s \<longleftrightarrow> (case mc_joint s of
     None \<Rightarrow> (\<forall>i. phase_of s i \<noteq> Some Draining)
   | Some j \<Rightarrow> jc_old_voters j = mc_voters s \<and> jc_new_voters j \<noteq> {} \<and>
       ((\<exists>i. jc_new_voters j = insert i (mc_voters s) \<and> phase_of s i = Some Learner \<and>
             (\<forall>k. phase_of s k \<noteq> Some Draining)) \<or>
        (\<exists>i \<in> mc_voters s. jc_new_voters j = mc_voters s - {i} \<and>
             (\<forall>k. phase_of s k = Some Draining \<longleftrightarrow> k = i))))"

definition membership_ok :: "membership_cluster \<Rightarrow> bool" where
  "membership_ok s \<longleftrightarrow>
     bt_ok (mc_members s) \<and> bt_ok (mc_transfer_index s) \<and> bt_ok (mc_transfer_digest s) \<and>
     finite (mc_voters s) \<and>
     (mc_incarnation s = None \<longleftrightarrow> mc_voters s = {}) \<and>
     (mc_incarnation s = None \<longrightarrow> mc_members s = []) \<and>
     (\<forall>i. i \<in> mc_voters s \<longleftrightarrow> phase_of s i \<in> {Some Voter, Some Draining}) \<and>
     (\<forall>i. i \<in> mc_learners s \<longleftrightarrow> phase_of s i \<in> {Some Transferring, Some Learner}) \<and>
     (\<forall>i. bt_has (mc_transfer_index s) i \<longleftrightarrow> phase_of s i = Some Transferring) \<and>
     (\<forall>i. bt_has (mc_transfer_digest s) i \<longleftrightarrow> phase_of s i = Some Transferring) \<and>
     joint_ok s"

lemma membership_okD:
  assumes "membership_ok s"
  shows "bt_ok (mc_members s)" "bt_ok (mc_transfer_index s)" "bt_ok (mc_transfer_digest s)"
    "finite (mc_voters s)" "mc_incarnation s = None \<longleftrightarrow> mc_voters s = {}"
    "mc_incarnation s = None \<Longrightarrow> mc_members s = []"
    "i \<in> mc_voters s \<longleftrightarrow> phase_of s i = Some Voter \<or> phase_of s i = Some Draining"
    "i \<in> mc_learners s \<longleftrightarrow> phase_of s i = Some Transferring \<or> phase_of s i = Some Learner"
    "bt_has (mc_transfer_index s) i \<longleftrightarrow> phase_of s i = Some Transferring"
    "bt_has (mc_transfer_digest s) i \<longleftrightarrow> phase_of s i = Some Transferring"
    "joint_ok s"
  using assms by (simp_all add: membership_ok_def)

lemma membership_default_ok: "membership_ok membership_cluster_default"
  by (simp add: membership_ok_def membership_cluster_default_def joint_ok_def phase_of_def bt_has_def)

text \<open>
  Every operation changes the phase of at most one member, or commits a joint configuration. The
  next lemma is the shared argument for the former.
\<close>

lemma membership_ok_phase:
  assumes "membership_ok s" and "mc_incarnation s \<noteq> None"
    and "bt_ok (mc_members s')" "bt_ok (mc_transfer_index s')" "bt_ok (mc_transfer_digest s')"
    and "\<And>k. phase_of s' k = (if k = i then p else phase_of s k)"
    and "mc_incarnation s' = mc_incarnation s" "mc_voters s' = mc_voters s"
    and "\<And>k. k \<in> mc_learners s' \<longleftrightarrow>
      (if k = i then p \<in> {Some Transferring, Some Learner} else k \<in> mc_learners s)"
    and "\<And>k. bt_has (mc_transfer_index s') k \<longleftrightarrow>
      (if k = i then p = Some Transferring else bt_has (mc_transfer_index s) k)"
    and "\<And>k. bt_has (mc_transfer_digest s') k \<longleftrightarrow>
      (if k = i then p = Some Transferring else bt_has (mc_transfer_digest s) k)"
    and "i \<in> mc_voters s \<longleftrightarrow> p \<in> {Some Voter, Some Draining}"
    and "joint_ok s'"
  shows "membership_ok s'"
  using membership_okD [OF assms(1)] assms(2-)
  unfolding membership_ok_def by auto

lemma joint_ok_transferring:
  assumes "joint_ok s" "phase_of s i = Some Transferring" "mc_joint s' = mc_joint s" "mc_voters s' = mc_voters s"
    and "\<And>k. phase_of s' k = (if k = i then p else phase_of s k)" and "p \<noteq> Some Draining"
  shows "joint_ok s'"
proof (cases "mc_joint s")
  case (Some j)
  have l: "phase_of s k = Some Learner \<Longrightarrow> phase_of s' k = Some Learner" for k
    using assms(2,5) by auto
  have dr: "phase_of s' k = Some Draining \<longleftrightarrow> phase_of s k = Some Draining" for k
    using assms(2,5,6) by auto
  from assms(1) Some show ?thesis
    unfolding joint_ok_def by (simp add: assms(3,4) dr) (use l in blast)
qed (use assms in \<open>auto simp: joint_ok_def\<close>)

lemma phase_of_simps:
  "phase_of (s\<lparr>mc_members := bt_insert i rec (mc_members s)\<rparr>) k =
     (if k = i then Some (mr_phase rec) else phase_of s k)"
  "phase_of (s\<lparr>mc_members := bt_remove i (mc_members s)\<rparr>) k = (if k = i then None else phase_of s k)"
  by (simp_all add: phase_of_def bt_simps)

lemma phase_of_frame [simp]:
  "phase_of (s\<lparr>mc_voters := v\<rparr>) = phase_of s" "phase_of (s\<lparr>mc_learners := v\<rparr>) = phase_of s"
  "phase_of (s\<lparr>mc_joint := j\<rparr>) = phase_of s" "phase_of (s\<lparr>mc_transfer_index := x\<rparr>) = phase_of s"
  "phase_of (s\<lparr>mc_transfer_digest := y\<rparr>) = phase_of s" "phase_of (s\<lparr>mc_incarnation := n\<rparr>) = phase_of s"
  by (auto simp: phase_of_def)

lemma phase_of_Some: "phase_of s i = Some p \<longleftrightarrow> (\<exists>rec. bt_get (mc_members s) i = Some rec \<and> mr_phase rec = p)"
  by (auto simp: phase_of_def)

lemma membership_init_ok: "membership_ok s \<Longrightarrow> membership_ok (snd (membership_init i n s))"
proof (cases "mc_incarnation s")
  case None
  assume ok: "membership_ok s"
  note d = membership_okD [OF this]
  from None d(6) have m: "mc_members s = []" by simp
  then have "phase_of s k = None" for k by (simp add: phase_of_def)
  then show ?thesis
    using None m d
    by (auto simp: membership_init_def membership_ok_def phase_of_def joint_ok_def bt_ok_def
        bt_get_def split: option.splits if_splits)
qed (simp add: membership_init_def)

lemma begin_join_ok: "membership_ok s \<Longrightarrow> membership_ok (snd (begin_join i x d s))"
proof -
  assume ok: "membership_ok s"
  note d = membership_okD [OF this]
  show ?thesis
  proof (cases "fst (begin_join i x d s)")
    case (Inr e)
    then have n: "mc_incarnation s \<noteq> None" "phase_of s i = None" "mc_joint s = None"
      by (auto simp: begin_join_def require_init_def phase_of_def bt_has_def split: if_splits)
    show ?thesis
      by (rule membership_ok_phase [OF ok n(1), where i = i and p = "Some Transferring"])
        (use n d in \<open>auto simp: begin_join_def require_init_def bt_simps bt_intros phase_of_def bt_has_def
          joint_ok_def\<close>)
  qed (use ok in \<open>auto simp: begin_join_def require_init_def split: if_splits\<close>)
qed

lemma complete_transfer_ok: "membership_ok s \<Longrightarrow> membership_ok (snd (complete_transfer H i x s))"
proof -
  assume ok: "membership_ok s"
  note d = membership_okD [OF this]
  show ?thesis
  proof (cases "fst (complete_transfer H i x s)")
    case (Inr e)
    then obtain rec where n: "mc_incarnation s \<noteq> None" "bt_get (mc_members s) i = Some rec"
      "mr_phase rec = Transferring"
      "snd (complete_transfer H i x s) =
        s\<lparr>mc_members := bt_insert i (rec\<lparr>mr_phase := Learner\<rparr>) (mc_members s),
          mc_transfer_index := bt_remove i (mc_transfer_index s),
          mc_transfer_digest := bt_remove i (mc_transfer_digest s)\<rparr>"
      by (auto simp: complete_transfer_def require_init_def split: if_splits option.splits sum.splits)
    then have p: "phase_of s i = Some Transferring" by (simp add: phase_of_def)
    show ?thesis unfolding n(4)
      by (rule membership_ok_phase [OF ok n(1), where i = i and p = "Some Learner"])
        (use n d p joint_ok_transferring [OF d(11) p, of _ "Some Learner"] in
          \<open>auto simp: bt_simps bt_intros phase_of_simps\<close>)
  qed (use ok in \<open>auto simp: complete_transfer_def require_init_def
      split: if_splits option.splits sum.splits\<close>)
qed

lemma abort_transfer_ok: "membership_ok s \<Longrightarrow> membership_ok (snd (abort_transfer i s))"
proof -
  assume ok: "membership_ok s"
  note d = membership_okD [OF this]
  show ?thesis
  proof (cases "fst (abort_transfer i s)")
    case (Inr e)
    then obtain rec where n: "mc_incarnation s \<noteq> None" "bt_get (mc_members s) i = Some rec"
      "mr_phase rec = Transferring"
      by (auto simp: abort_transfer_def require_init_def split: if_splits option.splits)
    then have p: "phase_of s i = Some Transferring" by (simp add: phase_of_def)
    show ?thesis
      by (rule membership_ok_phase [OF ok n(1), where i = i and p = None])
        (use n d p joint_ok_transferring [OF d(11) p, of _ None] in
          \<open>auto simp: abort_transfer_def require_init_def bt_simps bt_intros phase_of_simps\<close>)
  qed (use ok in \<open>auto simp: abort_transfer_def require_init_def split: if_splits option.splits\<close>)
qed

lemma membership_remove_ok: "membership_ok s \<Longrightarrow> membership_ok (snd (membership_remove i s))"
proof -
  assume ok: "membership_ok s"
  note d = membership_okD [OF this]
  show ?thesis
  proof (cases "fst (membership_remove i s)")
    case (Inr e)
    then have n: "mc_incarnation s \<noteq> None" "i \<notin> mc_voters s" "mc_joint s = None"
      by (auto simp: membership_remove_def require_init_def split: if_splits)
    show ?thesis
      by (rule membership_ok_phase [OF ok n(1), where i = i and p = None])
        (use Inr n d in \<open>auto simp: membership_remove_def require_init_def bt_simps bt_intros phase_of_simps
          joint_ok_def split: option.splits if_splits\<close>)
  qed (use ok in \<open>auto simp: membership_remove_def require_init_def split: if_splits\<close>)
qed

lemma begin_promote_ok: "membership_ok s \<Longrightarrow> membership_ok (snd (begin_promote i s))"
  using membership_okD(11) [of s]
  by (auto simp: begin_promote_def require_init_def joint_config_new_def membership_ok_def joint_ok_def
      phase_of_Some split: option.splits)

lemma begin_drain_ok: "membership_ok s \<Longrightarrow> membership_ok (snd (begin_drain i s))"
proof -
  assume ok: "membership_ok s"
  note d = membership_okD [OF this]
  have two: "mc_voters s - {i} \<noteq> {}" if "i \<in> mc_voters s" "card (mc_voters s) \<noteq> 1"
    using that d(4) by (metis card_1_singleton_iff insert_Diff One_nat_def)
  show ?thesis
  proof (cases "fst (begin_drain i s)")
    case (Inr e)
    then obtain rec where n: "mc_incarnation s \<noteq> None" "bt_get (mc_members s) i = Some rec"
      "mr_phase rec = Voter" "mc_joint s = None" "i \<in> mc_voters s"
      "mc_voters s - {i} \<noteq> {}" "snd (begin_drain i s) =
        s\<lparr>mc_members := bt_insert i (rec\<lparr>mr_phase := Draining\<rparr>) (mc_members s),
          mc_joint := Some \<lparr>jc_old_voters = mc_voters s, jc_new_voters = mc_voters s - {i}\<rparr>\<rparr>"
      by (auto simp: begin_drain_def require_init_def joint_config_new_def Let_def
          split: if_splits option.splits)
    then have p: "phase_of s i = Some Voter" by (simp add: phase_of_def)
    show ?thesis unfolding n(7)
      by (rule membership_ok_phase [OF ok n(1), where i = i and p = "Some Draining"])
        (use n d p in \<open>auto simp: bt_simps bt_intros phase_of_simps joint_ok_def\<close>)
  qed (use ok two in \<open>auto simp: begin_drain_def require_init_def joint_config_new_def Let_def
      split: if_splits option.splits\<close>)
qed

lemma bt_get_promote_joining:
  "bt_get (promote_joining J m) k =
     map_option (\<lambda>rec. if k \<in> J then rec\<lparr>mr_phase := Voter\<rparr> else rec) (bt_get m k)"
  by (induction m) (auto simp: promote_joining_def bt_get_def)

lemma bt_ok_promote_joining [bt_intros]: "bt_ok m \<Longrightarrow> bt_ok (promote_joining J m)"
proof -
  have "map fst (promote_joining J m) = map fst m"
    by (induction m) (auto simp: promote_joining_def)
  then show "bt_ok m \<Longrightarrow> ?thesis" by (simp add: bt_ok_def)
qed

text \<open>A quorum of one voter set, as \<open>can_commit\<close> decides it.\<close>

definition quorum_of :: "member_id set \<Rightarrow> member_id set \<Rightarrow> bool" where
  "quorum_of voters available \<longleftrightarrow>
     can_commit (as_u32 (card voters)) (as_u32 (card (voters \<inter> available))) = Inr True"

lemma can_commit_card:
  assumes "finite V" and "V \<noteq> {}" and "card V < 2 ^ 32"
  shows "can_commit (as_u32 (card V)) (as_u32 (card (V \<inter> A))) = Inr (card V < 2 * card (V \<inter> A))"
proof -
  have "card (V \<inter> A) \<le> card V" using assms(1) by (simp add: card_mono)
  moreover have "card V \<noteq> 0" using assms by simp
  ultimately show ?thesis
    using assms(3) by (auto simp: can_commit_def majority_def as_u32_def)
qed

lemma can_commit_joint_card:
  assumes "finite (jc_old_voters j)" "jc_old_voters j \<noteq> {}" "card (jc_old_voters j) < 2 ^ 32"
    and "finite (jc_new_voters j)" "jc_new_voters j \<noteq> {}" "card (jc_new_voters j) < 2 ^ 32"
  shows "can_commit_joint j A = Inr (quorum_of (jc_old_voters j) A \<and> quorum_of (jc_new_voters j) A)"
  using can_commit_card [OF assms(1-3), of A] can_commit_card [OF assms(4-6), of A]
  by (simp add: can_commit_joint_def Let_def quorum_of_def split: bool.splits)

lemma joint_fits:
  assumes "membership_ok s" and "card (mc_voters s) < 2 ^ 32 - 1" and "mc_joint s = Some j"
  shows "can_commit_joint j A = Inr (quorum_of (jc_old_voters j) A \<and> quorum_of (jc_new_voters j) A)"
    "finite (jc_new_voters j)" "jc_new_voters j \<noteq> {}" "card (jc_new_voters j) < 2 ^ 32"
    "finite (jc_old_voters j)" "jc_old_voters j \<noteq> {}" "card (jc_old_voters j) < 2 ^ 32"
proof -
  have j: "jc_old_voters j = mc_voters s" "jc_new_voters j \<noteq> {}"
    "(\<exists>i. jc_new_voters j = insert i (mc_voters s)) \<or> (\<exists>i. jc_new_voters j = mc_voters s - {i})"
    using membership_okD(11) [OF assms(1)] assms(3) by (auto simp: joint_ok_def)
  have f: "finite (mc_voters s)" by (rule membership_okD(4) [OF assms(1)])
  have v: "mc_voters s \<noteq> {}"
    using membership_okD(5,6,11) [OF assms(1)] assms(3) by (auto simp: joint_ok_def phase_of_def)
  show n: "finite (jc_new_voters j)" "jc_new_voters j \<noteq> {}" using j f by auto
  have "card (insert i (mc_voters s)) \<le> Suc (card (mc_voters s))"
    "card (mc_voters s - {i}) \<le> Suc (card (mc_voters s))" for i
    using f by (auto simp: card_insert_if intro: le_SucI card_Diff1_le)
  then have "card (jc_new_voters j) \<le> Suc (card (mc_voters s))" using j(3) by metis
  then show c: "card (jc_new_voters j) < 2 ^ 32" using assms(2) by simp
  show m: "finite (jc_old_voters j)" "jc_old_voters j \<noteq> {}" "card (jc_old_voters j) < 2 ^ 32"
    using j f v assms(2) by auto
  show "can_commit_joint j A = Inr (quorum_of (jc_old_voters j) A \<and> quorum_of (jc_new_voters j) A)"
    by (rule can_commit_joint_card) (use n c m in auto)
qed

lemma commit_joint_cases:
  assumes "membership_ok s" and "card (mc_voters s) < 2 ^ 32 - 1"
  obtains (unchanged) e where "commit_joint A s = (Inl e, s)"
  | (promoted) i where "phase_of s i = Some Learner" "commit_joint A s =
      (Inr (JointCommitted (insert i (mc_voters s))),
       s\<lparr>mc_joint := None,
         mc_members := promote_joining {i} (mc_members s),
         mc_learners := mc_learners s - {i}, mc_voters := insert i (mc_voters s)\<rparr>)"
      "\<forall>k. phase_of s k \<noteq> Some Draining"
  | (drained) i where "mc_voters s - {i} \<noteq> {}" "i \<in> mc_voters s"
      "\<forall>k. phase_of s k = Some Draining \<longleftrightarrow> k = i" "commit_joint A s =
      (Inr (JointCommitted (mc_voters s - {i})),
       s\<lparr>mc_joint := None, mc_members := bt_remove i (mc_members s),
         mc_learners := mc_learners s - {i}, mc_voters := mc_voters s - {i}\<rparr>)"
proof (cases "mc_joint s")
  case (Some j)
  note fits = joint_fits [OF assms Some]
  have init: "require_init s = Inr ()"
    using fits(6) membership_okD(5,11) [OF assms(1)] Some by (auto simp: require_init_def joint_ok_def)
  show ?thesis
  proof (cases "quorum_of (jc_old_voters j) A \<and> quorum_of (jc_new_voters j) A")
    case True
    from membership_okD(11) [OF assms(1)] Some consider
      (join) i where "jc_old_voters j = mc_voters s" "jc_new_voters j = insert i (mc_voters s)"
        "phase_of s i = Some Learner" "\<forall>k. phase_of s k \<noteq> Some Draining"
    | (leave) i where "jc_old_voters j = mc_voters s" "jc_new_voters j = mc_voters s - {i}"
        "i \<in> mc_voters s" "\<forall>k. phase_of s k = Some Draining \<longleftrightarrow> k = i"
      by (auto simp: joint_ok_def)
    then show ?thesis
    proof cases
      case join
      then have "i \<notin> mc_voters s" using membership_okD(7) [OF assms(1), of i] by simp
      then have "insert i (mc_voters s) - mc_voters s = {i}"
        "mc_learners s - {i} - (mc_voters s - insert i (mc_voters s)) = mc_learners s - {i}" by auto
      with join show ?thesis
        using True Some init
        by (intro promoted [of i]) (simp_all add: commit_joint_def fits(1) Let_def bt_retain_def)
    next
      case leave
      then have e: "mc_voters s - (mc_voters s - {i}) = {i}"
        "mc_learners s - (mc_voters s - {i} - mc_voters s) - {i} = mc_learners s - {i}" by auto
      have "bt_retain (\<lambda>k _. k \<in> mc_voters s \<longrightarrow> k \<noteq> i) (promote_joining (mc_voters s - {i} - mc_voters s) m) =
          bt_remove i m" for m
        using leave(3) by (induction m) (auto simp: bt_retain_def bt_remove_def promote_joining_def)
      with leave e show ?thesis
        using True Some init fits(3)
        by (intro drained [of i]) (simp_all add: commit_joint_def fits(1) Let_def)
    qed
  next
    case False
    then show ?thesis
      using Some init
      by (intro unchanged [of JointQuorumNotMet]) (auto simp: commit_joint_def fits(1) split: bool.splits)
  qed
qed (use unchanged in \<open>cases "require_init s", auto simp: commit_joint_def\<close>)

lemma commit_joint_ok:
  assumes "membership_ok s" and "card (mc_voters s) < 2 ^ 32 - 1"
  shows "membership_ok (snd (commit_joint A s))"
  using assms
proof (cases rule: commit_joint_cases [where A = A])
  case (promoted i)
  let ?s = "snd (commit_joint A s)"
  have p: "phase_of ?s k = (if k = i then Some Voter else phase_of s k)" for k
    using promoted(1,2) by (auto simp: phase_of_def bt_get_promote_joining option.map_ident)
  note d = membership_okD [OF assms(1)]
  have "mc_voters s \<noteq> {}" using promoted(1) d(5,6) by (auto simp: phase_of_def)
  then show ?thesis
    unfolding membership_ok_def joint_ok_def p using d promoted
    by (auto simp: bt_intros)
next
  case (drained i)
  let ?s = "snd (commit_joint A s)"
  have p: "phase_of ?s k = (if k = i then None else phase_of s k)" for k
    using drained(4) by (auto simp: phase_of_def bt_simps)
  note d = membership_okD [OF assms(1)]
  have dr: "phase_of s i = Some Draining" using drained(3) by blast
  have "phase_of s i \<noteq> Some Transferring" "phase_of s i \<noteq> Some Learner" by (simp_all add: dr)
  then show ?thesis
    unfolding membership_ok_def joint_ok_def p using d drained
    by (auto simp: bt_intros)
qed (use assms in simp)

lemma membership_apply_ok:
  "membership_ok s \<Longrightarrow> card (mc_voters s) < 2 ^ 32 - 1 \<Longrightarrow> membership_ok (snd (membership_apply H c s))"
  by (cases c) (simp_all add: membership_init_ok begin_join_ok complete_transfer_ok abort_transfer_ok
      begin_promote_ok begin_drain_ok commit_joint_ok membership_remove_ok)

lemma membership_run_ok: "membership_run H s es \<Longrightarrow> membership_ok s"
proof (induction rule: membership_run.induct)
  case (committed s es c e s')
  then show ?case using membership_apply_ok [of s H c] by simp
next
  case (refused s es c x s')
  then show ?case using membership_apply_ok [of s H c] by simp
qed (rule membership_default_ok)

section \<open>Quorum intersection\<close>

text \<open>
  Majorities as an interface: a family of voter configurations whose quorums meet, also across one
  change of configuration.
\<close>

locale quorum_system =
  fixes quorum :: "'a set \<Rightarrow> 'a set \<Rightarrow> bool"
    and config :: "'a set \<Rightarrow> bool"
  assumes majority_of: "config V \<Longrightarrow> quorum V A \<Longrightarrow> finite V \<and> card V < 2 * card (V \<inter> A)"
begin

lemma quorums_meet:
  assumes "config V" "config W" "quorum V A" "quorum W B" and "card (V \<union> W) \<le> Suc (card (V \<inter> W))"
  shows "A \<inter> B \<noteq> {}"
proof
  assume e: "A \<inter> B = {}"
  have f: "finite V" "finite W" "card V < 2 * card (V \<inter> A)" "card W < 2 * card (W \<inter> B)"
    using majority_of assms by blast+
  then have "card (V \<inter> A) + card (W \<inter> B) = card ((V \<inter> A) \<union> (W \<inter> B))"
    using e by (intro card_Un_disjoint [symmetric]) auto
  also have "\<dots> \<le> card (V \<union> W)" using f by (intro card_mono) auto
  finally have "card (V \<inter> A) + card (W \<inter> B) \<le> card (V \<union> W)" .
  moreover have "card V + card W = card (V \<union> W) + card (V \<inter> W)"
    using f by (intro card_Un_Int)
  ultimately show False using f assms(5) by linarith
qed

lemma quorums_meet_same: "config V \<Longrightarrow> quorum V A \<Longrightarrow> quorum V B \<Longrightarrow> A \<inter> B \<noteq> {}"
  by (rule quorums_meet [of V V]) auto

end

interpretation majorities: quorum_system quorum_of "\<lambda>V. finite V \<and> V \<noteq> {} \<and> card V < 2 ^ 32"
proof unfold_locales
  fix V A :: "member_id set"
  assume "finite V \<and> V \<noteq> {} \<and> card V < 2 ^ 32" and "quorum_of V A"
  then show "finite V \<and> card V < 2 * card (V \<inter> A)"
    using can_commit_card [of V A] by (simp add: quorum_of_def)
qed

section \<open>Properties\<close>

text \<open>The three ways a set of members can commit while a change is in progress.\<close>

definition commits_under :: "joint_config \<Rightarrow> member_id set \<Rightarrow> bool" where
  "commits_under j A \<longleftrightarrow>
     quorum_of (jc_old_voters j) A \<or> quorum_of (jc_new_voters j) A \<or> can_commit_joint j A = Inr True"

definition demo_offer :: snapshot_offer where
  "demo_offer = \<lparr>so_committed_index = 4, so_digest = [9], so_bytes = [9]\<rparr>"

definition demo_cluster :: membership_cluster where
  "demo_cluster = fold (\<lambda>c s. snd (membership_apply (\<lambda>p. p) c s))
     [Init 1 1, BeginJoin 2 4 [9], CompleteTransfer 2 demo_offer, BeginPromote 2]
     membership_cluster_default"

lemmas membership_eval =
  membership_cluster_default_def membership_init_def begin_join_def complete_transfer_def
  snapshot_verify_def begin_promote_def begin_drain_def commit_joint_def require_init_def
  joint_config_new_def bt_has_def bt_get_def bt_remove_def Let_def

lemma demo_cluster_eval:
  "demo_cluster =
     \<lparr>mc_incarnation = Some 1,
      mc_members = [(1, \<lparr>mr_id = 1, mr_phase = Voter\<rparr>), (2, \<lparr>mr_id = 2, mr_phase = Learner\<rparr>)],
      mc_voters = {1}, mc_learners = {2},
      mc_joint = Some \<lparr>jc_old_voters = {1}, jc_new_voters = {2, 1}\<rparr>,
      mc_transfer_index = [], mc_transfer_digest = []\<rparr>"
  by (simp add: demo_cluster_def demo_offer_def membership_eval)

lemma membership_run_apply:
  "membership_run H s es \<Longrightarrow> card (mc_voters s) < 2 ^ 32 - 1 \<Longrightarrow>
     membership_run H (snd (membership_apply H c s))
       (es @ (case fst (membership_apply H c s) of Inl x \<Rightarrow> [] | Inr e \<Rightarrow> [e]))"
  by (cases "membership_apply H c s") (auto split: sum.splits intro: membership_run.intros)

lemma demo_cluster_run:
  "membership_run (\<lambda>p. p) demo_cluster
     [Initialized 1 1, JoinStarted 2, TransferCompleted 2 4,
      JointEntered \<lparr>jc_old_voters = {1}, jc_new_voters = {2, 1}\<rparr>]"
proof -
  let ?r = "membership_run (\<lambda>p. p)"
  note st = membership_run_apply [of "\<lambda>p. p"]
  have "?r \<lparr>mc_incarnation = Some 1, mc_members = [(1, \<lparr>mr_id = 1, mr_phase = Voter\<rparr>)], mc_voters = {1},
      mc_learners = {}, mc_joint = None, mc_transfer_index = [], mc_transfer_digest = []\<rparr> [Initialized 1 1]"
    using st [OF membership_run.start, of "Init 1 1"] by (simp add: membership_eval)
  from st [OF this, of "BeginJoin 2 4 [9]"] have "?r \<lparr>mc_incarnation = Some 1,
      mc_members = [(1, \<lparr>mr_id = 1, mr_phase = Voter\<rparr>), (2, \<lparr>mr_id = 2, mr_phase = Transferring\<rparr>)],
      mc_voters = {1}, mc_learners = {2}, mc_joint = None, mc_transfer_index = [(2, 4)],
      mc_transfer_digest = [(2, [9])]\<rparr> [Initialized 1 1, JoinStarted 2]"
    by (simp add: membership_eval)
  from st [OF this, of "CompleteTransfer 2 demo_offer"] have "?r \<lparr>mc_incarnation = Some 1,
      mc_members = [(1, \<lparr>mr_id = 1, mr_phase = Voter\<rparr>), (2, \<lparr>mr_id = 2, mr_phase = Learner\<rparr>)],
      mc_voters = {1}, mc_learners = {2}, mc_joint = None, mc_transfer_index = [],
      mc_transfer_digest = []\<rparr> [Initialized 1 1, JoinStarted 2, TransferCompleted 2 4]"
    by (simp add: membership_eval demo_offer_def)
  from st [OF this, of "BeginPromote 2"] show ?thesis
    by (simp add: membership_eval demo_cluster_eval)
qed

text \<open>
  C5: while a membership change is in progress in any reachable cluster, any two sets of members
  that could commit, each under the old voters, the new voters or the joint configuration, have a
  member in common. So no two sides of a partition can both commit.
\<close>

theorem joint_quorums_intersect:
  assumes "membership_run H s es" and "card (mc_voters s) < 2 ^ 32 - 1" and "mc_joint s = Some j"
    and "commits_under j A" and "commits_under j B"
  shows "A \<inter> B \<noteq> {}"
proof -
  note ok = membership_run_ok [OF assms(1)]
  note fits = joint_fits [OF ok assms(2,3)]
  let ?V = "jc_old_voters j" and ?W = "jc_new_voters j"
  from membership_okD(11) [OF ok] assms(3) obtain i where
    i: "?V = mc_voters s" "?W = insert i ?V \<or> ?W = ?V - {i} \<and> i \<in> ?V"
    by (auto simp: joint_ok_def)
  have "card (?V \<union> ?W) \<le> Suc (card (?V \<inter> ?W))"
  proof (cases "?W = insert i ?V")
    case True
    then have "?V \<union> ?W = insert i ?V" "?V \<inter> ?W = ?V" by auto
    with fits(5) show ?thesis by (simp add: card_insert_if)
  next
    case False
    with i(2) have "?V \<union> ?W = ?V" "?V \<inter> ?W = ?V - {i}" "i \<in> ?V" by auto
    with fits(5) show ?thesis by (simp add: card_Suc_Diff1)
  qed
  moreover from this have "card (?W \<union> ?V) \<le> Suc (card (?W \<inter> ?V))" by (simp add: Un_commute Int_commute)
  moreover have "quorum_of ?V X \<or> quorum_of ?W X" if "commits_under j X" for X
    using that by (auto simp: commits_under_def fits(1))
  ultimately show ?thesis
    using assms(4,5) fits majorities.quorums_meet majorities.quorums_meet_same by metis
qed

theorem joint_quorums_intersect_witness: "{2, 1} \<inter> {1, 5} \<noteq> ({} :: member_id set)"
proof (rule joint_quorums_intersect [OF demo_cluster_run])
  show "mc_joint demo_cluster = Some \<lparr>jc_old_voters = {1}, jc_new_voters = {2, 1}\<rparr>"
    by (simp add: demo_cluster_eval)
qed (simp_all add: demo_cluster_eval commits_under_def quorum_of_def can_commit_def majority_def as_u32_def)

text \<open>
  C22: in every reachable cluster the voters are exactly the members in phase voter or draining, the
  learners exactly those still transferring or catching up, an initialised cluster has a voter, and
  a change in progress adds one caught-up learner or drops one draining voter.
\<close>

theorem membership_invariant:
  assumes "membership_run H s es"
  shows "mc_voters s = {i. can_vote s i} \<and>
    mc_learners s = {i. phase_of s i \<in> {Some Transferring, Some Learner}} \<and>
    (mc_incarnation s \<noteq> None \<longrightarrow> mc_voters s \<noteq> {}) \<and> joint_ok s"
proof -
  note d = membership_okD [OF membership_run_ok [OF assms]]
  then show ?thesis by (auto simp: can_vote_def phase_of_def)
qed

theorem membership_invariant_witness: "mc_voters demo_cluster = {i. can_vote demo_cluster i}"
  using membership_invariant [OF demo_cluster_run] by blast

text \<open>Members whose snapshot the cluster has verified, or which founded it.\<close>

definition admitted_by :: "membership_event list \<Rightarrow> member_id set" where
  "admitted_by es = {i. (\<exists>n. Initialized i n \<in> set es) \<or> (\<exists>x. TransferCompleted i x \<in> set es)}"

lemma admitted_by_snoc [simp]:
  "admitted_by (es @ [e]) = admitted_by es \<union> admitted_by [e]"
  by (auto simp: admitted_by_def)




text \<open>
  A snapshot transfer completes exactly for a transferring member whose offer hashes to its own
  digest and to the digest and index announced when it joined; otherwise nothing changes.
\<close>

theorem complete_transfer_iff_verified:
  assumes "membership_ok s"
  shows "(fst (complete_transfer H i offer s) = Inr (TransferCompleted i (so_committed_index offer)) \<longleftrightarrow>
      phase_of s i = Some Transferring \<and> so_digest offer = H (so_bytes offer) \<and>
      bt_get (mc_transfer_digest s) i = Some (H (so_bytes offer)) \<and>
      bt_get (mc_transfer_index s) i = Some (so_committed_index offer)) \<and>
    (\<forall>e. fst (complete_transfer H i offer s) = Inl e \<longrightarrow> snd (complete_transfer H i offer s) = s)"
proof -
  note d = membership_okD [OF assms]
  have "mc_incarnation s \<noteq> None" if "phase_of s i = Some Transferring"
    using that d(6) by (cases "mc_incarnation s") (auto simp: phase_of_def)
  then show ?thesis
    by (auto simp: complete_transfer_def require_init_def snapshot_verify_def phase_of_def Let_def
        split: option.splits sum.splits if_splits)
qed

theorem complete_transfer_iff_verified_witness:
  "fst (complete_transfer (\<lambda>p. p) 1 demo_offer demo_cluster) \<noteq> Inr (TransferCompleted 1 4)"
  using complete_transfer_iff_verified [OF membership_run_ok [OF demo_cluster_run], of "\<lambda>p. p" 1 demo_offer]
  by (simp add: demo_cluster_eval demo_offer_def phase_of_def bt_get_def)

end
