(* ===== verification/Labels.thy ===== *)
theory Labels
  imports Gump_Prelude
begin

text \<open>
  Bounded strings, human labels and principal names: \<open>gump-types/src/bounded.rs\<close> and
  \<open>gump-types/src/policy/principal.rs\<close>. The newtypes \<open>BoundedString\<close>, \<open>Label\<close> and \<open>PrincipalId\<close>
  are the strings their constructors let through.
\<close>

datatype label_error =
    LabelEmpty
  | LabelTooLong usize usize
  | InvalidByte usize char
  | LeadingHyphen
  | TrailingHyphen

fun label_error_display :: "label_error \<Rightarrow> string" where
  "label_error_display LabelEmpty = ''label is empty''"
| "label_error_display (LabelTooLong n mx) =
     ''label length '' @ show_nat n @ '' exceeds max '' @ show_nat mx"
| "label_error_display (InvalidByte i b) =
     ''invalid label byte 0x'' @ hex2 (of_char b) @ '' at index '' @ show_nat i"
| "label_error_display LeadingHyphen = ''label must not start with '' @ [char_of (39 :: nat)] @ ''-'' @ [char_of (39 :: nat)]"
| "label_error_display TrailingHyphen = ''label must not end with '' @ [char_of (39 :: nat)] @ ''-'' @ [char_of (39 :: nat)]"

definition bounded_try_from_str :: "usize \<Rightarrow> string \<Rightarrow> label_error + string" where
  "bounded_try_from_str mx s = (if length s > mx then Inl (LabelTooLong (length s) mx) else Inr s)"

definition label_byte :: "char \<Rightarrow> bool" where
  "label_byte c \<longleftrightarrow> (CHR ''a'' \<le> c \<and> c \<le> CHR ''z'') \<or> (CHR ''0'' \<le> c \<and> c \<le> CHR ''9'') \<or> c = CHR ''-''"

fun first_invalid :: "usize \<Rightarrow> string \<Rightarrow> (usize \<times> char) option" where
  "first_invalid i [] = None"
| "first_invalid i (c # cs) = (if label_byte c then first_invalid (i + 1) cs else Some (i, c))"

definition label_parse :: "string \<Rightarrow> label_error + string" where
  "label_parse s =
     (if s = [] then Inl LabelEmpty
      else if length s > 63 then Inl (LabelTooLong (length s) 63)
      else if s ! 0 = CHR ''-'' then Inl LeadingHyphen
      else if s ! (length s - 1) = CHR ''-'' then Inl TrailingHyphen
      else case first_invalid 0 s of
             Some (i, b) \<Rightarrow> Inl (InvalidByte i b)
           | None \<Rightarrow> bounded_try_from_str 63 s)"

definition principal_new :: "string \<Rightarrow> label_error + string" where
  "principal_new s =
     (if s = [] then Inl LabelEmpty
      else if CHR '':'' \<notin> set s then Inl (InvalidByte 0 (CHR ''?''))
      else bounded_try_from_str 256 s)"

section \<open>The label grammar\<close>

text \<open>
  The grammar the comment on \<open>Label\<close> gives, \<open>[a-z0-9]([a-z0-9-]{0,61}[a-z0-9])?\<close>.
\<close>

definition label_alnum :: "char \<Rightarrow> bool" where
  "label_alnum c \<longleftrightarrow> label_byte c \<and> c \<noteq> CHR ''-''"

inductive label_grammar :: "string \<Rightarrow> bool" where
  single: "label_alnum c \<Longrightarrow> label_grammar [c]"
| longer: "label_alnum c \<Longrightarrow> list_all label_byte mid \<Longrightarrow> length mid \<le> 61 \<Longrightarrow> label_alnum d \<Longrightarrow>
    label_grammar (c # mid @ [d])"

lemma first_invalid_None: "first_invalid i s = None \<longleftrightarrow> list_all label_byte s"
  by (induction s arbitrary: i) auto

lemma first_invalid_Some:
  "first_invalid i s = Some (k, c) \<Longrightarrow> i \<le> k \<and> k - i < length s \<and> s ! (k - i) = c \<and> \<not> label_byte c"
proof (induction s arbitrary: i)
  case (Cons a s)
  show ?case
  proof (cases "label_byte a")
    case True
    with Cons.prems Cons.IH [of "i + 1"] have "i + 1 \<le> k \<and> k - (i + 1) < length s \<and> s ! (k - (i + 1)) = c \<and> \<not> label_byte c"
      by simp
    then show ?thesis by (auto simp: nth_Cons' Suc_diff_le)
  qed (use Cons.prems in auto)
qed simp

lemma label_parse_Inr:
  "label_parse s = Inr l \<longleftrightarrow> l = s \<and> s \<noteq> [] \<and> length s \<le> 63 \<and> s ! 0 \<noteq> CHR ''-'' \<and>
     s ! (length s - 1) \<noteq> CHR ''-'' \<and> list_all label_byte s"
  by (auto simp: label_parse_def bounded_try_from_str_def first_invalid_None [of 0, symmetric]
      split: option.splits)

lemma label_grammar_iff:
  "label_grammar s \<longleftrightarrow> s \<noteq> [] \<and> length s \<le> 63 \<and> s ! 0 \<noteq> CHR ''-'' \<and>
     s ! (length s - 1) \<noteq> CHR ''-'' \<and> list_all label_byte s"
proof
  assume "label_grammar s"
  then show "s \<noteq> [] \<and> length s \<le> 63 \<and> s ! 0 \<noteq> CHR ''-'' \<and> s ! (length s - 1) \<noteq> CHR ''-'' \<and> list_all label_byte s"
    by cases (auto simp: label_alnum_def nth_append)
next
  assume s: "s \<noteq> [] \<and> length s \<le> 63 \<and> s ! 0 \<noteq> CHR ''-'' \<and> s ! (length s - 1) \<noteq> CHR ''-'' \<and> list_all label_byte s"
  then obtain c cs where c: "s = c # cs" by (cases s) auto
  show "label_grammar s"
  proof (cases cs rule: rev_cases)
    case Nil
    with s c show ?thesis by (auto intro: label_grammar.intros simp: label_alnum_def)
  next
    case (snoc mid d)
    with s c show ?thesis
      by (auto intro!: label_grammar.longer simp: label_alnum_def nth_append)
  qed
qed

section \<open>Properties\<close>

text \<open>
  A label is accepted exactly when it matches the documented grammar, and is kept unchanged; a
  byte reported as invalid is at the reported index and is not a label byte.
\<close>

theorem label_parse_grammar:
  "(label_parse s = Inr l \<longleftrightarrow> l = s \<and> label_grammar s) \<and>
   (label_parse s = Inl (InvalidByte i c) \<longrightarrow> i < length s \<and> s ! i = c \<and> \<not> label_byte c)"
  using first_invalid_Some [of 0 s i c]
  by (auto simp: label_parse_Inr label_grammar_iff)
    (auto simp: label_parse_def bounded_try_from_str_def split: if_splits option.splits)

theorem label_parse_grammar_witness: "label_parse ''a-1'' = Inr ''a-1'' \<and> label_parse ''aB'' = Inl (InvalidByte 1 (CHR ''B''))"
  using label_parse_grammar [of "''a-1''" "''a-1''"] label_grammar.longer [of "CHR ''a''" "''-''" "CHR ''1''"]
  by (simp add: label_alnum_def label_byte_def label_parse_def less_eq_char_def)

end
