(* ===== verification/Access_Policy.thy ===== *)
theory Access_Policy
  imports Labels
begin

text \<open>
  The authorization policy, \<open>gump-types/src/policy/\<close>: the closed vocabulary of actions, the roles
  as bundles of actions, and the engine that grants, revokes and decides. A \<open>BTreeSet\<close> of actions
  or roles is a set.
\<close>

section \<open>Actions and roles\<close>

datatype action =
    ClusterInitialize
  | ClusterJoin
  | ClusterManage
  | ClusterUnseal
  | WorkloadDeploy
  | WorkloadRead
  | WorkloadAlter
  | WorkloadStop
  | WorkloadForget
  | ExecutionCancel
  | CapsuleInventory
  | CapsuleInspectPublic
  | CapsuleInspectProtectedMetadata
  | CapsuleReintroduce
  | CapsulePurge
  | SecretResolve
  | SecretDeliver
  | TelemetrySubscribe
  | PublicationUse string
  | ConnectorUse string
  | PolicyRead
  | PolicyManage
  | AuditRead
  | HiccupUse
  | HiccupPublish string
  | HiccupListen string

fun action_as_str :: "action \<Rightarrow> string" where
  "action_as_str ClusterInitialize = ''cluster.initialize''"
| "action_as_str ClusterJoin = ''cluster.join''"
| "action_as_str ClusterManage = ''cluster.manage''"
| "action_as_str ClusterUnseal = ''cluster.unseal''"
| "action_as_str WorkloadDeploy = ''workload.deploy''"
| "action_as_str WorkloadRead = ''workload.read''"
| "action_as_str WorkloadAlter = ''workload.alter''"
| "action_as_str WorkloadStop = ''workload.stop''"
| "action_as_str WorkloadForget = ''workload.forget''"
| "action_as_str ExecutionCancel = ''execution.cancel''"
| "action_as_str CapsuleInventory = ''capsule.inventory''"
| "action_as_str CapsuleInspectPublic = ''capsule.inspect_public''"
| "action_as_str CapsuleInspectProtectedMetadata = ''capsule.inspect_protected_metadata''"
| "action_as_str CapsuleReintroduce = ''capsule.reintroduce''"
| "action_as_str CapsulePurge = ''capsule.purge''"
| "action_as_str SecretResolve = ''secret.resolve''"
| "action_as_str SecretDeliver = ''secret.deliver''"
| "action_as_str TelemetrySubscribe = ''telemetry.subscribe''"
| "action_as_str (PublicationUse provider) = ''publication.use:'' @ provider"
| "action_as_str (ConnectorUse name) = ''connector.use:'' @ name"
| "action_as_str PolicyRead = ''policy.read''"
| "action_as_str PolicyManage = ''policy.manage''"
| "action_as_str AuditRead = ''audit.read''"
| "action_as_str HiccupUse = ''hiccup.use''"
| "action_as_str (HiccupPublish topic) = ''hiccup.publish:'' @ topic"
| "action_as_str (HiccupListen topic) = ''hiccup.listen:'' @ topic"

definition coverage_matrix :: "action list" where
  "coverage_matrix =
     [ClusterInitialize, ClusterJoin, ClusterManage, ClusterUnseal, WorkloadDeploy, WorkloadRead,
      WorkloadAlter, WorkloadStop, WorkloadForget, ExecutionCancel, CapsuleInventory,
      CapsuleInspectPublic, CapsuleInspectProtectedMetadata, CapsuleReintroduce, CapsulePurge,
      SecretResolve, SecretDeliver, TelemetrySubscribe, PublicationUse ''kismet'',
      ConnectorUse ''s3'', PolicyRead, PolicyManage, AuditRead, HiccupUse,
      HiccupPublish ''@self'', HiccupListen ''@self'']"

datatype role = Operator | Deployer | Reader | Agent

fun role_actions :: "role \<Rightarrow> action list" where
  "role_actions Operator =
     [ClusterInitialize, ClusterJoin, ClusterManage, ClusterUnseal, PolicyRead, PolicyManage,
      CapsulePurge, AuditRead]"
| "role_actions Deployer =
     [WorkloadDeploy, WorkloadAlter, WorkloadStop, WorkloadForget, WorkloadRead, ExecutionCancel,
      CapsuleInventory, CapsuleInspectPublic, CapsuleReintroduce, PublicationUse ''*'']"
| "role_actions Reader =
     [WorkloadRead, CapsuleInventory, CapsuleInspectPublic, TelemetrySubscribe, PolicyRead, AuditRead]"
| "role_actions Agent =
     [SecretResolve, SecretDeliver, ConnectorUse ''*'', HiccupUse, HiccupPublish ''*'',
      HiccupListen ''*'', CapsuleInspectProtectedMetadata]"

section \<open>The engine\<close>

datatype decision_effect = Allow | Deny

record decision =
  d_effect :: decision_effect
  d_decision_id :: string
  d_action :: action
  d_policy_revision :: u64
  d_reason :: string

definition decision_allowed :: "decision \<Rightarrow> bool" where
  "decision_allowed d \<longleftrightarrow> d_effect d = Allow"

datatype policy_error = UnknownPrincipal | EmptyPrincipal

fun policy_error_display :: "policy_error \<Rightarrow> string" where
  "policy_error_display UnknownPrincipal = ''unknown principal''"
| "policy_error_display EmptyPrincipal = ''empty principal''"

record policy_engine =
  pe_revision :: u64
  pe_grants :: "(string, action set) btree"
  pe_roles :: "(string, role set) btree"
  pe_next_decision :: u64

definition policy_engine_default :: policy_engine where
  "policy_engine_default = \<lparr>pe_revision = 0, pe_grants = [], pe_roles = [], pe_next_decision = 0\<rparr>"

definition policy_bump :: "policy_engine \<Rightarrow> policy_engine" where
  "policy_bump e = e\<lparr>pe_revision := sat_add64 (pe_revision e) 1\<rparr>"

text \<open>\<open>entry(k).or_default()\<close> on a map of sets.\<close>

definition entry_or_default :: "('k :: linorder, 'a set) btree \<Rightarrow> 'k \<Rightarrow> 'a set" where
  "entry_or_default m k = (case bt_get m k of None \<Rightarrow> {} | Some s \<Rightarrow> s)"

definition bind_role :: "string \<Rightarrow> role \<Rightarrow> policy_engine \<Rightarrow> policy_engine" where
  "bind_role p r e = policy_bump
     (e\<lparr>pe_roles := bt_insert p (insert r (entry_or_default (pe_roles e) p)) (pe_roles e)\<rparr>)"

definition policy_grant :: "string \<Rightarrow> action \<Rightarrow> policy_engine \<Rightarrow> policy_engine" where
  "policy_grant p a e = policy_bump
     (e\<lparr>pe_grants := bt_insert p (insert a (entry_or_default (pe_grants e) p)) (pe_grants e)\<rparr>)"

definition revoke_grant :: "string \<Rightarrow> action \<Rightarrow> policy_engine \<Rightarrow> bool \<times> policy_engine" where
  "revoke_grant p a e =
     (case bt_get (pe_grants e) p of
        None \<Rightarrow> (False, e)
      | Some s \<Rightarrow>
          if a \<in> s
          then (True, policy_bump (e\<lparr>pe_grants := bt_insert p (s - {a}) (pe_grants e)\<rparr>))
          else (False, e))"

definition action_matches :: "action \<Rightarrow> action \<Rightarrow> bool" where
  "action_matches pat a =
     (case pat of
        PublicationUse p \<Rightarrow>
          (case a of PublicationUse q \<Rightarrow> p = ''*'' \<or> p = q | _ \<Rightarrow> pat = a)
      | ConnectorUse p \<Rightarrow>
          (case a of ConnectorUse q \<Rightarrow> p = ''*'' \<or> p = q | _ \<Rightarrow> pat = a)
      | HiccupPublish p \<Rightarrow>
          (case a of HiccupPublish q \<Rightarrow> p = ''*'' \<or> p = q | _ \<Rightarrow> pat = a)
      | HiccupListen p \<Rightarrow>
          (case a of HiccupListen q \<Rightarrow> p = ''*'' \<or> p = q | _ \<Rightarrow> pat = a)
      | _ \<Rightarrow> pat = a)"

definition wildcard_match :: "action set \<Rightarrow> action \<Rightarrow> bool" where
  "wildcard_match grants a \<longleftrightarrow> (\<exists>g \<in> grants. action_matches g a)"

definition is_allowed :: "policy_engine \<Rightarrow> string \<Rightarrow> action \<Rightarrow> bool" where
  "is_allowed e p a \<longleftrightarrow>
     (case bt_get (pe_grants e) p of
        None \<Rightarrow> False
      | Some grants \<Rightarrow> a \<in> grants \<or> wildcard_match grants a) \<or>
     (case bt_get (pe_roles e) p of
        None \<Rightarrow> False
      | Some roles \<Rightarrow>
          \<exists>r \<in> roles. \<exists>x \<in> set (role_actions r). x = a \<or> action_matches x a)"

definition authorize :: "string \<Rightarrow> action \<Rightarrow> policy_engine \<Rightarrow> decision \<times> policy_engine" where
  "authorize p a e =
     (let e' = e\<lparr>pe_next_decision := sat_add64 (pe_next_decision e) 1\<rparr>;
          allowed = is_allowed e' p a
      in (\<lparr>d_effect = (if allowed then Allow else Deny),
           d_decision_id = ''pd-'' @ show_nat (pe_next_decision e'),
           d_action = a,
           d_policy_revision = pe_revision e',
           d_reason = (if allowed then ''explicit_grant_or_role'' else ''deny_by_default'')\<rparr>, e'))"

section \<open>Runs and their meaning\<close>

datatype policy_command =
    BindRole string role
  | Grant string action
  | RevokeGrant string action
  | Authorize string action

fun policy_step :: "policy_command \<Rightarrow> policy_engine \<Rightarrow> policy_engine" where
  "policy_step (BindRole p r) e = bind_role p r e"
| "policy_step (Grant p a) e = policy_grant p a e"
| "policy_step (RevokeGrant p a) e = snd (revoke_grant p a e)"
| "policy_step (Authorize p a) e = snd (authorize p a e)"

text \<open>
  What a history of commands means, without maps: the grants in force and the roles bound.
\<close>

fun granted_step :: "policy_command \<Rightarrow> (string \<times> action) set \<Rightarrow> (string \<times> action) set" where
  "granted_step (Grant p a) G = insert (p, a) G"
| "granted_step (RevokeGrant p a) G = G - {(p, a)}"
| "granted_step _ G = G"

fun bound_step :: "policy_command \<Rightarrow> (string \<times> role) set \<Rightarrow> (string \<times> role) set" where
  "bound_step (BindRole p r) R = insert (p, r) R"
| "bound_step _ R = R"

text \<open>A pattern covers an action: equal, or a parameterised action with the scope \<open>*\<close>.\<close>

inductive covers :: "action \<Rightarrow> action \<Rightarrow> bool" where
  "covers a a"
| "covers (PublicationUse ''*'') (PublicationUse x)"
| "covers (ConnectorUse ''*'') (ConnectorUse x)"
| "covers (HiccupPublish ''*'') (HiccupPublish x)"
| "covers (HiccupListen ''*'') (HiccupListen x)"

lemma action_matches_covers: "action_matches g a \<longleftrightarrow> covers g a"
  by (cases g; cases a) (auto simp: action_matches_def covers.simps)

definition policy_rel ::
  "policy_engine \<Rightarrow> (string \<times> action) set \<times> (string \<times> role) set \<Rightarrow> bool" where
  "policy_rel e S \<longleftrightarrow>
     (\<forall>p a. (p, a) \<in> fst S \<longleftrightarrow> a \<in> entry_or_default (pe_grants e) p) \<and>
     (\<forall>p r. (p, r) \<in> snd S \<longleftrightarrow> r \<in> entry_or_default (pe_roles e) p)"

lemma entry_or_default_insert [simp]:
  "entry_or_default (bt_insert k s m) k' = (if k' = k then s else entry_or_default m k')"
  by (simp add: entry_or_default_def bt_simps)

lemma policy_rel_step:
  "policy_rel e (G, R) \<Longrightarrow> policy_rel (policy_step c e) (granted_step c G, bound_step c R)"
  by (cases c)
    (auto simp: policy_rel_def bind_role_def policy_grant_def revoke_grant_def authorize_def policy_bump_def
      Let_def split: option.splits, auto simp: entry_or_default_def)

lemma policy_rel_run:
  "policy_rel e (G, R) \<Longrightarrow> policy_rel (fold policy_step cs e) (fold granted_step cs G, fold bound_step cs R)"
  by (induction cs arbitrary: e G R) (simp_all add: policy_rel_step)

lemma policy_rel_default: "policy_rel policy_engine_default ({}, {})"
  by (simp add: policy_rel_def policy_engine_default_def entry_or_default_def)

lemma covers_refl [simp]: "x = a \<or> covers x a \<longleftrightarrow> covers x a"
  by (auto intro: covers.intros(1))

lemma is_allowed_entry:
  "is_allowed e p a \<longleftrightarrow> (\<exists>g \<in> entry_or_default (pe_grants e) p. covers g a) \<or>
     (\<exists>r \<in> entry_or_default (pe_roles e) p. \<exists>x \<in> set (role_actions r). covers x a)"
proof -
  have "a \<in> S \<or> (\<exists>g \<in> S. covers g a) \<longleftrightarrow> (\<exists>g \<in> S. covers g a)" for S
    by (auto intro: covers.intros(1))
  then show ?thesis
    by (simp add: is_allowed_def wildcard_match_def action_matches_covers entry_or_default_def
        split: option.split)
qed

lemma is_allowed_rel:
  "policy_rel e (G, R) \<Longrightarrow> is_allowed e p a \<longleftrightarrow>
     (\<exists>g. (p, g) \<in> G \<and> covers g a) \<or> (\<exists>r x. (p, r) \<in> R \<and> x \<in> set (role_actions r) \<and> covers x a)"
  by (auto simp: policy_rel_def is_allowed_entry)

section \<open>Properties\<close>

text \<open>
  C26: after every history of policy commands, an action is allowed for a principal exactly when a
  grant that is still in force covers it, or an action of a role bound to that principal covers it;
  everything else is denied by default.
\<close>

theorem authorize_deny_by_default:
  "decision_allowed (fst (authorize p a (fold policy_step cs policy_engine_default))) \<longleftrightarrow>
     (\<exists>g. (p, g) \<in> fold granted_step cs {} \<and> covers g a) \<or>
     (\<exists>r x. (p, r) \<in> fold bound_step cs {} \<and> x \<in> set (role_actions r) \<and> covers x a)"
proof -
  have "is_allowed (e\<lparr>pe_next_decision := n\<rparr>) p a = is_allowed e p a" for e n
    by (simp add: is_allowed_def)
  then show ?thesis
    using is_allowed_rel [OF policy_rel_run [OF policy_rel_default, of cs], of p a]
    by (simp add: decision_allowed_def authorize_def Let_def)
qed

text \<open>
  The wire name of an action identifies it, so two actions are never confused in decisions and
  audit records.
\<close>

theorem action_as_str_inj: "action_as_str a = action_as_str b \<longleftrightarrow> a = b"
  by (cases a; cases b) simp_all

end
