(* ===== verification/Cluster_State.thy ===== *)
theory Cluster_State
  imports Record_Properties Controller_Authority Labels
begin

text \<open>
  The replicated cluster state that every server applies the committed log to,
  \<open>gump-memory/src/cluster_state.rs\<close>: typed records, controller authority, desired declarations,
  completions of finite units and the idempotency receipts, with the snapshot it is restored from.
  A \<open>BTreeSet\<close> of completions is a set; BLAKE3 is the parameter \<open>H\<close>.
\<close>

section \<open>Commands and responses\<close>

definition idempotency_max_entries :: usize where
  "idempotency_max_entries = 100000"

definition idempotency_ttl_ms :: u64 where
  "idempotency_ttl_ms = 24 * 60 * 60 * 1000"

definition desired_max_payload_bytes :: usize where
  "desired_max_payload_bytes = 256 * 1024"

definition desired_max_entries :: usize where
  "desired_max_entries = 8192"

definition desired_max_total_bytes :: usize where
  "desired_max_total_bytes = 64 * 1024 * 1024"

definition finite_completion_max_entries :: usize where
  "finite_completion_max_entries = 100000"

datatype raft_command =
    Record command
  | AcquireController u64
  | PutDesired string string u64 bytes bytes
  | CompleteFinite string string u64 bytes
  | Idempotent bytes bytes raft_command

record apply_outcome =
  ao_revision :: u64
  ao_txn_succeeded :: "bool option"
  ao_lease_id :: "u64 option"
  ao_expired_lease_ids :: "u64 list"
  ao_controller :: "fence_token option"
  ao_desired_generation :: "u64 option"

datatype raft_response =
    Applied apply_outcome
  | Replay raft_response
  | Rejected string

definition outcome_from_result :: "apply_result \<Rightarrow> apply_outcome" where
  "outcome_from_result r =
     \<lparr>ao_revision = ar_revision r, ao_txn_succeeded = ar_txn_succeeded r,
      ao_lease_id = map_option l_id (ar_lease r), ao_expired_lease_ids = ar_expired_lease_ids r,
      ao_controller = None, ao_desired_generation = None\<rparr>"

section \<open>State\<close>

record desired_entry =
  de_generation :: u64
  de_content_digest :: bytes
  de_payload :: bytes

record desired_snapshot_entry =
  ds_namespace :: string
  ds_app :: string
  ds_generation :: u64
  ds_content_digest :: bytes
  ds_payload :: bytes

record idempotency_entry =
  ie_request_digest :: bytes
  ie_response :: raft_response
  ie_recorded_at_ms :: u64

record cluster_state =
  cs_records :: machine
  cs_controller :: controller_authority
  cs_desired :: "(string \<times> string, desired_entry) btree"
  cs_finite_completions :: "(string \<times> string \<times> u64 \<times> bytes) set"
  cs_idempotency :: "(bytes, idempotency_entry) btree"
  cs_idempotency_max_entries :: usize
  cs_idempotency_ttl_ms :: u64
  cs_idempotency_oldest_ms :: "u64 option"
  cs_desired_max_entries :: usize
  cs_desired_max_total_bytes :: usize

definition cluster_state_default :: cluster_state where
  "cluster_state_default =
     \<lparr>cs_records = machine_default, cs_controller = controller_authority_default, cs_desired = [],
      cs_finite_completions = {}, cs_idempotency = [],
      cs_idempotency_max_entries = idempotency_max_entries,
      cs_idempotency_ttl_ms = idempotency_ttl_ms, cs_idempotency_oldest_ms = None,
      cs_desired_max_entries = desired_max_entries,
      cs_desired_max_total_bytes = desired_max_total_bytes\<rparr>"

definition with_idempotency_limits :: "usize \<Rightarrow> u64 \<Rightarrow> cluster_state" where
  "with_idempotency_limits max_entries ttl =
     cluster_state_default\<lparr>cs_idempotency_max_entries := max max_entries 1,
       cs_idempotency_ttl_ms := ttl\<rparr>"

definition with_desired_limits :: "usize \<Rightarrow> usize \<Rightarrow> cluster_state" where
  "with_desired_limits max_entries max_total =
     cluster_state_default\<lparr>cs_desired_max_entries := max max_entries 1,
       cs_desired_max_total_bytes := max max_total 1\<rparr>"

definition desired_generation :: "cluster_state \<Rightarrow> string \<Rightarrow> string \<Rightarrow> u64 option" where
  "desired_generation s ns app = map_option de_generation (bt_get (cs_desired s) (ns, app))"

definition desired_references_digest :: "cluster_state \<Rightarrow> bytes \<Rightarrow> bool" where
  "desired_references_digest s digest \<longleftrightarrow>
     list_ex (\<lambda>e. de_content_digest e = digest) (bt_values (cs_desired s))"

definition desired_content_digests :: "cluster_state \<Rightarrow> bytes list" where
  "desired_content_digests s = remdups_adj (sort (map de_content_digest (bt_values (cs_desired s))))"

definition desired_snapshot :: "cluster_state \<Rightarrow> desired_snapshot_entry list" where
  "desired_snapshot s =
     map (\<lambda>((ns, app), e). \<lparr>ds_namespace = ns, ds_app = app, ds_generation = de_generation e,
            ds_content_digest = de_content_digest e, ds_payload = de_payload e\<rparr>) (cs_desired s)"

definition finite_completed :: "cluster_state \<Rightarrow> string \<Rightarrow> string \<Rightarrow> u64 \<Rightarrow> bytes \<Rightarrow> bool" where
  "finite_completed s ns app g unit_id \<longleftrightarrow> (ns, app, g, unit_id) \<in> cs_finite_completions s"

section \<open>Receipts\<close>

fun list_min :: "('a :: linorder) list \<Rightarrow> 'a option" where
  "list_min [] = None"
| "list_min (x # xs) = (case list_min xs of None \<Rightarrow> Some x | Some y \<Rightarrow> Some (min x y))"

definition recompute_idempotency_oldest :: "cluster_state \<Rightarrow> cluster_state" where
  "recompute_idempotency_oldest s =
     s\<lparr>cs_idempotency_oldest_ms := list_min (map ie_recorded_at_ms (bt_values (cs_idempotency s)))\<rparr>"

definition note_idempotency_time :: "u64 \<Rightarrow> cluster_state \<Rightarrow> cluster_state" where
  "note_idempotency_time t s =
     s\<lparr>cs_idempotency_oldest_ms :=
         Some (case cs_idempotency_oldest_ms s of None \<Rightarrow> t | Some t0 \<Rightarrow> min t0 t)\<rparr>"

definition evict_one_idempotency :: "cluster_state \<Rightarrow> cluster_state" where
  "evict_one_idempotency s =
     (case list_min (map (\<lambda>(i, e). (ie_recorded_at_ms e, i)) (cs_idempotency s)) of
        None \<Rightarrow> s
      | Some (_, oldest_key) \<Rightarrow>
          (case bt_get (cs_idempotency s) oldest_key of
             None \<Rightarrow> s
           | Some removed \<Rightarrow>
               (let s' = s\<lparr>cs_idempotency := bt_remove oldest_key (cs_idempotency s)\<rparr>
                in if cs_idempotency_oldest_ms s' = Some (ie_recorded_at_ms removed)
                   then recompute_idempotency_oldest s' else s')))"

definition expire_idempotency_ttl :: "cluster_state \<Rightarrow> cluster_state" where
  "expire_idempotency_ttl s =
     (let now = tm_now_ms (cs_records s);
          ttl = cs_idempotency_ttl_ms s;
          s1 = (if cs_idempotency_oldest_ms s = None \<and> cs_idempotency s \<noteq> []
                then recompute_idempotency_oldest s else s)
      in case cs_idempotency_oldest_ms s1 of
           None \<Rightarrow> s1
         | Some oldest \<Rightarrow>
             if sat_sub now oldest \<le> ttl then s1
             else recompute_idempotency_oldest
               (s1\<lparr>cs_idempotency := bt_retain (\<lambda>_ e. sat_sub now (ie_recorded_at_ms e) \<le> ttl)
                    (cs_idempotency s1)\<rparr>))"

lemma list_min_Some_in: "list_min xs = Some x \<Longrightarrow> x \<in> set xs"
  by (induction xs arbitrary: x) (auto split: option.splits simp: min_def)

lemma bt_remove_shorter:
  "bt_get m k = Some v \<Longrightarrow> length (bt_remove k m) < length m"
proof -
  assume "bt_get m k = Some v"
  then have "(k, v) \<in> set m" by (auto simp: bt_get_def dest: map_of_SomeD)
  then show ?thesis
    unfolding bt_remove_def by (induction m) (auto simp: less_Suc_eq_le)
qed

text \<open>
  The loop that makes room for one receipt. The constructors keep the ceiling at least one, so a
  table that is full is not empty and every turn removes a receipt; the second half of the guard
  states just that.
\<close>

function evict_while :: "cluster_state \<Rightarrow> cluster_state" where
  "evict_while s =
     (if length (cs_idempotency s) \<ge> cs_idempotency_max_entries s
         \<and> length (cs_idempotency (evict_one_idempotency s)) < length (cs_idempotency s)
      then evict_while (evict_one_idempotency s) else s)"
  by pat_completeness auto
termination
  by (relation "measure (\<lambda>s. length (cs_idempotency s))") auto

declare evict_while.simps [simp del]

section \<open>Applying commands\<close>

definition validate_desired_identity :: "string \<Rightarrow> string \<Rightarrow> string + unit" where
  "validate_desired_identity ns app =
     (case label_parse ns of
        Inl e \<Rightarrow> Inl (''invalid desired namespace: '' @ label_error_display e)
      | Inr _ \<Rightarrow>
        (case label_parse app of
           Inl e \<Rightarrow> Inl (''invalid desired app: '' @ label_error_display e)
         | Inr _ \<Rightarrow> Inr ()))"

definition desired_entry_bytes :: "string \<Rightarrow> string \<Rightarrow> bytes \<Rightarrow> usize" where
  "desired_entry_bytes ns app payload =
     sat_add64 (sat_add64 (length ns) (length app)) (length payload)"

definition desired_total_bytes :: "cluster_state \<Rightarrow> usize" where
  "desired_total_bytes s =
     fold (\<lambda>((ns, app), e) acc. sat_add64 acc (desired_entry_bytes ns app (de_payload e)))
       (cs_desired s) 0"

definition outcome_at :: "machine \<Rightarrow> u64 option \<Rightarrow> fence_token option \<Rightarrow> u64 option \<Rightarrow> raft_response" where
  "outcome_at m lease_id token g =
     Applied \<lparr>ao_revision = tm_revision m, ao_txn_succeeded = None, ao_lease_id = lease_id,
       ao_expired_lease_ids = [], ao_controller = token, ao_desired_generation = g\<rparr>"

definition acquire_controller ::
  "(bytes \<Rightarrow> bytes) \<Rightarrow> u64 \<Rightarrow> cluster_state \<Rightarrow> raft_response \<times> cluster_state" where
  "acquire_controller H holder s =
     (let now = tm_now_ms (cs_records s);
          (token, ca, leases) = ca_acquire H holder now (cs_controller s) (tm_leases (cs_records s));
          m = bump_revision ((cs_records s)\<lparr>tm_leases := leases\<rparr>)
      in (outcome_at m (Some (ft_lease_id token)) (Some token) None,
          s\<lparr>cs_controller := ca, cs_records := m\<rparr>))"

definition put_desired ::
  "string \<Rightarrow> string \<Rightarrow> u64 \<Rightarrow> bytes \<Rightarrow> bytes \<Rightarrow> cluster_state \<Rightarrow> raft_response \<times> cluster_state" where
  "put_desired ns app expected_generation payload content_digest s =
     (case validate_desired_identity ns app of
        Inl msg \<Rightarrow> (Rejected msg, s)
      | Inr _ \<Rightarrow>
        if length payload > desired_max_payload_bytes
        then (Rejected (''desired payload '' @ show_nat (length payload) @ '' exceeds max ''
               @ show_nat desired_max_payload_bytes), s)
        else
        (let prev = bt_get (cs_desired s) (ns, app);
             current = (case prev of None \<Rightarrow> 0 | Some e \<Rightarrow> de_generation e)
         in if current \<noteq> expected_generation
         then (Rejected (''generation conflict: current='' @ show_nat current @ '' expected=''
                @ show_nat expected_generation), s)
         else
         (let next_gen = sat_add64 expected_generation 1
          in if (case prev of None \<Rightarrow> False
                 | Some e \<Rightarrow> de_generation e = next_gen \<and> de_content_digest e \<noteq> content_digest)
          then (Rejected (''divergent content at generation '' @ show_nat next_gen), s)
          else if (case prev of None \<Rightarrow> False
                   | Some e \<Rightarrow> de_generation e = next_gen \<and> de_content_digest e = content_digest)
          then (outcome_at (cs_records s) None None (Some next_gen), s)
          else
          (let incoming = desired_entry_bytes ns app payload;
               previous = (case prev of None \<Rightarrow> 0
                           | Some e \<Rightarrow> desired_entry_bytes ns app (de_payload e));
               is_new_key = (prev = None)
           in if is_new_key \<and> length (cs_desired s) \<ge> cs_desired_max_entries s
           then (Rejected (''desired map full: '' @ show_nat (length (cs_desired s))
                  @ '' entries (max '' @ show_nat (cs_desired_max_entries s) @ '')''), s)
           else
           (let total_after = sat_add64 (sat_sub (desired_total_bytes s) previous) incoming
            in if total_after > cs_desired_max_total_bytes s
            then (Rejected (''desired byte budget exceeded: '' @ show_nat total_after @ '' > ''
                   @ show_nat (cs_desired_max_total_bytes s)), s)
            else
            (let m = bump_revision (cs_records s)
             in (outcome_at m None None (Some next_gen),
                 s\<lparr>cs_finite_completions :=
                     {c \<in> cs_finite_completions s. \<not> (fst c = ns \<and> fst (snd c) = app)},
                   cs_desired := bt_insert (ns, app)
                     \<lparr>de_generation = next_gen, de_content_digest = content_digest,
                      de_payload = payload\<rparr> (cs_desired s),
                   cs_records := m\<rparr>)))))))"

definition complete_finite ::
  "string \<Rightarrow> string \<Rightarrow> u64 \<Rightarrow> bytes \<Rightarrow> cluster_state \<Rightarrow> raft_response \<times> cluster_state" where
  "complete_finite ns app g unit_id s =
     (case validate_desired_identity ns app of
        Inl msg \<Rightarrow> (Rejected msg, s)
      | Inr _ \<Rightarrow>
        (case bt_get (cs_desired s) (ns, app) of
           None \<Rightarrow> (Rejected ''finite completion has no desired execution'', s)
         | Some desired \<Rightarrow>
           if de_generation desired \<noteq> g
           then (Rejected (''finite completion generation conflict: current=''
                  @ show_nat (de_generation desired) @ '' observed='' @ show_nat g), s)
           else if (ns, app, g, unit_id) \<in> cs_finite_completions s
           then (outcome_at (cs_records s) None None (Some g), s)
           else if card (cs_finite_completions s) \<ge> finite_completion_max_entries
           then (Rejected (''finite completion map full: ''
                  @ show_nat (card (cs_finite_completions s)) @ '' entries (max ''
                  @ show_nat finite_completion_max_entries @ '')''), s)
           else
           (let m = bump_revision (cs_records s)
            in (outcome_at m None None (Some g),
                s\<lparr>cs_finite_completions := insert (ns, app, g, unit_id) (cs_finite_completions s),
                  cs_records := m\<rparr>))))"

fun apply_inner ::
  "(bytes \<Rightarrow> bytes) \<Rightarrow> raft_command \<Rightarrow> cluster_state \<Rightarrow> raft_response \<times> cluster_state" where
  "apply_inner H (Record c) s =
     (case apply_command H c (cs_records s) of
        (Inr r, m) \<Rightarrow> (Applied (outcome_from_result r), s\<lparr>cs_records := m\<rparr>)
      | (Inl e, m) \<Rightarrow> (Rejected (apply_error_display e), s\<lparr>cs_records := m\<rparr>))"
| "apply_inner H (AcquireController holder) s = acquire_controller H holder s"
| "apply_inner H (PutDesired ns app g payload digest) s = put_desired ns app g payload digest s"
| "apply_inner H (CompleteFinite ns app g u) s = complete_finite ns app g u s"
| "apply_inner H (Idempotent i d c) s =
     (Rejected ''nested Idempotent must use apply() entrypoint'', s)"

fun is_idempotent :: "raft_command \<Rightarrow> bool" where
  "is_idempotent (Idempotent _ _ _) = True"
| "is_idempotent _ = False"

fun is_applied :: "raft_response \<Rightarrow> bool" where
  "is_applied (Applied _) = True"
| "is_applied _ = False"

definition apply_idempotent ::
  "(bytes \<Rightarrow> bytes) \<Rightarrow> bytes \<Rightarrow> bytes \<Rightarrow> raft_command \<Rightarrow> cluster_state \<Rightarrow> raft_response \<times> cluster_state"
where
  "apply_idempotent H operation_id request_digest inner s =
     (case bt_get (cs_idempotency s) operation_id of
        Some prev \<Rightarrow>
          if ie_request_digest prev = request_digest then (Replay (ie_response prev), s)
          else (Rejected (''idempotency conflict for operation '' @ hex_bytes operation_id), s)
      | None \<Rightarrow>
          if is_idempotent inner then (Rejected ''nested Idempotent commands are not allowed'', s)
          else
          (let (response, s1) = apply_inner H inner s
           in if is_applied response
              then (let s2 = evict_while s1;
                        recorded_at_ms = tm_now_ms (cs_records s2);
                        s3 = s2\<lparr>cs_idempotency := bt_insert operation_id
                              \<lparr>ie_request_digest = request_digest, ie_response = response,
                               ie_recorded_at_ms = recorded_at_ms\<rparr> (cs_idempotency s2)\<rparr>
                    in (response, note_idempotency_time recorded_at_ms s3))
              else (response, s1)))"

definition cluster_apply ::
  "(bytes \<Rightarrow> bytes) \<Rightarrow> raft_command \<Rightarrow> cluster_state \<Rightarrow> raft_response \<times> cluster_state" where
  "cluster_apply H cmd s =
     (let s1 = expire_idempotency_ttl s;
          (response, s2) = (case cmd of
             Idempotent i d inner \<Rightarrow> apply_idempotent H i d inner s1
           | other \<Rightarrow> apply_inner H other s1)
      in (response, expire_idempotency_ttl s2))"

section \<open>Snapshots\<close>

text \<open>
  The fields that are serialised; the others are restored to their defaults, and the index of the
  oldest receipt is recomputed. The byte format belongs to the serialisation library.
\<close>

record cluster_state_wire =
  cw_records :: machine
  cw_controller :: controller_authority
  cw_desired :: "(string \<times> string, desired_entry) btree"
  cw_finite_completions :: "(string \<times> string \<times> u64 \<times> bytes) set"
  cw_idempotency :: "(bytes, idempotency_entry) btree"

definition cluster_serialize :: "cluster_state \<Rightarrow> cluster_state_wire" where
  "cluster_serialize s =
     \<lparr>cw_records = (cs_records s)\<lparr>tm_pending := []\<rparr>, cw_controller = cs_controller s,
      cw_desired = cs_desired s, cw_finite_completions = cs_finite_completions s,
      cw_idempotency = cs_idempotency s\<rparr>"

definition cluster_deserialize :: "cluster_state_wire \<Rightarrow> cluster_state" where
  "cluster_deserialize w = recompute_idempotency_oldest
     \<lparr>cs_records = cw_records w, cs_controller = cw_controller w, cs_desired = cw_desired w,
      cs_finite_completions = cw_finite_completions w, cs_idempotency = cw_idempotency w,
      cs_idempotency_max_entries = idempotency_max_entries,
      cs_idempotency_ttl_ms = idempotency_ttl_ms, cs_idempotency_oldest_ms = None,
      cs_desired_max_entries = desired_max_entries,
      cs_desired_max_total_bytes = desired_max_total_bytes\<rparr>"

section \<open>Receipts: the index of the oldest\<close>

lemma list_min_None [simp]: "list_min xs = None \<longleftrightarrow> xs = []"
  by (cases xs) (auto split: option.splits)

lemma list_min_le: "list_min xs = Some x \<Longrightarrow> y \<in> set xs \<Longrightarrow> x \<le> y"
  by (induction xs arbitrary: x) (auto split: option.splits simp: min_le_iff_disj)

lemma list_min_eq: "x \<in> set xs \<Longrightarrow> (\<And>y. y \<in> set xs \<Longrightarrow> x \<le> y) \<Longrightarrow> list_min xs = Some x"
  by (metis list_min_None list_min_Some_in list_min_le order_antisym option.exhaust empty_iff list.set(1))

lemma list_min_snoc_like:
  "set ys = insert x (set xs) \<Longrightarrow>
     list_min ys = Some (case list_min xs of None \<Rightarrow> x | Some z \<Rightarrow> min z x)"
  by (rule list_min_eq) (auto split: option.splits dest: list_min_Some_in list_min_le simp: min_def)

abbreviation recorded_times :: "cluster_state \<Rightarrow> u64 list" where
  "recorded_times s \<equiv> map ie_recorded_at_ms (bt_values (cs_idempotency s))"

text \<open>Reference expiry: a plain filter of all receipts, without the index.\<close>

definition expire_reference :: "cluster_state \<Rightarrow> cluster_state" where
  "expire_reference s = recompute_idempotency_oldest
     (s\<lparr>cs_idempotency := bt_retain
         (\<lambda>_ e. sat_sub (tm_now_ms (cs_records s)) (ie_recorded_at_ms e) \<le> cs_idempotency_ttl_ms s)
         (cs_idempotency s)\<rparr>)"

definition index_ok :: "cluster_state \<Rightarrow> bool" where
  "index_ok s \<longleftrightarrow> cs_idempotency_oldest_ms s = list_min (recorded_times s)"

lemma index_ok_recompute [simp]: "index_ok (recompute_idempotency_oldest s)"
  by (simp add: index_ok_def recompute_idempotency_oldest_def)

lemma recompute_id: "index_ok s \<Longrightarrow> recompute_idempotency_oldest s = s"
  by (simp add: index_ok_def recompute_idempotency_oldest_def)

lemma recompute_fields [simp]:
  "cs_records (recompute_idempotency_oldest s) = cs_records s"
  "cs_controller (recompute_idempotency_oldest s) = cs_controller s"
  "cs_desired (recompute_idempotency_oldest s) = cs_desired s"
  "cs_finite_completions (recompute_idempotency_oldest s) = cs_finite_completions s"
  "cs_idempotency (recompute_idempotency_oldest s) = cs_idempotency s"
  "cs_idempotency_max_entries (recompute_idempotency_oldest s) = cs_idempotency_max_entries s"
  "cs_idempotency_ttl_ms (recompute_idempotency_oldest s) = cs_idempotency_ttl_ms s"
  "cs_desired_max_entries (recompute_idempotency_oldest s) = cs_desired_max_entries s"
  "cs_desired_max_total_bytes (recompute_idempotency_oldest s) = cs_desired_max_total_bytes s"
  by (simp_all add: recompute_idempotency_oldest_def)

lemma sat_sub_antimono: "a \<le> b \<Longrightarrow> sat_sub n b \<le> sat_sub n a"
  by (simp add: sat_sub_def)

lemma expire_is_reference:
  assumes "index_ok s"
  shows "expire_idempotency_ttl s = expire_reference s"
proof (cases "cs_idempotency_oldest_ms s")
  case None
  with assms have "list_min (recorded_times s) = None" by (simp add: index_ok_def)
  then have "cs_idempotency s = []" by (simp add: bt_values_def)
  with None assms show ?thesis
    by (simp add: expire_idempotency_ttl_def expire_reference_def bt_retain_def Let_def)
      (simp add: recompute_idempotency_oldest_def bt_values_def)
next
  case (Some oldest)
  let ?n = "tm_now_ms (cs_records s)" and ?t = "cs_idempotency_ttl_ms s"
  show ?thesis
  proof (cases "sat_sub ?n oldest \<le> ?t")
    case True
    have "sat_sub ?n (ie_recorded_at_ms e) \<le> ?t" if "(i, e) \<in> set (cs_idempotency s)" for i e
    proof -
      have "oldest \<le> ie_recorded_at_ms e"
        using that assms Some by (intro list_min_le [of "recorded_times s"]) (force simp: index_ok_def bt_values_def)+
      then show ?thesis using True sat_sub_antimono order_trans by blast
    qed
    then have "bt_retain (\<lambda>_ e. sat_sub ?n (ie_recorded_at_ms e) \<le> ?t) (cs_idempotency s) = cs_idempotency s"
      unfolding bt_retain_def by (intro filter_True) auto
    with Some True assms show ?thesis
      by (simp add: expire_idempotency_ttl_def expire_reference_def Let_def recompute_id)
  next
    case False
    with Some show ?thesis
      by (simp add: expire_idempotency_ttl_def expire_reference_def Let_def)
  qed
qed

lemma expire_reference_fields [simp]:
  "cs_records (expire_reference s) = cs_records s"
  "cs_controller (expire_reference s) = cs_controller s"
  "cs_desired (expire_reference s) = cs_desired s"
  "cs_finite_completions (expire_reference s) = cs_finite_completions s"
  "cs_idempotency_max_entries (expire_reference s) = cs_idempotency_max_entries s"
  "cs_idempotency_ttl_ms (expire_reference s) = cs_idempotency_ttl_ms s"
  "cs_desired_max_entries (expire_reference s) = cs_desired_max_entries s"
  "cs_desired_max_total_bytes (expire_reference s) = cs_desired_max_total_bytes s"
  "index_ok (expire_reference s)"
  by (simp_all add: expire_reference_def)

lemma expire_reference_idem: "expire_reference (expire_reference s) = expire_reference s"
  by (simp add: expire_reference_def recompute_idempotency_oldest_def bt_retain_def)

lemma evict_one_nonempty:
  assumes "index_ok s" "bt_ok (cs_idempotency s)" "cs_idempotency s \<noteq> []"
  obtains k e where "bt_get (cs_idempotency s) k = Some e"
    "\<And>i x. bt_get (cs_idempotency s) i = Some x \<Longrightarrow> (ie_recorded_at_ms e, k) \<le> (ie_recorded_at_ms x, i)"
    "evict_one_idempotency s =
       recompute_idempotency_oldest (s\<lparr>cs_idempotency := bt_remove k (cs_idempotency s)\<rparr>)"
proof -
  let ?xs = "map (\<lambda>(i, e). (ie_recorded_at_ms e, i)) (cs_idempotency s)"
  obtain t k where m: "list_min ?xs = Some (t, k)" using assms(3) by (cases "list_min ?xs") auto
  then have "(t, k) \<in> set ?xs" by (rule list_min_Some_in)
  then obtain e where e: "(k, e) \<in> set (cs_idempotency s)" "t = ie_recorded_at_ms e" by auto
  then have g: "bt_get (cs_idempotency s) k = Some e" using assms(2) by (simp add: bt_in_set_iff)
  have le: "(ie_recorded_at_ms e, k) \<le> (ie_recorded_at_ms x, i)"
    if "bt_get (cs_idempotency s) i = Some x" for i x
  proof (rule list_min_le [OF m [unfolded e(2)]])
    show "(ie_recorded_at_ms x, i) \<in> set ?xs" using that assms(2) by (force simp: bt_in_set_iff [symmetric])
  qed
  have "list_min (recorded_times s) = Some (ie_recorded_at_ms e)"
  proof (rule list_min_eq)
    show "ie_recorded_at_ms e \<in> set (recorded_times s)" using e(1) by (force simp: bt_values_def)
    show "ie_recorded_at_ms e \<le> y" if "y \<in> set (recorded_times s)" for y
      using that le assms(2) by (fastforce simp: bt_values_def bt_in_set_iff less_eq_prod_def)
  qed
  then have "evict_one_idempotency s =
       recompute_idempotency_oldest (s\<lparr>cs_idempotency := bt_remove k (cs_idempotency s)\<rparr>)"
    using assms(1) by (simp add: evict_one_idempotency_def m g Let_def index_ok_def)
  with g le show ?thesis using that by blast
qed

end
