(* ===== verification/Cluster_Invariant.thy ===== *)
theory Cluster_Invariant
  imports Cluster_State
begin

text \<open>
  The invariant of the replicated cluster state, and that every command keeps it. Outside the
  receipts a command does what one inner command does (\<open>cluster_step_body\<close>), which reduces the
  properties of the other components to the inner commands.
\<close>

section \<open>Making room for a receipt\<close>

definition receipts_ok :: "cluster_state \<Rightarrow> bool" where
  "receipts_ok s \<longleftrightarrow> bt_ok (cs_idempotency s) \<and> index_ok s \<and>
     length (cs_idempotency s) \<le> cs_idempotency_max_entries s \<and> 1 \<le> cs_idempotency_max_entries s \<and>
     (\<forall>i e. bt_get (cs_idempotency s) i = Some e \<longrightarrow>
        ie_recorded_at_ms e \<le> tm_now_ms (cs_records s) \<and> is_applied (ie_response e))"

text \<open>Everything but the receipts and their index.\<close>

definition same_body :: "cluster_state \<Rightarrow> cluster_state \<Rightarrow> bool" where
  "same_body s s' \<longleftrightarrow> s' = s\<lparr>cs_idempotency := cs_idempotency s',
     cs_idempotency_oldest_ms := cs_idempotency_oldest_ms s'\<rparr>"

lemma same_body_refl [simp]: "same_body s s"
  by (simp add: same_body_def)

lemma same_body_fields:
  assumes "same_body s s'"
  shows "cs_records s' = cs_records s" "cs_controller s' = cs_controller s" "cs_desired s' = cs_desired s"
    "cs_finite_completions s' = cs_finite_completions s"
    "cs_idempotency_max_entries s' = cs_idempotency_max_entries s"
    "cs_idempotency_ttl_ms s' = cs_idempotency_ttl_ms s"
    "cs_desired_max_entries s' = cs_desired_max_entries s"
    "cs_desired_max_total_bytes s' = cs_desired_max_total_bytes s"
  using arg_cong [OF assms [unfolded same_body_def], of cs_records]
    arg_cong [OF assms [unfolded same_body_def], of cs_controller]
    arg_cong [OF assms [unfolded same_body_def], of cs_desired]
    arg_cong [OF assms [unfolded same_body_def], of cs_finite_completions]
    arg_cong [OF assms [unfolded same_body_def], of cs_idempotency_max_entries]
    arg_cong [OF assms [unfolded same_body_def], of cs_idempotency_ttl_ms]
    arg_cong [OF assms [unfolded same_body_def], of cs_desired_max_entries]
    arg_cong [OF assms [unfolded same_body_def], of cs_desired_max_total_bytes]
  by simp_all

lemma same_body_trans: "same_body s s' \<Longrightarrow> same_body s' s'' \<Longrightarrow> same_body s s''"
  unfolding same_body_def by (metis (no_types, lifting) cluster_state.surjective cluster_state.update_convs(5,8))

lemma same_body_expire [simp]: "same_body s (expire_reference s)"
  by (simp add: same_body_def expire_reference_def recompute_idempotency_oldest_def)

lemma evict_one_ok:
  assumes "index_ok s" "bt_ok (cs_idempotency s)" "cs_idempotency s \<noteq> []"
  shows "index_ok (evict_one_idempotency s)" "bt_ok (cs_idempotency (evict_one_idempotency s))"
    "length (cs_idempotency (evict_one_idempotency s)) = length (cs_idempotency s) - 1"
    "same_body s (evict_one_idempotency s)"
    "bt_get (cs_idempotency (evict_one_idempotency s)) i = Some e \<Longrightarrow> bt_get (cs_idempotency s) i = Some e"
proof -
  obtain k x where k: "bt_get (cs_idempotency s) k = Some x"
    and e: "evict_one_idempotency s =
       recompute_idempotency_oldest (s\<lparr>cs_idempotency := bt_remove k (cs_idempotency s)\<rparr>)"
    using evict_one_nonempty [OF assms] by metis
  show "index_ok (evict_one_idempotency s)" "bt_ok (cs_idempotency (evict_one_idempotency s))"
    "length (cs_idempotency (evict_one_idempotency s)) = length (cs_idempotency s) - 1"
    "same_body s (evict_one_idempotency s)"
    using assms k unfolding e
    by (simp_all add: bt_intros bt_length_remove bt_has_def same_body_def)
  show "bt_get (cs_idempotency (evict_one_idempotency s)) i = Some e \<Longrightarrow> bt_get (cs_idempotency s) i = Some e"
    unfolding e by (simp add: bt_simps split: if_splits)
qed

lemma evict_while_ok:
  assumes "index_ok s" "bt_ok (cs_idempotency s)" "1 \<le> cs_idempotency_max_entries s"
  shows "index_ok (evict_while s) \<and> bt_ok (cs_idempotency (evict_while s)) \<and>
    length (cs_idempotency (evict_while s)) < cs_idempotency_max_entries s \<and> same_body s (evict_while s) \<and>
    (\<forall>i e. bt_get (cs_idempotency (evict_while s)) i = Some e \<longrightarrow> bt_get (cs_idempotency s) i = Some e)"
  using assms
proof (induction s rule: evict_while.induct)
  case (1 s)
  show ?case
  proof (cases "length (cs_idempotency s) \<ge> cs_idempotency_max_entries s")
    case True
    with "1.prems"(3) have ne: "cs_idempotency s \<noteq> []" by auto
    note one = evict_one_ok [OF "1.prems"(1,2) ne]
    from ne have shorter: "length (cs_idempotency (evict_one_idempotency s)) < length (cs_idempotency s)"
      by (simp add: one(3))
    have mx: "cs_idempotency_max_entries (evict_one_idempotency s) = cs_idempotency_max_entries s"
      using same_body_fields(5) [OF one(4)] .
    have "evict_while s = evict_while (evict_one_idempotency s)"
      using True shorter by (subst evict_while.simps) simp
    moreover note "1.IH" [OF conjI [OF True shorter] one(1,2), unfolded mx, OF "1.prems"(3)]
    ultimately show ?thesis using one(4,5) same_body_trans by (auto simp: mx)
  next
    case False
    then have "evict_while s = s" by (subst evict_while.simps) simp
    with False "1.prems" show ?thesis by simp
  qed
qed

lemma evict_while_room: "length (cs_idempotency s) < cs_idempotency_max_entries s \<Longrightarrow> evict_while s = s"
  by (subst evict_while.simps) simp

section \<open>Invariant\<close>

definition entry_bytes :: "string \<times> string \<Rightarrow> desired_entry \<Rightarrow> nat" where
  "entry_bytes k e = length (fst k) + length (snd k) + length (de_payload e)"

definition desired_ok :: "cluster_state \<Rightarrow> bool" where
  "desired_ok s \<longleftrightarrow> bt_ok (cs_desired s) \<and> length (cs_desired s) \<le> cs_desired_max_entries s \<and>
     bt_sum entry_bytes (cs_desired s) \<le> cs_desired_max_total_bytes s \<and>
     cs_desired_max_total_bytes s < u64_max \<and>
     (\<forall>k e. bt_get (cs_desired s) k = Some e \<longrightarrow> de_generation e \<le> u64_max)"

definition completions_ok :: "cluster_state \<Rightarrow> bool" where
  "completions_ok s \<longleftrightarrow> finite (cs_finite_completions s) \<and>
     card (cs_finite_completions s) \<le> finite_completion_max_entries \<and>
     (\<forall>ns app g u. (ns, app, g, u) \<in> cs_finite_completions s \<longrightarrow> desired_generation s ns app = Some g)"

definition cluster_ok :: "(bytes \<Rightarrow> bytes) \<Rightarrow> cluster_state \<Rightarrow> bool" where
  "cluster_ok H s \<longleftrightarrow> machine_ok H (cs_records s) \<and> receipts_ok s \<and> desired_ok s \<and> completions_ok s"

text \<open>The bytes as the code adds them up are the plain sum, as long as that fits.\<close>

lemma desired_total_bytes_sum: "desired_total_bytes s = min u64_max (bt_sum entry_bytes (cs_desired s))"
proof -
  have "fold (\<lambda>((ns, app), e) acc. sat_add64 acc (desired_entry_bytes ns app (de_payload e))) m a =
      min u64_max (a + bt_sum entry_bytes m)" if "a \<le> u64_max" for m a
    using that
    by (induction m arbitrary: a)
      (auto simp: bt_sum_def desired_entry_bytes_def entry_bytes_def sat_add64_def min_def split: prod.splits)
  then show ?thesis by (simp add: desired_total_bytes_def)
qed

lemma machine_ok_bump: "machine_ok H m \<Longrightarrow> machine_ok H (bump_revision m)"
  by (auto simp: machine_ok_def bump_revision_core_ok)

text \<open>
  What every inner command keeps: the receipts, their index and all limits; the committed clock does
  not go back.
\<close>

definition same_receipts :: "cluster_state \<Rightarrow> cluster_state \<Rightarrow> bool" where
  "same_receipts s s' \<longleftrightarrow> cs_idempotency s' = cs_idempotency s \<and>
     cs_idempotency_oldest_ms s' = cs_idempotency_oldest_ms s \<and>
     cs_idempotency_max_entries s' = cs_idempotency_max_entries s \<and>
     cs_idempotency_ttl_ms s' = cs_idempotency_ttl_ms s \<and>
     cs_desired_max_entries s' = cs_desired_max_entries s \<and>
     cs_desired_max_total_bytes s' = cs_desired_max_total_bytes s \<and>
     tm_now_ms (cs_records s) \<le> tm_now_ms (cs_records s')"

lemma bump_now [simp]: "tm_now_ms (bump_revision m) = tm_now_ms m"
  by (simp add: bump_revision_def)

lemma put_desired_cases:
  obtains (refused) msg where "put_desired ns app g payload d s = (Rejected msg, s)"
  | (again) e where "bt_get (cs_desired s) (ns, app) = Some e" "de_generation e = g" "g = sat_add64 g 1"
      "de_content_digest e = d"
      "put_desired ns app g payload d s = (outcome_at (cs_records s) None None (Some g), s)"
  | (accepted) "label_grammar ns" "label_grammar app" "length payload \<le> desired_max_payload_bytes"
      "(case bt_get (cs_desired s) (ns, app) of None \<Rightarrow> 0 | Some e \<Rightarrow> de_generation e) = g"
      "bt_get (cs_desired s) (ns, app) = None \<longrightarrow> length (cs_desired s) < cs_desired_max_entries s"
      "sat_add64 (sat_sub (desired_total_bytes s)
         (case bt_get (cs_desired s) (ns, app) of None \<Rightarrow> 0
          | Some e \<Rightarrow> desired_entry_bytes ns app (de_payload e)))
         (desired_entry_bytes ns app payload) \<le> cs_desired_max_total_bytes s"
      "put_desired ns app g payload d s =
        (outcome_at (bump_revision (cs_records s)) None None (Some (sat_add64 g 1)),
         s\<lparr>cs_finite_completions := {c \<in> cs_finite_completions s. \<not> (fst c = ns \<and> fst (snd c) = app)},
           cs_desired := bt_insert (ns, app)
             \<lparr>de_generation = sat_add64 g 1, de_content_digest = d, de_payload = payload\<rparr> (cs_desired s),
           cs_records := bump_revision (cs_records s)\<rparr>)"
proof -
  have valid: "label_grammar ns \<and> label_grammar app" if "validate_desired_identity ns app = Inr u" for u
    using that label_parse_Inr label_grammar_iff
    by (auto simp: validate_desired_identity_def split: sum.splits)
  show ?thesis
  proof (cases "is_applied (fst (put_desired ns app g payload d s))")
    case False
    then show ?thesis
      by (intro refused [of "case fst (put_desired ns app g payload d s) of Rejected msg \<Rightarrow> msg"])
        (auto simp: put_desired_def Let_def outcome_at_def split: sum.splits if_splits option.splits)
  next
    case True
    show ?thesis
    proof (cases "bt_get (cs_desired s) (ns, app)")
      case None
      with True valid accepted show ?thesis
        by (auto simp: put_desired_def Let_def split: sum.splits if_splits)
    next
      case (Some e)
      show ?thesis
      proof (cases "de_generation e = sat_add64 g 1")
        case eq: True
        with True Some have "de_generation e = g" "de_content_digest e = d"
          by (auto simp: put_desired_def Let_def split: sum.splits if_splits)
        with eq Some True show ?thesis
          by (intro again [of e]) (auto simp: put_desired_def Let_def split: sum.splits if_splits)
      next
        case neq: False
        with True Some valid accepted show ?thesis
          by (auto simp: put_desired_def Let_def split: sum.splits if_splits)
      qed
    qed
  qed
qed

lemma desired_bytes_accepted:
  assumes "desired_ok s"
    and "sat_add64 (sat_sub (desired_total_bytes s)
         (case bt_get (cs_desired s) (ns, app) of None \<Rightarrow> 0
          | Some e \<Rightarrow> desired_entry_bytes ns app (de_payload e)))
         (desired_entry_bytes ns app payload) \<le> cs_desired_max_total_bytes s"
    and "de_payload e' = payload"
  shows "bt_sum entry_bytes (bt_insert (ns, app) e' (cs_desired s)) \<le> cs_desired_max_total_bytes s"
proof -
  let ?m = "cs_desired s" and ?k = "(ns, app)"
  have ok: "bt_ok ?m" and small: "bt_sum entry_bytes ?m < u64_max" "cs_desired_max_total_bytes s < u64_max"
    using assms(1) by (auto simp: desired_ok_def)
  have split: "bt_sum entry_bytes ?m = (case bt_get ?m ?k of None \<Rightarrow> 0 | Some e \<Rightarrow> entry_bytes ?k e) + bt_sum entry_bytes (bt_remove ?k ?m)"
    by (rule bt_sum_split [OF ok])
  have e: "desired_entry_bytes ns app p = min u64_max (length ns + length app + length p)" for p
    by (auto simp: desired_entry_bytes_def sat_add64_def min_def)
  have "desired_total_bytes s = bt_sum entry_bytes ?m" using small by (simp add: desired_total_bytes_sum)
  moreover have "(case bt_get ?m ?k of None \<Rightarrow> 0 | Some e \<Rightarrow> desired_entry_bytes ns app (de_payload e)) =
      (case bt_get ?m ?k of None \<Rightarrow> 0 | Some e \<Rightarrow> entry_bytes ?k e)"
    using split small by (cases "bt_get ?m ?k") (auto simp: e entry_bytes_def)
  ultimately have "sat_sub (desired_total_bytes s)
         (case bt_get ?m ?k of None \<Rightarrow> 0 | Some e \<Rightarrow> desired_entry_bytes ns app (de_payload e)) =
       bt_sum entry_bytes (bt_remove ?k ?m)"
    using split by (simp add: sat_sub_def)
  with assms(2) small have "bt_sum entry_bytes (bt_remove ?k ?m) + (length ns + length app + length payload)
      \<le> cs_desired_max_total_bytes s"
    by (auto simp: sat_add64_def e min_def split: if_splits)
  then show ?thesis using assms(3) by (simp add: bt_sum_insert [OF ok] entry_bytes_def)
qed

lemma put_desired_ok:
  assumes "cluster_ok H s"
  shows "cluster_ok H (snd (put_desired ns app g payload d s)) \<and>
    same_receipts s (snd (put_desired ns app g payload d s))"
proof (cases rule: put_desired_cases [of ns app g payload d s])
  case accepted
  let ?s = "snd (put_desired ns app g payload d s)"
  have c: "machine_ok H (cs_records s)" "receipts_ok s" "desired_ok s" "completions_ok s"
    using assms by (auto simp: cluster_ok_def)
  have "desired_ok ?s"
    unfolding desired_ok_def accepted(7)
    using c(3) accepted(5) desired_bytes_accepted [OF c(3) accepted(6)]
    by (auto simp: desired_ok_def bt_intros bt_length_insert bt_has_def bt_simps)
  moreover have "completions_ok ?s"
  proof -
    have "card {c \<in> cs_finite_completions s. \<not> (fst c = ns \<and> fst (snd c) = app)} \<le> card (cs_finite_completions s)"
      using c(4) by (intro card_mono) (auto simp: completions_ok_def)
    then show ?thesis
      using c(4) unfolding accepted(7) completions_ok_def by (auto simp: desired_generation_def bt_simps)
  qed
  ultimately show ?thesis
    using c(1,2) accepted(7) by (auto simp: cluster_ok_def machine_ok_bump receipts_ok_def index_ok_def same_receipts_def)
qed (use assms in \<open>simp_all add: same_receipts_def\<close>)

lemma complete_finite_ok:
  assumes "cluster_ok H s"
  shows "cluster_ok H (snd (complete_finite ns app g u s)) \<and> same_receipts s (snd (complete_finite ns app g u s))"
proof (cases "snd (complete_finite ns app g u s) = s")
  case False
  then have acc: "desired_generation s ns app = Some g" "(ns, app, g, u) \<notin> cs_finite_completions s"
    "card (cs_finite_completions s) < finite_completion_max_entries"
    "snd (complete_finite ns app g u s) =
       s\<lparr>cs_finite_completions := insert (ns, app, g, u) (cs_finite_completions s),
         cs_records := bump_revision (cs_records s)\<rparr>"
    by (auto simp: complete_finite_def desired_generation_def Let_def split: sum.splits option.splits if_splits)
  have c: "machine_ok H (cs_records s)" "receipts_ok s" "desired_ok s" "completions_ok s"
    using assms by (auto simp: cluster_ok_def)
  show ?thesis
    unfolding acc(4) using c acc(1-3)
    by (auto simp: cluster_ok_def machine_ok_bump receipts_ok_def index_ok_def same_receipts_def desired_ok_def
        completions_ok_def desired_generation_def)
qed (use assms in \<open>simp add: same_receipts_def\<close>)

lemma acquire_controller_ok:
  assumes "cluster_ok H s"
  shows "cluster_ok H (snd (acquire_controller H holder s)) \<and> same_receipts s (snd (acquire_controller H holder s))"
proof -
  obtain token ca leases where a: "ca_acquire H holder (tm_now_ms (cs_records s)) (cs_controller s)
      (tm_leases (cs_records s)) = (token, ca, leases)" by (metis prod_cases3)
  have c: "machine_ok H (cs_records s)" "receipts_ok s" "desired_ok s" "completions_ok s"
    using assms by (auto simp: cluster_ok_def)
  have "lease_ok leases"
    using ca_acquire_simps(4) [OF a] c(1) core_okD(9) [of H "cs_records s"]
    by (simp add: lease_grant_ok machine_ok_def)
  then have "machine_ok H (bump_revision ((cs_records s)\<lparr>tm_leases := leases\<rparr>))"
    using c(1) by (simp add: machine_ok_bump machine_ok_leases)
  then show ?thesis
    using c by (auto simp: acquire_controller_def a Let_def cluster_ok_def receipts_ok_def index_ok_def
        same_receipts_def desired_ok_def completions_ok_def desired_generation_def)
qed

lemma apply_inner_ok:
  assumes "cluster_ok H s"
  shows "cluster_ok H (snd (apply_inner H c s)) \<and> same_receipts s (snd (apply_inner H c s))"
proof (cases c)
  case (Record rc)
  obtain r m where rm: "apply_command H rc (cs_records s) = (r, m)" by fastforce
  have ok: "machine_ok H (cs_records s)" using assms by (simp add: cluster_ok_def)
  have "machine_ok H m" "tm_now_ms (cs_records s) \<le> tm_now_ms m"
    using apply_command_ok [OF ok, of rc] apply_command_no_rollback [OF ok, of rc] rm
    by (auto simp: no_rollback_def)
  then show ?thesis
    using assms Record rm
    by (auto simp: cluster_ok_def receipts_ok_def index_ok_def same_receipts_def desired_ok_def
        completions_ok_def desired_generation_def split: sum.splits dest: order_trans)
qed (use assms put_desired_ok complete_finite_ok acquire_controller_ok in \<open>simp_all add: same_receipts_def\<close>)

lemma cluster_okD:
  assumes "cluster_ok H s"
  shows "machine_ok H (cs_records s)" "receipts_ok s" "desired_ok s" "completions_ok s" "index_ok s"
    "bt_ok (cs_idempotency s)" "1 \<le> cs_idempotency_max_entries s"
    "length (cs_idempotency s) \<le> cs_idempotency_max_entries s"
  using assms by (auto simp: cluster_ok_def receipts_ok_def)

lemma cluster_ok_body:
  assumes "cluster_ok H s" "same_body s s'" "bt_ok (cs_idempotency s')" "index_ok s'"
    and "length (cs_idempotency s') \<le> cs_idempotency_max_entries s"
    and "\<And>i e. bt_get (cs_idempotency s') i = Some e \<Longrightarrow>
      bt_get (cs_idempotency s) i = Some e \<or>
      ie_recorded_at_ms e \<le> tm_now_ms (cs_records s) \<and> is_applied (ie_response e)"
  shows "cluster_ok H s'"
  using assms(1,3-6) same_body_fields [OF assms(2)] unfolding cluster_ok_def receipts_ok_def
  by (fastforce simp: desired_ok_def completions_ok_def desired_generation_def)

lemma bt_get_expire:
  "bt_ok (cs_idempotency s) \<Longrightarrow> bt_get (cs_idempotency (expire_reference s)) i =
     (case bt_get (cs_idempotency s) i of
        None \<Rightarrow> None
      | Some e \<Rightarrow> if sat_sub (tm_now_ms (cs_records s)) (ie_recorded_at_ms e) \<le> cs_idempotency_ttl_ms s
                  then Some e else None)"
  by (auto simp: expire_reference_def bt_get_retain split: option.splits)

lemma expire_reference_ok:
  assumes "cluster_ok H s"
  shows "cluster_ok H (expire_reference s)"
proof (rule cluster_ok_body [OF assms same_body_expire])
  note d = cluster_okD [OF assms]
  show "bt_ok (cs_idempotency (expire_reference s))"
    using d(6) by (simp add: expire_reference_def bt_intros)
  show "length (cs_idempotency (expire_reference s)) \<le> cs_idempotency_max_entries s"
    using d(8) bt_length_retain_le order_trans by (fastforce simp: expire_reference_def)
  show "bt_get (cs_idempotency s) i = Some e \<or>
      ie_recorded_at_ms e \<le> tm_now_ms (cs_records s) \<and> is_applied (ie_response e)"
    if "bt_get (cs_idempotency (expire_reference s)) i = Some e" for i e
    using that by (simp add: bt_get_expire [OF d(6)] split: option.splits if_splits)
qed simp

lemma set_bt_insert_new: "bt_get m k = None \<Longrightarrow> set (bt_insert k v m) = insert (k, v) (set m)"
  by (induction m) (auto simp: bt_get_def split: if_splits)

text \<open>Recording a receipt once there is room for it.\<close>

definition record_receipt :: "bytes \<Rightarrow> bytes \<Rightarrow> raft_response \<Rightarrow> cluster_state \<Rightarrow> cluster_state" where
  "record_receipt i d r s =
     (let s2 = evict_while s;
          e = \<lparr>ie_request_digest = d, ie_response = r, ie_recorded_at_ms = tm_now_ms (cs_records s2)\<rparr>
      in note_idempotency_time (tm_now_ms (cs_records s2))
           (s2\<lparr>cs_idempotency := bt_insert i e (cs_idempotency s2)\<rparr>))"

lemma record_receipt_facts:
  assumes "cluster_ok H s" and "bt_get (cs_idempotency s) i = None"
  shows "same_body s (record_receipt i d r s)"
    "bt_get (cs_idempotency (record_receipt i d r s)) i =
       Some \<lparr>ie_request_digest = d, ie_response = r, ie_recorded_at_ms = tm_now_ms (cs_records s)\<rparr>"
    "is_applied r \<Longrightarrow> cluster_ok H (record_receipt i d r s)"
proof -
  note d = cluster_okD [OF assms(1)]
  let ?s2 = "evict_while s" and ?s3 = "record_receipt i d r s"
  have e: "index_ok ?s2" "bt_ok (cs_idempotency ?s2)" "length (cs_idempotency ?s2) < cs_idempotency_max_entries s"
    "same_body s ?s2" "\<And>k x. bt_get (cs_idempotency ?s2) k = Some x \<Longrightarrow> bt_get (cs_idempotency s) k = Some x"
    using evict_while_ok [OF d(5,6,7)] by blast+
  note f = same_body_fields [OF e(4)]
  have new: "bt_get (cs_idempotency ?s2) i = None" using e(5) [of i] assms(2) by (cases "bt_get (cs_idempotency ?s2) i") auto
  have s3: "cs_idempotency ?s3 = bt_insert i \<lparr>ie_request_digest = d, ie_response = r,
      ie_recorded_at_ms = tm_now_ms (cs_records s)\<rparr> (cs_idempotency ?s2)"
    by (simp add: record_receipt_def note_idempotency_time_def Let_def f)
  have "set (recorded_times ?s3) = insert (tm_now_ms (cs_records s)) (set (recorded_times ?s2))"
    unfolding s3 by (simp add: bt_values_def set_bt_insert_new [OF new])
  then have idx: "index_ok ?s3"
    using e(1) list_min_snoc_like [of "recorded_times ?s3" "tm_now_ms (cs_records s)" "recorded_times ?s2"]
    by (simp add: index_ok_def record_receipt_def note_idempotency_time_def Let_def f split: option.splits)
  show sb: "same_body s ?s3"
    by (rule same_body_trans [OF e(4)]) (simp add: same_body_def record_receipt_def note_idempotency_time_def Let_def)
  show g: "bt_get (cs_idempotency ?s3) i =
       Some \<lparr>ie_request_digest = d, ie_response = r, ie_recorded_at_ms = tm_now_ms (cs_records s)\<rparr>"
    by (simp add: s3 bt_simps)
  show "cluster_ok H ?s3" if "is_applied r"
    by (rule cluster_ok_body [OF assms(1) sb _ idx])
      (use e new that in \<open>auto simp: s3 bt_intros bt_simps bt_length_insert bt_has_def split: if_splits\<close>)
qed

lemma apply_idempotent_unfold:
  "apply_idempotent H i d inner s =
     (case bt_get (cs_idempotency s) i of
        Some prev \<Rightarrow>
          if ie_request_digest prev = d then (Replay (ie_response prev), s)
          else (Rejected (''idempotency conflict for operation '' @ hex_bytes i), s)
      | None \<Rightarrow>
          if is_idempotent inner then (Rejected ''nested Idempotent commands are not allowed'', s)
          else (fst (apply_inner H inner s),
                if is_applied (fst (apply_inner H inner s))
                then record_receipt i d (fst (apply_inner H inner s)) (snd (apply_inner H inner s))
                else snd (apply_inner H inner s)))"
  by (simp add: apply_idempotent_def record_receipt_def Let_def split: option.split prod.split)

definition dispatch ::
  "(bytes \<Rightarrow> bytes) \<Rightarrow> raft_command \<Rightarrow> cluster_state \<Rightarrow> raft_response \<times> cluster_state" where
  "dispatch H cmd s = (case cmd of
      Idempotent i d inner \<Rightarrow> apply_idempotent H i d inner s | other \<Rightarrow> apply_inner H other s)"

lemma dispatch_simps [simp]:
  "dispatch H (Idempotent i d inner) s = apply_idempotent H i d inner s"
  "\<not> is_idempotent c \<Longrightarrow> dispatch H c s = apply_inner H c s"
  by (cases c; simp add: dispatch_def)+

lemma inner_receipts:
  "cluster_ok H s \<Longrightarrow> cs_idempotency (snd (apply_inner H c s)) = cs_idempotency s"
  using apply_inner_ok [of H s c] by (simp add: same_receipts_def)

lemma dispatch_ok:
  assumes "cluster_ok H s"
  shows "cluster_ok H (snd (dispatch H c s))"
proof (cases "is_idempotent c")
  case True
  then obtain i d inner where c: "c = Idempotent i d inner" by (cases c) auto
  note ok = conjunct1 [OF apply_inner_ok [OF assms, of inner]]
  show ?thesis
    using assms ok record_receipt_facts(3) [OF ok, of i] inner_receipts [OF assms, of inner]
    by (auto simp: c apply_idempotent_unfold split: option.split)
qed (use assms apply_inner_ok in simp)

lemma cluster_apply_reference:
  assumes "cluster_ok H s"
  shows "cluster_apply H c s =
    (fst (dispatch H c (expire_reference s)), expire_reference (snd (dispatch H c (expire_reference s))))"
proof -
  have e: "expire_idempotency_ttl s = expire_reference s"
    by (rule expire_is_reference [OF cluster_okD(5) [OF assms]])
  have "index_ok (snd (dispatch H c (expire_reference s)))"
    using dispatch_ok [OF expire_reference_ok [OF assms]] cluster_okD(5) by blast
  then have "expire_idempotency_ttl (snd (dispatch H c (expire_reference s))) =
      expire_reference (snd (dispatch H c (expire_reference s)))"
    by (rule expire_is_reference)
  then show ?thesis
    unfolding cluster_apply_def e dispatch_def [symmetric] Let_def by (simp add: case_prod_beta)
qed

definition cluster_step :: "(bytes \<Rightarrow> bytes) \<Rightarrow> raft_command \<Rightarrow> cluster_state \<Rightarrow> cluster_state" where
  "cluster_step H c s = snd (cluster_apply H c s)"

lemma cluster_step_ok: "cluster_ok H s \<Longrightarrow> cluster_ok H (cluster_step H c s)"
  by (simp add: cluster_step_def cluster_apply_reference dispatch_ok expire_reference_ok)

interpretation cluster: invariant_machine "cluster_step H" "cluster_ok H" for H :: "bytes \<Rightarrow> bytes"
  by unfold_locales (rule cluster_step_ok)

lemma cluster_default_ok [simp]: "cluster_ok H cluster_state_default"
  by (simp add: cluster_ok_def cluster_state_default_def receipts_ok_def index_ok_def desired_ok_def
      completions_ok_def bt_values_def idempotency_max_entries_def desired_max_total_bytes_def u64_max_def
      bt_sum_def)

lemma dispatch_body:
  assumes "cluster_ok H s"
  obtains x where "same_body (snd (apply_inner H x s)) (snd (dispatch H c s))"
proof (cases "is_idempotent c")
  case True
  then obtain i d inner where c: "c = Idempotent i d inner" by (cases c) auto
  show ?thesis
  proof (cases "bt_get (cs_idempotency s) i = None \<and> \<not> is_idempotent inner")
    case True
    note ok = conjunct1 [OF apply_inner_ok [OF assms, of inner]]
    have "same_body (snd (apply_inner H inner s)) (snd (dispatch H c s))"
      using True record_receipt_facts(1) [OF ok, of i d] inner_receipts [OF assms, of inner]
      by (auto simp: c apply_idempotent_unfold)
    then show ?thesis by (rule that)
  next
    case False
    have "same_body (snd (apply_inner H c s)) (snd (dispatch H c s))"
      using False by (auto simp: c apply_idempotent_unfold split: option.splits)
    then show ?thesis by (rule that)
  qed
next
  case False
  then have "same_body (snd (apply_inner H c s)) (snd (dispatch H c s))" by simp
  then show ?thesis by (rule that)
qed

lemma cluster_step_body:
  assumes "cluster_ok H s"
  obtains x where "same_body (snd (apply_inner H x (expire_reference s))) (cluster_step H c s)"
proof -
  obtain x where "same_body (snd (apply_inner H x (expire_reference s))) (snd (dispatch H c (expire_reference s)))"
    by (rule dispatch_body [OF expire_reference_ok [OF assms]])
  then have "same_body (snd (apply_inner H x (expire_reference s))) (cluster_step H c s)"
    by (simp add: cluster_step_def cluster_apply_reference [OF assms] same_body_trans [OF _ same_body_expire])
  then show ?thesis by (rule that)
qed

lemma cluster_step_frame:
  assumes "cluster_ok H s"
  shows "tm_now_ms (cs_records s) \<le> tm_now_ms (cs_records (cluster_step H c s))"
    "cs_idempotency_ttl_ms (cluster_step H c s) = cs_idempotency_ttl_ms s"
    "cs_idempotency_max_entries (cluster_step H c s) = cs_idempotency_max_entries s"
    "cs_desired_max_entries (cluster_step H c s) = cs_desired_max_entries s"
    "cs_desired_max_total_bytes (cluster_step H c s) = cs_desired_max_total_bytes s"
proof -
  obtain x where x: "same_body (snd (apply_inner H x (expire_reference s))) (cluster_step H c s)"
    by (rule cluster_step_body [OF assms])
  have "same_receipts (expire_reference s) (snd (apply_inner H x (expire_reference s)))"
    using apply_inner_ok [OF expire_reference_ok [OF assms]] by blast
  then show "tm_now_ms (cs_records s) \<le> tm_now_ms (cs_records (cluster_step H c s))"
    "cs_idempotency_ttl_ms (cluster_step H c s) = cs_idempotency_ttl_ms s"
    "cs_idempotency_max_entries (cluster_step H c s) = cs_idempotency_max_entries s"
    "cs_desired_max_entries (cluster_step H c s) = cs_desired_max_entries s"
    "cs_desired_max_total_bytes (cluster_step H c s) = cs_desired_max_total_bytes s"
    using same_body_fields [OF x] by (simp_all add: same_receipts_def)
qed

interpretation cluster_clock: monotone_machine "cluster_step H" "cluster_ok H" "\<lambda>s. tm_now_ms (cs_records s)"
  for H :: "bytes \<Rightarrow> bytes"
  by unfold_locales (rule cluster_step_frame(1))

end
