(* ===== verification/Cluster_Properties.thy ===== *)
theory Cluster_Properties
  imports Cluster_Invariant
begin

text \<open>
  The properties of runs of the replicated cluster state: bounded receipts and declarations,
  exactly-once application of idempotent commands, single winners of a desired generation, fencing
  of controllers across the whole state, and the snapshot round trip.
\<close>

section \<open>Receipts along a run\<close>

lemma dispatch_receipt:
  assumes "cluster_ok H s" and "bt_get (cs_idempotency s) i = Some e"
    and "length (cs_idempotency s) < cs_idempotency_max_entries s"
  shows "bt_get (cs_idempotency (snd (dispatch H c s))) i = Some e"
    "length (cs_idempotency (snd (dispatch H c s))) \<le> Suc (length (cs_idempotency s))"
proof -
  have room: "cs_idempotency (record_receipt k d r (snd (apply_inner H x s))) = bt_insert k
      \<lparr>ie_request_digest = d, ie_response = r, ie_recorded_at_ms = tm_now_ms (cs_records (snd (apply_inner H x s)))\<rparr>
      (cs_idempotency s)" for k d r x
  proof -
    have "evict_while (snd (apply_inner H x s)) = snd (apply_inner H x s)"
      using assms(3) apply_inner_ok [OF assms(1), of x] by (intro evict_while_room) (simp add: same_receipts_def)
    then show ?thesis
      by (simp add: record_receipt_def note_idempotency_time_def Let_def inner_receipts [OF assms(1)])
  qed
  have inner: "cs_idempotency (snd (apply_inner H x s)) = cs_idempotency s" for x
    by (rule inner_receipts [OF assms(1)])
  note ok = cluster_okD(6) [OF assms(1)]
  show "bt_get (cs_idempotency (snd (dispatch H c s))) i = Some e"
  proof (cases "is_idempotent c")
    case True
    then obtain k d x where "c = Idempotent k d x" by (cases c) auto
    then show ?thesis
      using assms(2) by (auto simp: apply_idempotent_unfold room inner bt_simps split: option.splits)
  qed (simp add: inner assms(2))
  show "length (cs_idempotency (snd (dispatch H c s))) \<le> Suc (length (cs_idempotency s))"
  proof (cases "is_idempotent c")
    case True
    then obtain k d x where "c = Idempotent k d x" by (cases c) auto
    then show ?thesis
      using ok by (auto simp: apply_idempotent_unfold room inner bt_length_insert split: option.splits)
  qed (simp add: inner)
qed

abbreviation "cs_now s \<equiv> tm_now_ms (cs_records s)"

lemma step_receipt:
  assumes "cluster_ok H s" and "bt_get (cs_idempotency s) i = Some e"
    and "length (cs_idempotency s) < cs_idempotency_max_entries s"
    and "cs_now (cluster_step H c s) \<le> ie_recorded_at_ms e + cs_idempotency_ttl_ms s"
  shows "bt_get (cs_idempotency (cluster_step H c s)) i = Some e \<and>
    length (cs_idempotency (cluster_step H c s)) \<le> Suc (length (cs_idempotency s))"
proof -
  let ?s1 = "expire_reference s" and ?s2 = "snd (dispatch H c (expire_reference s))"
  have ok1: "cluster_ok H ?s1" by (rule expire_reference_ok [OF assms(1)])
  then have ok2: "cluster_ok H ?s2" by (rule dispatch_ok)
  have st: "cluster_step H c s = expire_reference ?s2"
    by (simp add: cluster_step_def cluster_apply_reference [OF assms(1)])
  have now: "cs_now s \<le> cs_now ?s2" "cs_now ?s2 \<le> ie_recorded_at_ms e + cs_idempotency_ttl_ms s"
    "cs_idempotency_ttl_ms ?s2 = cs_idempotency_ttl_ms s"
    using assms(4) cluster_step_frame(1,2) [OF assms(1), of c] by (simp_all add: st)
  have l1: "length (cs_idempotency ?s1) \<le> length (cs_idempotency s)"
    by (simp add: expire_reference_def bt_length_retain_le)
  have "bt_get (cs_idempotency ?s1) i = Some e"
    using assms(2) now by (simp add: bt_get_expire [OF cluster_okD(6) [OF assms(1)]] sat_sub_def)
  from dispatch_receipt [OF ok1 this, of c] l1 assms(3)
  have "bt_get (cs_idempotency ?s2) i = Some e" "length (cs_idempotency ?s2) \<le> Suc (length (cs_idempotency s))"
    by auto
  moreover have "length (cs_idempotency (expire_reference ?s2)) \<le> length (cs_idempotency ?s2)"
    by (simp add: expire_reference_def bt_length_retain_le)
  ultimately show ?thesis
    using now by (simp add: st bt_get_expire [OF cluster_okD(6) [OF ok2]] sat_sub_def)
qed

lemma run_receipt:
  assumes "cluster_ok H s" and "bt_get (cs_idempotency s) i = Some e"
    and "length (cs_idempotency s) + length cs \<le> cs_idempotency_max_entries s"
    and "cs_now (fold (cluster_step H) cs s) \<le> ie_recorded_at_ms e + cs_idempotency_ttl_ms s"
  shows "bt_get (cs_idempotency (fold (cluster_step H) cs s)) i = Some e"
  using assms
proof (induction cs arbitrary: s)
  case (Cons c cs)
  let ?s = "cluster_step H c s"
  have ok: "cluster_ok H ?s" by (rule cluster_step_ok [OF Cons.prems(1)])
  have "cs_now ?s \<le> cs_now (fold (cluster_step H) cs ?s)"
    by (rule cluster_clock.clock_run [OF ok])
  then have "bt_get (cs_idempotency ?s) i = Some e \<and> length (cs_idempotency ?s) \<le> Suc (length (cs_idempotency s))"
    using Cons.prems by (intro step_receipt) auto
  then show ?case
    using Cons.IH [OF ok] Cons.prems(3,4) cluster_step_frame(2,3) [OF Cons.prems(1), of c] by simp
qed simp

text \<open>A state right after a command has no receipt left to expire.\<close>

lemma step_settled:
  assumes "cluster_ok H s"
  shows "expire_reference (cluster_step H c s) = cluster_step H c s"
  by (simp add: cluster_step_def cluster_apply_reference [OF assms] expire_reference_idem)

lemma run_settled:
  assumes "cluster_ok H s" and "expire_reference s = s"
  shows "expire_reference (fold (cluster_step H) cs s) = fold (cluster_step H) cs s"
  using assms by (induction cs arbitrary: s) (simp_all add: step_settled cluster_step_ok)

lemma idempotent_recorded:
  assumes "cluster_ok H s" and "fst (cluster_apply H (Idempotent i d inner) s) = Applied out"
  shows "bt_get (cs_idempotency (cluster_step H (Idempotent i d inner) s)) i =
    Some \<lparr>ie_request_digest = d, ie_response = Applied out,
      ie_recorded_at_ms = cs_now (cluster_step H (Idempotent i d inner) s)\<rparr>"
proof -
  let ?s1 = "expire_reference s"
  have ok1: "cluster_ok H ?s1" by (rule expire_reference_ok [OF assms(1)])
  let ?s2 = "snd (apply_inner H inner ?s1)"
  have r: "fst (apply_idempotent H i d inner ?s1) = Applied out"
    using assms(2) by (simp add: cluster_apply_reference [OF assms(1)])
  then have a: "bt_get (cs_idempotency ?s1) i = None" "fst (apply_inner H inner ?s1) = Applied out"
    "snd (apply_idempotent H i d inner ?s1) = record_receipt i d (Applied out) ?s2"
    by (auto simp: apply_idempotent_unfold split: option.splits if_splits)
  have ok2: "cluster_ok H ?s2" using apply_inner_ok [OF ok1] by blast
  have "bt_get (cs_idempotency ?s2) i = None" using a(1) by (simp add: inner_receipts [OF ok1])
  note rr = record_receipt_facts [OF ok2 this, where d = d and r = "Applied out"]
  have ok3: "cluster_ok H (record_receipt i d (Applied out) ?s2)" by (rule rr(3)) simp
  have st: "cluster_step H (Idempotent i d inner) s = expire_reference (record_receipt i d (Applied out) ?s2)"
    by (simp add: cluster_step_def cluster_apply_reference [OF assms(1)] a(3))
  show ?thesis
    unfolding st by (simp add: bt_get_expire [OF cluster_okD(6) [OF ok3]] rr(2) same_body_fields(1) [OF rr(1)] sat_sub_def)
qed

section \<open>Generations along a run\<close>

definition generation_of :: "cluster_state \<Rightarrow> string \<times> string \<Rightarrow> u64" where
  "generation_of s k = (case bt_get (cs_desired s) k of None \<Rightarrow> 0 | Some e \<Rightarrow> de_generation e)"

lemma generation_of_body: "same_body s s' \<Longrightarrow> generation_of s' k = generation_of s k"
  by (simp add: generation_of_def same_body_fields)

lemma generation_of_inner:
  assumes "cluster_ok H s"
  shows "generation_of s k \<le> generation_of (snd (apply_inner H c s)) k"
proof (cases c)
  case (PutDesired ns app g payload d)
  have g: "generation_of s k \<le> u64_max"
    using cluster_okD(3) [OF assms] by (cases k) (auto simp: desired_ok_def generation_of_def split: option.splits)
  show ?thesis
    using g PutDesired
    by (cases rule: put_desired_cases [of ns app g payload d s])
      (auto simp: generation_of_def bt_simps sat_add64_def split: if_splits)
qed (auto simp: generation_of_def complete_finite_def acquire_controller_def Let_def
    split: prod.splits sum.splits option.splits if_splits)

lemma generation_of_step:
  assumes "cluster_ok H s"
  shows "generation_of s k \<le> generation_of (cluster_step H c s) k"
proof -
  obtain x where x: "same_body (snd (apply_inner H x (expire_reference s))) (cluster_step H c s)"
    by (rule cluster_step_body [OF assms])
  show ?thesis
    using generation_of_inner [OF expire_reference_ok [OF assms], of k x]
    by (simp add: generation_of_body [OF x] generation_of_body [OF same_body_expire])
qed

interpretation generations: monotone_machine "cluster_step H" "cluster_ok H" "\<lambda>s. generation_of s k"
  for H :: "bytes \<Rightarrow> bytes" and k
  by unfold_locales (rule generation_of_step)

lemma put_desired_stale:
  assumes "g < generation_of s (ns, app)" and "g < u64_max"
  shows "\<exists>msg. put_desired ns app g payload d s = (Rejected msg, s)"
  using assms
  by (cases rule: put_desired_cases [of ns app g payload d s])
    (auto simp: generation_of_def sat_add64_def split: option.splits)

section \<open>Refinement of the authority record\<close>

definition authority_of :: "cluster_state \<Rightarrow> controller_authority \<times> lease_table" where
  "authority_of s = (cs_controller s, tm_leases (cs_records s))"

lemma commit_time_leases [simp]: "tm_leases (snd (commit_time now m)) = tm_leases m"
  by (simp add: commit_time_def)

lemma apply_command_leases:
  "(authority_step H)\<^sup>*\<^sup>* (a, tm_leases m) (a, tm_leases (snd (apply_command H c m)))"
proof (cases c)
  case (CTxn t)
  have "tm_leases (snd (apply_command H (CTxn t) m)) = tm_leases m"
    by (auto simp: apply_txn_unfold apply_ops_frame split: prod.splits option.splits)
      (metis apply_ops_frame snd_conv)
  with CTxn show ?thesis by simp
next
  case (CLeaseGrant p now)
  obtain q m1 where t: "commit_time now m = (q, m1)" by fastforce
  with commit_time_leases [of now m] have l: "tm_leases m1 = tm_leases m" by simp
  have "tm_leases (snd (apply_command H c m)) \<in> {tm_leases m, snd (lease_grant p (tm_now_ms m1) (tm_leases m))}"
    using CLeaseGrant by (auto simp: t l Let_def split: prod.splits sum.splits)
  then show ?thesis using authority_step.grant by (metis insertE r_into_rtranclp rtranclp.rtrancl_refl singletonD)
next
  case (CLeaseRenew i now)
  obtain q m1 where t: "commit_time now m = (q, m1)" by fastforce
  with commit_time_leases [of now m] have l: "tm_leases m1 = tm_leases m" by simp
  have "tm_leases (snd (apply_command H c m)) \<in> {tm_leases m, snd (lease_renew i (tm_now_ms m1) (tm_leases m))}"
    using CLeaseRenew by (auto simp: t l Let_def split: prod.splits sum.splits)
  then show ?thesis using authority_step.renew by (metis insertE r_into_rtranclp rtranclp.rtrancl_refl singletonD)
next
  case (CLeaseRevoke i)
  have "tm_leases (snd (apply_command H c m)) \<in> {tm_leases m, snd (lease_revoke i (tm_leases m))}"
    using CLeaseRevoke by (auto simp: Let_def split: prod.splits sum.splits)
  then show ?thesis using authority_step.revoke by (metis insertE r_into_rtranclp rtranclp.rtrancl_refl singletonD)
next
  case (CExpireLeases now)
  obtain q m1 where t: "commit_time now m = (q, m1)" by fastforce
  with commit_time_leases [of now m] have l: "tm_leases m1 = tm_leases m" by simp
  have "tm_leases (snd (apply_command H c m)) \<in> {tm_leases m, snd (lease_expire_due (tm_now_ms m1) (tm_leases m))}"
    using CExpireLeases by (auto simp: t l Let_def split: prod.splits sum.splits)
  then show ?thesis using authority_step.expire by (metis insertE r_into_rtranclp rtranclp.rtrancl_refl singletonD)
next
  case (CAdvanceTime now)
  obtain q m1 where t: "commit_time now m = (q, m1)" by fastforce
  with commit_time_leases [of now m] have "tm_leases m1 = tm_leases m" by simp
  with t CAdvanceTime show ?thesis by (auto split: sum.splits)
qed (auto simp: flush_result_def Let_def apply_mutate_frame simp del: apply_mutate.simps split: sum.splits)

lemma authority_of_body: "same_body s s' \<Longrightarrow> authority_of s' = authority_of s"
  by (simp add: authority_of_def same_body_fields)

lemma authority_of_inner:
  assumes "cluster_ok H s"
  shows "(authority_step H)\<^sup>*\<^sup>* (authority_of s) (authority_of (snd (apply_inner H c s)))"
proof (cases c)
  case (Record rc)
  obtain r m where rm: "apply_command H rc (cs_records s) = (r, m)" by fastforce
  then show ?thesis
    using apply_command_leases [of H "cs_controller s" "cs_records s" rc] Record
    by (cases r) (simp_all add: authority_of_def)
next
  case (AcquireController holder)
  obtain token ca leases where a: "ca_acquire H holder (tm_now_ms (cs_records s)) (cs_controller s)
      (tm_leases (cs_records s)) = (token, ca, leases)" by (metis prod_cases3)
  have "authority_of (snd (apply_inner H c s)) = (ca, leases)"
    by (simp add: AcquireController authority_of_def acquire_controller_def a Let_def bump_revision_def)
  then show ?thesis
    using authority_step.acquire [OF a] by (simp add: authority_of_def r_into_rtranclp)
next
  case (PutDesired ns app g payload d)
  then show ?thesis
    by (cases rule: put_desired_cases [of ns app g payload d s])
      (simp_all add: authority_of_def bump_revision_def)
next
  case (CompleteFinite ns app g u)
  then have "authority_of (snd (apply_inner H c s)) = authority_of s"
    by (auto simp: authority_of_def complete_finite_def bump_revision_def Let_def
        split: sum.splits option.splits)
  then show ?thesis by simp
qed simp

lemma authority_of_step:
  assumes "cluster_ok H s"
  shows "(authority_step H)\<^sup>*\<^sup>* (authority_of s) (authority_of (cluster_step H c s))"
proof -
  obtain x where x: "same_body (snd (apply_inner H x (expire_reference s))) (cluster_step H c s)"
    by (rule cluster_step_body [OF assms])
  show ?thesis
    using authority_of_inner [OF expire_reference_ok [OF assms], of x]
    by (simp add: authority_of_body [OF x] authority_of_body [OF same_body_expire])
qed

lemma authority_of_run:
  "cluster_ok H s \<Longrightarrow> (authority_step H)\<^sup>*\<^sup>* (authority_of s) (authority_of (fold (cluster_step H) cs s))"
proof (induction cs arbitrary: s)
  case (Cons c cs)
  then show ?case
    using authority_of_step [OF Cons.prems, of c] Cons.IH [OF cluster_step_ok [OF Cons.prems]]
    by (auto intro: rtranclp_trans)
qed simp

section \<open>Snapshots\<close>

definition default_limits :: "cluster_state \<Rightarrow> bool" where
  "default_limits s \<longleftrightarrow> cs_idempotency_max_entries s = idempotency_max_entries \<and>
     cs_idempotency_ttl_ms s = idempotency_ttl_ms \<and> cs_desired_max_entries s = desired_max_entries \<and>
     cs_desired_max_total_bytes s = desired_max_total_bytes"

interpretation limits: invariant_machine "cluster_step H" "\<lambda>s. cluster_ok H s \<and> default_limits s"
  for H :: "bytes \<Rightarrow> bytes"
  by unfold_locales (simp add: cluster_step_ok default_limits_def cluster_step_frame)

lemma default_limits_default [simp]: "default_limits cluster_state_default"
  by (simp add: default_limits_def cluster_state_default_def)


section \<open>A concrete run\<close>

definition demo_put :: raft_command where
  "demo_put = PutDesired ''ns'' ''app'' 0 [7] [8]"

definition demo_outcome :: apply_outcome where
  "demo_outcome = \<lparr>ao_revision = 1, ao_txn_succeeded = None, ao_lease_id = None, ao_expired_lease_ids = [],
     ao_controller = None, ao_desired_generation = Some 1\<rparr>"

definition demo_state :: cluster_state where
  "demo_state = cluster_step (\<lambda>p. p) (Idempotent [1] [2] demo_put) cluster_state_default"

lemmas cluster_eval =
  put_desired_def complete_finite_def validate_desired_identity_def label_parse_def label_byte_def
  less_eq_char_def bounded_try_from_str_def desired_entry_bytes_def desired_total_bytes_def
  cluster_state_default_def desired_max_payload_bytes_def desired_max_entries_def
  desired_max_total_bytes_def idempotency_max_entries_def idempotency_ttl_ms_def outcome_at_def
  bump_revision_def sat_add64_def sat_sub_def u64_max_def bt_get_def expire_idempotency_ttl_def
  note_idempotency_time_def recompute_idempotency_oldest_def bt_values_def Let_def
  machine_default_def machine_new_def

lemma demo_put_inner:
  "fst (put_desired ''ns'' ''app'' 0 [7] [8] cluster_state_default) = Applied demo_outcome"
  by (simp add: cluster_eval demo_outcome_def)

lemma demo_step:
  "cluster_apply (\<lambda>p. p) (Idempotent [1] [2] demo_put) cluster_state_default = (Applied demo_outcome, demo_state)"
  "length (cs_idempotency demo_state) = 1" "cs_now demo_state = 0"
  "cs_idempotency_max_entries demo_state = idempotency_max_entries"
  "cs_idempotency_ttl_ms demo_state = idempotency_ttl_ms"
proof -
  let ?p = "put_desired ''ns'' ''app'' 0 [7] [8] cluster_state_default"
  have r: "fst (cluster_apply (\<lambda>p. p) (Idempotent [1] [2] demo_put) cluster_state_default) = Applied demo_outcome"
    using demo_put_inner
    by (simp add: cluster_apply_def apply_idempotent_unfold demo_put_def expire_idempotency_ttl_def
        cluster_state_default_def bt_get_def Let_def split: prod.split)
  then show "cluster_apply (\<lambda>p. p) (Idempotent [1] [2] demo_put) cluster_state_default = (Applied demo_outcome, demo_state)"
    by (simp add: demo_state_def cluster_step_def prod_eq_iff)
  show l: "cs_idempotency_max_entries demo_state = idempotency_max_entries"
    "cs_idempotency_ttl_ms demo_state = idempotency_ttl_ms"
    by (simp_all add: demo_state_def cluster_step_frame) (simp_all add: cluster_state_default_def)
  show "cs_now demo_state = 0"
    by (simp add: demo_state_def cluster_step_def cluster_apply_def apply_idempotent_unfold demo_put_def
      record_receipt_def evict_while_room cluster_eval)
  show "length (cs_idempotency demo_state) = 1"
    by (simp add: demo_state_def cluster_step_def cluster_apply_def apply_idempotent_unfold demo_put_def
      record_receipt_def evict_while_room cluster_eval)
qed

lemma demo_state_ok [simp]: "cluster_ok (\<lambda>p. p) demo_state"
  by (simp add: demo_state_def cluster_step_ok)

section \<open>Properties\<close>

text \<open>
  C7: an idempotent command is applied at most once. After it was applied, and for as long as its
  receipt has neither outlived its time to live nor been displaced by a full table, sending it again
  with the same digest returns the recorded response and changes nothing at all; the same operation
  id with another digest is refused, whatever commands ran in between.
\<close>

theorem idempotent_exactly_once:
  assumes "cluster_ok H s" and "cluster_apply H (Idempotent i d inner) s = (Applied out, s1)"
    and "length (cs_idempotency s1) + length cs \<le> cs_idempotency_max_entries s1"
    and "cs_now (fold (cluster_step H) cs s1) \<le> cs_now s1 + cs_idempotency_ttl_ms s1"
  shows "cluster_apply H (Idempotent i d' inner') (fold (cluster_step H) cs s1) =
    (if d' = d then Replay (Applied out)
     else Rejected (''idempotency conflict for operation '' @ hex_bytes i), fold (cluster_step H) cs s1)"
proof -
  let ?s2 = "fold (cluster_step H) cs s1"
  have s1: "s1 = cluster_step H (Idempotent i d inner) s" using assms(2) by (simp add: cluster_step_def)
  have ok1: "cluster_ok H s1" by (simp add: s1 cluster_step_ok assms(1))
  then have ok2: "cluster_ok H ?s2" by (rule cluster.inv_run)
  have "bt_get (cs_idempotency s1) i = Some \<lparr>ie_request_digest = d, ie_response = Applied out,
      ie_recorded_at_ms = cs_now s1\<rparr>"
    unfolding s1 by (rule idempotent_recorded) (use assms(1,2) in simp_all)
  from run_receipt [OF ok1 this assms(3)] assms(4)
  have g: "bt_get (cs_idempotency ?s2) i = Some \<lparr>ie_request_digest = d, ie_response = Applied out,
      ie_recorded_at_ms = cs_now s1\<rparr>" by simp
  have settled: "expire_reference ?s2 = ?s2"
    by (rule run_settled [OF ok1]) (simp add: s1 step_settled [OF assms(1)])
  show ?thesis
    by (simp add: cluster_apply_reference [OF ok2] settled apply_idempotent_unfold g)
qed

theorem idempotent_exactly_once_witness:
  "cluster_apply (\<lambda>p. p) (Idempotent [1] [2] demo_put) demo_state = (Replay (Applied demo_outcome), demo_state)"
  using idempotent_exactly_once [OF cluster_default_ok demo_step(1), of "[]" "[2]" demo_put]
  by (simp add: demo_step idempotency_max_entries_def)

text \<open>
  The expiry of receipts with its index of the oldest instant does exactly what a plain filter of
  all receipts by age does.
\<close>

theorem receipt_expiry_matches_filter:
  assumes "cluster_ok H s"
  shows "expire_idempotency_ttl s = s\<lparr>
     cs_idempotency := filter (\<lambda>(i, e). cs_now s - ie_recorded_at_ms e \<le> cs_idempotency_ttl_ms s) (cs_idempotency s),
     cs_idempotency_oldest_ms := list_min (map (\<lambda>(i, e). ie_recorded_at_ms e)
       (filter (\<lambda>(i, e). cs_now s - ie_recorded_at_ms e \<le> cs_idempotency_ttl_ms s) (cs_idempotency s)))\<rparr>"
  unfolding expire_is_reference [OF cluster_okD(5) [OF assms]] expire_reference_def
  by (simp add: recompute_idempotency_oldest_def bt_retain_def bt_values_def sat_sub_def case_prod_unfold comp_def)

theorem receipt_expiry_matches_filter_witness:
  "cs_idempotency (expire_idempotency_ttl demo_state) =
     filter (\<lambda>(i, e). cs_now demo_state - ie_recorded_at_ms e \<le> cs_idempotency_ttl_ms demo_state)
       (cs_idempotency demo_state)"
  using receipt_expiry_matches_filter [OF demo_state_ok] by simp

text \<open>
  C27: in every state that a log of commands leads to, the receipts, the desired declarations, their
  bytes and the completions stay within the published bounds, and every completion belongs to the
  current generation of its declaration.
\<close>

theorem cluster_bounds:
  "length (cs_idempotency (fold (cluster_step H) cs cluster_state_default)) \<le> 100000 \<and>
   length (cs_desired (fold (cluster_step H) cs cluster_state_default)) \<le> 8192 \<and>
   bt_sum entry_bytes (cs_desired (fold (cluster_step H) cs cluster_state_default)) \<le> 64 * 1024 * 1024 \<and>
   card (cs_finite_completions (fold (cluster_step H) cs cluster_state_default)) \<le> 100000 \<and>
   cs_finite_completions (fold (cluster_step H) cs cluster_state_default) \<subseteq>
     {(ns, app, g, u). desired_generation (fold (cluster_step H) cs cluster_state_default) ns app = Some g}"
proof -
  let ?s = "fold (cluster_step H) cs cluster_state_default"
  have ok: "cluster_ok H ?s \<and> default_limits ?s" by (rule limits.inv_run) simp
  then have "cs_finite_completions ?s \<subseteq> {(ns, app, g, u). desired_generation ?s ns app = Some g}"
    unfolding cluster_ok_def completions_ok_def by blast
  with ok show ?thesis
    by (simp add: cluster_ok_def receipts_ok_def desired_ok_def completions_ok_def default_limits_def
        idempotency_max_entries_def desired_max_entries_def desired_max_total_bytes_def
        finite_completion_max_entries_def)
qed

text \<open>
  C28: desired declarations are compare-and-set on the generation: a put is accepted only with the
  current generation, installs exactly the next one and drops the completions of the old; and after
  any further commands a put that expects the same generation is refused and changes nothing.
\<close>

theorem desired_generation_single_winner:
  assumes "cluster_ok H s" and "g < u64_max" and "put_desired ns app g payload d s = (Applied out, s1)"
  shows "generation_of s (ns, app) = g \<and>
    bt_get (cs_desired s1) (ns, app) =
      Some \<lparr>de_generation = g + 1, de_content_digest = d, de_payload = payload\<rparr> \<and>
    (\<forall>g' u. \<not> finite_completed s1 ns app g' u) \<and>
    (\<exists>msg. put_desired ns app g payload' d' (fold (cluster_step H) cs s1) =
       (Rejected msg, fold (cluster_step H) cs s1))"
proof (cases rule: put_desired_cases [of ns app g payload d s])
  case accepted
  have s1: "s1 = snd (put_desired ns app g payload d s)" using assms(3) by simp
  have ok: "cluster_ok H s1" unfolding s1 using put_desired_ok [OF assms(1)] by blast
  have g: "generation_of s1 (ns, app) = g + 1"
    unfolding s1 accepted(7) using assms(2) by (simp add: generation_of_def bt_simps sat_add64_def)
  then have "g < generation_of (fold (cluster_step H) cs s1) (ns, app)"
    using generations.clock_run [OF ok, of "(ns, app)" cs] by simp
  moreover have "generation_of s (ns, app) = g" using accepted(4) by (simp add: generation_of_def)
  moreover have "\<not> finite_completed s1 ns app g' u" for g' u
    unfolding s1 accepted(7) by (simp add: finite_completed_def)
  moreover have "bt_get (cs_desired s1) (ns, app) =
      Some \<lparr>de_generation = g + 1, de_content_digest = d, de_payload = payload\<rparr>"
    unfolding s1 accepted(7) using assms(2) by (simp add: bt_simps sat_add64_def)
  ultimately show ?thesis using put_desired_stale [OF _ assms(2)] by blast
qed (use assms(2,3) in \<open>auto simp: sat_add64_def\<close>)

theorem desired_generation_single_winner_witness:
  "\<exists>msg. fst (put_desired ''ns'' ''app'' 0 [9] [9] (snd (put_desired ''ns'' ''app'' 0 [7] [8] cluster_state_default))) =
     Rejected msg"
proof -
  have "put_desired ''ns'' ''app'' 0 [7] [8] cluster_state_default =
      (Applied demo_outcome, snd (put_desired ''ns'' ''app'' 0 [7] [8] cluster_state_default))"
    using demo_put_inner by (metis prod.collapse)
  from desired_generation_single_winner [OF cluster_default_ok [of "\<lambda>p. p"] _ this,
      where payload' = "[9]" and d' = "[9]" and cs = "[]"] show ?thesis
    by (auto simp: u64_max_def)
qed

text \<open>
  C29: controller fencing holds for the replicated state as a whole: whatever commands are committed
  between two effects, the later admitted token has an epoch no smaller, and the same epoch only if
  it is the same token.
\<close>

theorem cluster_controller_fenced:
  assumes "cluster_ok H s" and "s' = fold (cluster_step H) cs s" and "ca_epoch (cs_controller s') < u64_max"
    and "validate_effect (cs_controller s) cmd now (tm_leases (cs_records s)) = Inr ()"
    and "validate_effect (cs_controller s') cmd' now' (tm_leases (cs_records s')) = Inr ()"
  shows "ft_epoch (ec_token cmd) \<le> ft_epoch (ec_token cmd') \<and>
    (ft_epoch (ec_token cmd) = ft_epoch (ec_token cmd') \<longrightarrow> ec_token cmd = ec_token cmd')"
proof -
  have "(authority_step H)\<^sup>*\<^sup>* (authority_of s) (authority_of s')"
    unfolding assms(2) by (rule authority_of_run [OF assms(1)])
  from authority_run_below [OF this] assms(3-) show ?thesis
    by (intro controller.admitted_in_order [where s = "authority_of s" and s' = "authority_of s'"])
      (auto simp: authority_admits_def authority_of_def)
qed

theorem cluster_controller_fenced_witness:
  "\<exists>s cmd now. s = cluster_step (\<lambda>p. p) (AcquireController 7) cluster_state_default \<and>
     validate_effect (cs_controller s) cmd now (tm_leases (cs_records s)) = Inr () \<and>
     (ft_epoch (ec_token cmd) = ft_epoch (ec_token cmd) \<longrightarrow> ec_token cmd = ec_token cmd)"
proof -
  let ?s = "cluster_step (\<lambda>p. p) (AcquireController 7) cluster_state_default"
  obtain token a t where acq: "ca_acquire (\<lambda>p. p) 7 0 controller_authority_default lease_table_default = (token, a, t)"
    by (metis prod_cases3)
  have s: "cs_controller ?s = a" "tm_leases (cs_records ?s) = t"
    using acq
    by (simp_all add: cluster_step_def cluster_apply_def acquire_controller_def cluster_eval lease_table_default_def)
  have ok: "cluster_ok (\<lambda>p. p) ?s" by (simp add: cluster_step_ok)
  have e: "ca_epoch a = 1" and ep: "ft_epoch token = 1"
    using ca_acquire_epoch [OF acq] ca_acquire_simps(1) [OF acq]
    by (simp_all add: controller_authority_default_def ca_epoch_def sat_add64_def u64_max_def)
  have v: "validate_effect (cs_controller ?s) (demo_effect token) 0 (tm_leases (cs_records ?s)) = Inr ()"
    unfolding s using ca_acquire_simps [OF acq] e ep
    by (simp add: validate_effect_Inr demo_effect_def lease_live_def lease_get_grant lease_grant_fields
        sat_add64_def u64_max_def)
  from cluster_controller_fenced [OF ok _ _ v, of ?s "[]" "demo_effect token" 0] v e show ?thesis
    by (auto simp: s u64_max_def)
qed


text \<open>
  A command that is refused leaves the whole state as it was, except for the renewal of a lease.
\<close>

theorem rejected_no_effect:
  assumes "apply_inner H c s = (Rejected msg, s')" and "\<And>i now. c \<noteq> Record (CLeaseRenew i now)"
  shows "s' = s"
proof (cases c)
  case (Record rc)
  have nr: "\<And>i now. rc \<noteq> CLeaseRenew i now" using assms(2) Record by auto
  obtain e m where e: "apply_command H rc (cs_records s) = (Inl e, m)" "s' = s\<lparr>cs_records := m\<rparr>"
    using assms(1) Record by (auto split: prod.splits sum.splits)
  have "m = cs_records s"
    using refused_command_unchanged [of H rc "cs_records s" e] e(1) nr by simp
  with e(2) show ?thesis by simp
qed (use assms in \<open>auto simp: acquire_controller_def put_desired_def complete_finite_def outcome_at_def Let_def
    split: prod.splits sum.splits option.splits if_splits\<close>)

theorem rejected_no_effect_witness:
  "snd (apply_inner (\<lambda>p. p) (PutDesired ''ns'' ''-'' 5 [7] [8]) demo_state) = demo_state"
proof -
  let ?c = "PutDesired ''ns'' ''-'' 5 [7] [8]"
  obtain msg where "apply_inner (\<lambda>p. p) ?c demo_state = (Rejected msg, snd (apply_inner (\<lambda>p. p) ?c demo_state))"
    by (simp add: put_desired_def validate_desired_identity_def label_parse_def label_byte_def less_eq_char_def
        bounded_try_from_str_def)
  from rejected_no_effect [OF this] show ?thesis by simp
qed

end
