(* ===== verification/Resource_Ledger.thy ===== *)
theory Resource_Ledger
  imports Gump_Prelude
begin

text \<open>
  The scheduler's facts and accounts: capability reports and resource vectors
  (\<open>gump-scheduler/src/capability.rs\<close>), reason codes (\<open>explain.rs\<close>), the hard filter
  (\<open>filter.rs\<close>) and the ledger of reservations (\<open>ledger.rs\<close>). The identifiers are the 16 bytes of
  their UUID, ordered as the bytes are.
\<close>

section \<open>Resources and reports\<close>

type_synonym node_id = bytes
type_synonym unit_id = bytes

datatype protection_level = Enforced | Observed | Unavailable

fun protection_as_str :: "protection_level \<Rightarrow> string" where
  "protection_as_str Enforced = ''enforced''"
| "protection_as_str Observed = ''observed''"
| "protection_as_str Unavailable = ''unavailable''"

definition satisfies_enforcement :: "protection_level \<Rightarrow> bool" where
  "satisfies_enforcement l \<longleftrightarrow> l = Enforced"

record node_resources =
  nr_millicores :: u32
  nr_memory_bytes :: u64
  nr_gpu_devices :: u32
  nr_ports :: u32

definition node_resources_default :: node_resources where
  "node_resources_default =
     \<lparr>nr_millicores = 0, nr_memory_bytes = 0, nr_gpu_devices = 0, nr_ports = 0\<rparr>"

definition resources_saturating_sub :: "node_resources \<Rightarrow> node_resources \<Rightarrow> node_resources" where
  "resources_saturating_sub a used =
     \<lparr>nr_millicores = sat_sub (nr_millicores a) (nr_millicores used),
      nr_memory_bytes = sat_sub (nr_memory_bytes a) (nr_memory_bytes used),
      nr_gpu_devices = sat_sub (nr_gpu_devices a) (nr_gpu_devices used),
      nr_ports = sat_sub (nr_ports a) (nr_ports used)\<rparr>"

definition resources_saturating_add :: "node_resources \<Rightarrow> node_resources \<Rightarrow> node_resources" where
  "resources_saturating_add a b =
     \<lparr>nr_millicores = sat_add32 (nr_millicores a) (nr_millicores b),
      nr_memory_bytes = sat_add64 (nr_memory_bytes a) (nr_memory_bytes b),
      nr_gpu_devices = sat_add32 (nr_gpu_devices a) (nr_gpu_devices b),
      nr_ports = sat_add32 (nr_ports a) (nr_ports b)\<rparr>"

record capability_report =
  cr_node_id :: node_id
  cr_revision :: u64
  cr_placement_fence :: u64
  cr_arch :: string
  cr_drivers :: "string list"
  cr_capabilities :: "(string, protection_level) btree"
  cr_allocatable :: node_resources
  cr_drained :: bool

definition driver_supported :: "capability_report \<Rightarrow> string \<Rightarrow> bool" where
  "driver_supported r driver \<longleftrightarrow> list_ex (\<lambda>d. d = driver) (cr_drivers r)"

definition capability_level :: "capability_report \<Rightarrow> string \<Rightarrow> protection_level option" where
  "capability_level r name = bt_get (cr_capabilities r) name"

record workload_requirements =
  wr_workload_id :: bytes
  wr_unit_id :: unit_id
  wr_arch :: string
  wr_driver :: string
  wr_required_enforced :: "string list"
  wr_request :: node_resources
  wr_requires_port :: bool
  wr_lifecycle_finite :: bool

section \<open>Reasons\<close>

record explain_reason =
  er_code :: string
  er_evidence :: i64
  er_detail :: string

definition reason_new :: "string \<Rightarrow> i64 \<Rightarrow> string \<Rightarrow> explain_reason" where
  "reason_new code evidence detail = \<lparr>er_code = code, er_evidence = evidence, er_detail = detail\<rparr>"

definition arch_mismatch :: string where "arch_mismatch = ''hard.arch_mismatch''"
definition driver_missing :: string where "driver_missing = ''hard.driver_missing''"
definition capability_missing :: string where "capability_missing = ''hard.capability_missing''"
definition capability_not_enforced :: string where
  "capability_not_enforced = ''hard.capability_not_enforced''"
definition millicores_code :: string where "millicores_code = ''hard.millicores_insufficient''"
definition memory_code :: string where "memory_code = ''hard.memory_insufficient''"
definition gpu_code :: string where "gpu_code = ''hard.gpu_insufficient''"
definition port_required :: string where "port_required = ''hard.port_required''"
definition node_drained :: string where "node_drained = ''hard.node_drained''"
definition stale_capability :: string where "stale_capability = ''hard.stale_capability''"
definition stale_fence :: string where "stale_fence = ''hard.stale_fence''"
definition ledger_full :: string where "ledger_full = ''hard.ledger_full''"
definition no_candidate :: string where "no_candidate = ''hard.no_feasible_candidate''"
definition score_headroom :: string where "score_headroom = ''score.residual_headroom''"

lemmas codes =
  arch_mismatch_def driver_missing_def capability_missing_def capability_not_enforced_def
  millicores_code_def memory_code_def gpu_code_def port_required_def node_drained_def
  stale_capability_def stale_fence_def ledger_full_def no_candidate_def score_headroom_def

section \<open>Hard filter\<close>

definition div_ceil5 :: "nat \<Rightarrow> nat" where
  "div_ceil5 n = (n + 4) div 5"

definition with_headroom :: "node_resources \<Rightarrow> node_resources" where
  "with_headroom request =
     \<lparr>nr_millicores = sat_add32 (nr_millicores request)
        (max (div_ceil5 (nr_millicores request)) (if nr_millicores request > 0 then 1 else 0)),
      nr_memory_bytes = sat_add64 (nr_memory_bytes request)
        (max (div_ceil5 (nr_memory_bytes request)) (if nr_memory_bytes request > 0 then 1 else 0)),
      nr_gpu_devices = nr_gpu_devices request,
      nr_ports = nr_ports request\<rparr>"

definition capability_reasons :: "capability_report \<Rightarrow> string \<Rightarrow> explain_reason list" where
  "capability_reasons report name =
     (case capability_level report name of
        None \<Rightarrow> [reason_new capability_missing 0 (''capability '' @ name @ '' absent'')]
      | Some level \<Rightarrow>
          if satisfies_enforcement level then []
          else [reason_new capability_not_enforced 0
                 (''capability '' @ name @ '' is '' @ protection_as_str level @ '' (need enforced)'')])"

definition hard_filter_reasons ::
  "workload_requirements \<Rightarrow> capability_report \<Rightarrow> node_resources \<Rightarrow> explain_reason list" where
  "hard_filter_reasons req report free =
     (let r1 = (if cr_drained report then [reason_new node_drained 1 ''node is drained''] else []);
          r2 = (if cr_arch report \<noteq> wr_arch req
                then [reason_new arch_mismatch 0
                       (''need arch '' @ wr_arch req @ '' have '' @ cr_arch report)] else []);
          r3 = (if \<not> driver_supported report (wr_driver req)
                then [reason_new driver_missing 0
                       (''driver '' @ wr_driver req @ '' not on node'')] else []);
          r4 = concat (map (capability_reasons report) (wr_required_enforced req));
          need = with_headroom (wr_request req);
          r5 = (if nr_millicores free < nr_millicores need
                then [reason_new millicores_code (int (nr_millicores free))
                       (''need '' @ show_nat (nr_millicores need) @ '' millicores (with headroom)'')]
                else []);
          r6 = (if nr_memory_bytes free < nr_memory_bytes need
                then [reason_new memory_code (as_i64 (nr_memory_bytes free))
                       (''need '' @ show_nat (nr_memory_bytes need)
                         @ '' memory bytes (with headroom)'')] else []);
          r7 = (if nr_gpu_devices free < nr_gpu_devices need
                then [reason_new gpu_code (int (nr_gpu_devices free))
                       (''need '' @ show_nat (nr_gpu_devices need) @ '' GPU devices'')] else []);
          r8 = (if wr_requires_port req \<and> nr_ports free < 1
                then [reason_new port_required (int (nr_ports free))
                       ''workload requires a host port; node has none free''] else [])
      in r1 @ r2 @ r3 @ r4 @ r5 @ r6 @ r7 @ r8)"

definition hard_filter ::
  "workload_requirements \<Rightarrow> capability_report \<Rightarrow> node_resources \<Rightarrow> explain_reason list + unit" where
  "hard_filter req report free =
     (let reasons = hard_filter_reasons req report free
      in if reasons = [] then Inr () else Inl reasons)"

section \<open>Ledger\<close>

definition default_max_nodes :: usize where "default_max_nodes = 4096"
definition default_max_reservations :: usize where "default_max_reservations = 65536"

record reservation =
  rs_unit_id :: unit_id
  rs_node_id :: node_id
  rs_resources :: node_resources
  rs_capability_revision :: u64
  rs_placement_fence :: u64

record node_ledger =
  nl_reserved :: node_resources
  nl_by_unit :: "(unit_id, reservation) btree"

record resource_ledger =
  rl_nodes :: "(node_id, node_ledger) btree"
  rl_unit_index :: "(unit_id, node_id) btree"
  rl_max_nodes :: usize
  rl_max_reservations :: usize

definition node_ledger_default :: node_ledger where
  "node_ledger_default = \<lparr>nl_reserved = node_resources_default, nl_by_unit = []\<rparr>"

definition ledger_with_limits :: "usize \<Rightarrow> usize \<Rightarrow> resource_ledger" where
  "ledger_with_limits max_nodes max_reservations =
     \<lparr>rl_nodes = [], rl_unit_index = [], rl_max_nodes = max max_nodes 1,
      rl_max_reservations = max max_reservations 1\<rparr>"

definition ledger_new :: resource_ledger where
  "ledger_new = ledger_with_limits default_max_nodes default_max_reservations"

definition reserved_on :: "resource_ledger \<Rightarrow> node_id \<Rightarrow> node_resources" where
  "reserved_on L n =
     (case bt_get (rl_nodes L) n of None \<Rightarrow> node_resources_default | Some l \<Rightarrow> nl_reserved l)"

definition free_on :: "resource_ledger \<Rightarrow> node_id \<Rightarrow> node_resources \<Rightarrow> node_resources" where
  "free_on L n allocatable = resources_saturating_sub allocatable (reserved_on L n)"

definition ledger_get :: "resource_ledger \<Rightarrow> unit_id \<Rightarrow> reservation option" where
  "ledger_get L u =
     (case bt_get (rl_unit_index L) u of
        None \<Rightarrow> None
      | Some n \<Rightarrow>
          (case bt_get (rl_nodes L) n of None \<Rightarrow> None | Some l \<Rightarrow> bt_get (nl_by_unit l) u))"

definition reserve ::
  "unit_id \<Rightarrow> node_id \<Rightarrow> node_resources \<Rightarrow> node_resources \<Rightarrow> u64 \<Rightarrow> u64 \<Rightarrow> resource_ledger \<Rightarrow>
    (explain_reason + reservation) \<times> resource_ledger" where
  "reserve u n request allocatable revision fence L =
     (if bt_has (rl_unit_index L) u
      then (Inl (reason_new ledger_full 0 ''unit already has a reservation''), L)
      else if length (rl_unit_index L) \<ge> rl_max_reservations L
      then (Inl (reason_new ledger_full (as_i64 (rl_max_reservations L))
              ''reservation ceiling reached''), L)
      else if \<not> bt_has (rl_nodes L) n \<and> length (rl_nodes L) \<ge> rl_max_nodes L
      then (Inl (reason_new ledger_full (as_i64 (rl_max_nodes L))
              ''node ledger ceiling reached''), L)
      else
        (let need = with_headroom request;
             free = free_on L n allocatable
         in if nr_millicores free < nr_millicores need
               \<or> nr_memory_bytes free < nr_memory_bytes need
               \<or> nr_gpu_devices free < nr_gpu_devices need
               \<or> (nr_ports need > 0 \<and> nr_ports free < nr_ports need)
            then (Inl (reason_new millicores_code (int (nr_millicores free))
                    ''capacity changed before reserve commit''), L)
            else
              (let ports = (if nr_ports need > 0 then nr_ports need else 0);
                   commit = \<lparr>nr_millicores = nr_millicores need, nr_memory_bytes = nr_memory_bytes need,
                             nr_gpu_devices = nr_gpu_devices need, nr_ports = ports\<rparr>;
                   r = \<lparr>rs_unit_id = u, rs_node_id = n, rs_resources = commit,
                        rs_capability_revision = revision, rs_placement_fence = fence\<rparr>;
                   entry = (case bt_get (rl_nodes L) n of
                              None \<Rightarrow> node_ledger_default | Some l \<Rightarrow> l);
                   entry' = entry\<lparr>nl_reserved := resources_saturating_add (nl_reserved entry) commit,
                                  nl_by_unit := bt_insert u r (nl_by_unit entry)\<rparr>
               in (Inr r, L\<lparr>rl_nodes := bt_insert n entry' (rl_nodes L),
                            rl_unit_index := bt_insert u n (rl_unit_index L)\<rparr>))))"

definition release :: "unit_id \<Rightarrow> resource_ledger \<Rightarrow> reservation option \<times> resource_ledger" where
  "release u L =
     (case bt_get (rl_unit_index L) u of
        None \<Rightarrow> (None, L)
      | Some n \<Rightarrow>
        (let L1 = L\<lparr>rl_unit_index := bt_remove u (rl_unit_index L)\<rparr> in
         case bt_get (rl_nodes L1) n of
           None \<Rightarrow> (None, L1)
         | Some node \<Rightarrow>
           (case bt_get (nl_by_unit node) u of
              None \<Rightarrow> (None, L1)
            | Some r \<Rightarrow>
              (let node' = node\<lparr>nl_by_unit := bt_remove u (nl_by_unit node),
                     nl_reserved := resources_saturating_sub (nl_reserved node) (rs_resources r)\<rparr>
               in (Some r,
                   L1\<lparr>rl_nodes := (if nl_by_unit node' = [] then bt_remove n (rl_nodes L1)
                                    else bt_insert n node' (rl_nodes L1))\<rparr>)))))"

section \<open>Dimensions\<close>

text \<open>The four counters, so that each fact about them is stated once.\<close>

datatype dimension = Millicores | Memory | Gpus | Ports

fun amount :: "dimension \<Rightarrow> node_resources \<Rightarrow> nat" where
  "amount Millicores = nr_millicores"
| "amount Memory = nr_memory_bytes"
| "amount Gpus = nr_gpu_devices"
| "amount Ports = nr_ports"

fun ceiling_of :: "dimension \<Rightarrow> nat" where
  "ceiling_of Memory = u64_max"
| "ceiling_of _ = u32_max"

definition fits :: "node_resources \<Rightarrow> node_resources \<Rightarrow> bool" where
  "fits a b \<longleftrightarrow> (\<forall>d. amount d a \<le> amount d b)"

definition machine_sized :: "node_resources \<Rightarrow> bool" where
  "machine_sized a \<longleftrightarrow> (\<forall>d. amount d a \<le> ceiling_of d)"

lemma resources_eqI: "(\<And>d. amount d a = amount d b) \<Longrightarrow> a = b"
  using amount.simps by (metis (full_types) node_resources.equality old.unit.exhaust)

lemma all_dimensions: "(\<forall>d. P d) \<longleftrightarrow> P Millicores \<and> P Memory \<and> P Gpus \<and> P Ports"
  by (metis dimension.exhaust)

lemma amount_default [simp]: "amount d node_resources_default = 0"
  by (cases d) (simp_all add: node_resources_default_def)

lemma amount_add: "amount d (resources_saturating_add a b) = min (ceiling_of d) (amount d a + amount d b)"
  by (cases d) (simp_all add: resources_saturating_add_def sat_add32_def sat_add64_def min_def)

lemma amount_sub [simp]: "amount d (resources_saturating_sub a b) = amount d a - amount d b"
  by (cases d) (simp_all add: resources_saturating_sub_def sat_sub_def)

section \<open>Invariant of the ledger\<close>

text \<open>What the reservations of one node add up to, recomputed.\<close>

definition units_total :: "dimension \<Rightarrow> (unit_id, reservation) btree \<Rightarrow> nat" where
  "units_total d m = bt_sum (\<lambda>u r. amount d (rs_resources r)) m"

definition node_ok :: "node_id \<Rightarrow> node_ledger \<Rightarrow> bool" where
  "node_ok n l \<longleftrightarrow> bt_ok (nl_by_unit l) \<and> nl_by_unit l \<noteq> [] \<and> machine_sized (nl_reserved l) \<and>
     (\<forall>d. amount d (nl_reserved l) = units_total d (nl_by_unit l)) \<and>
     (\<forall>u r. bt_get (nl_by_unit l) u = Some r \<longrightarrow> rs_unit_id r = u \<and> rs_node_id r = n)"

definition ledger_ok :: "resource_ledger \<Rightarrow> bool" where
  "ledger_ok L \<longleftrightarrow> bt_ok (rl_nodes L) \<and> bt_ok (rl_unit_index L) \<and>
     (\<forall>n l. bt_get (rl_nodes L) n = Some l \<longrightarrow> node_ok n l) \<and>
     (\<forall>u n. bt_get (rl_unit_index L) u = Some n \<longleftrightarrow>
        (\<exists>l. bt_get (rl_nodes L) n = Some l \<and> bt_has (nl_by_unit l) u)) \<and>
     length (rl_unit_index L) \<le> rl_max_reservations L \<and> length (rl_nodes L) \<le> rl_max_nodes L"

lemma ledger_okD:
  assumes "ledger_ok L"
  shows "bt_ok (rl_nodes L)" "bt_ok (rl_unit_index L)"
    "bt_get (rl_nodes L) n = Some l \<Longrightarrow> node_ok n l"
    "bt_get (rl_unit_index L) u = Some n \<longleftrightarrow>
        (\<exists>l. bt_get (rl_nodes L) n = Some l \<and> bt_has (nl_by_unit l) u)"
    "length (rl_unit_index L) \<le> rl_max_reservations L" "length (rl_nodes L) \<le> rl_max_nodes L"
  using assms by (auto simp: ledger_ok_def)

definition entry_of :: "resource_ledger \<Rightarrow> node_id \<Rightarrow> node_ledger" where
  "entry_of L n = (case bt_get (rl_nodes L) n of None \<Rightarrow> node_ledger_default | Some l \<Rightarrow> l)"

lemma reserved_on_entry: "reserved_on L n = nl_reserved (entry_of L n)"
  by (simp add: reserved_on_def entry_of_def node_ledger_default_def split: option.splits)

definition reservation_of ::
  "unit_id \<Rightarrow> node_id \<Rightarrow> node_resources \<Rightarrow> u64 \<Rightarrow> u64 \<Rightarrow> reservation" where
  "reservation_of u n request revision fence =
     \<lparr>rs_unit_id = u, rs_node_id = n, rs_resources = with_headroom request,
      rs_capability_revision = revision, rs_placement_fence = fence\<rparr>"

definition reserve_entry :: "unit_id \<Rightarrow> reservation \<Rightarrow> node_ledger \<Rightarrow> node_ledger" where
  "reserve_entry u r l = l\<lparr>nl_reserved := resources_saturating_add (nl_reserved l) (rs_resources r),
     nl_by_unit := bt_insert u r (nl_by_unit l)\<rparr>"

lemma reserve_cases:
  obtains (refused) e where "reserve u n request A revision fence L = (Inl e, L)"
  | (reserved) "\<not> bt_has (rl_unit_index L) u" "length (rl_unit_index L) < rl_max_reservations L"
      "bt_has (rl_nodes L) n \<or> length (rl_nodes L) < rl_max_nodes L"
      "fits (with_headroom request) (free_on L n A)"
      "reserve u n request A revision fence L =
        (Inr (reservation_of u n request revision fence),
         L\<lparr>rl_nodes := bt_insert n (reserve_entry u (reservation_of u n request revision fence) (entry_of L n))
             (rl_nodes L),
           rl_unit_index := bt_insert u n (rl_unit_index L)\<rparr>)"
proof (cases "\<exists>e. reserve u n request A revision fence L = (Inl e, L)")
  case True
  then show ?thesis using refused by blast
next
  case False
  have eta: "\<lparr>nr_millicores = nr_millicores x, nr_memory_bytes = nr_memory_bytes x,
      nr_gpu_devices = nr_gpu_devices x, nr_ports = nr_ports x\<rparr> = x" for x
    by simp
  have p: "(if 0 < nr_ports x then nr_ports x else 0) = nr_ports x" for x by simp
  have c1: "\<not> bt_has (rl_unit_index L) u"
    using False by (cases "bt_has (rl_unit_index L) u") (simp_all add: reserve_def)
  have c2: "length (rl_unit_index L) < rl_max_reservations L"
    using False c1 by (cases "rl_max_reservations L \<le> length (rl_unit_index L)") (simp_all add: reserve_def)
  have c3: "bt_has (rl_nodes L) n \<or> length (rl_nodes L) < rl_max_nodes L"
    using False c1 c2
    by (cases "\<not> bt_has (rl_nodes L) n \<and> rl_max_nodes L \<le> length (rl_nodes L)") (auto simp: reserve_def)
  note c = c1 c2 c3
  have f: "fits (with_headroom request) (free_on L n A)"
  proof (rule ccontr)
    assume "\<not> fits (with_headroom request) (free_on L n A)"
    with False c show False
      by (auto simp: reserve_def Let_def fits_def all_dimensions not_le)
  qed
  then have "\<not> (nr_millicores (free_on L n A) < nr_millicores (with_headroom request)
               \<or> nr_memory_bytes (free_on L n A) < nr_memory_bytes (with_headroom request)
               \<or> nr_gpu_devices (free_on L n A) < nr_gpu_devices (with_headroom request)
               \<or> (nr_ports (with_headroom request) > 0 \<and> nr_ports (free_on L n A) < nr_ports (with_headroom request)))"
    by (auto simp: fits_def all_dimensions)
  then have "reserve u n request A revision fence L =
        (Inr (reservation_of u n request revision fence),
         L\<lparr>rl_nodes := bt_insert n (reserve_entry u (reservation_of u n request revision fence) (entry_of L n))
             (rl_nodes L),
           rl_unit_index := bt_insert u n (rl_unit_index L)\<rparr>)"
    using c unfolding reserve_def Let_def p eta
    by (auto simp: reservation_of_def reserve_entry_def entry_of_def)
  with c f show ?thesis by (rule reserved)
qed

lemma entry_of_ok:
  assumes "ledger_ok L"
  shows "bt_ok (nl_by_unit (entry_of L n))" "machine_sized (reserved_on L n)"
    "amount d (reserved_on L n) = units_total d (nl_by_unit (entry_of L n))"
    "bt_get (nl_by_unit (entry_of L n)) u = Some r \<Longrightarrow> rs_unit_id r = u \<and> rs_node_id r = n"
    "bt_get (rl_unit_index L) u = Some n \<longleftrightarrow> bt_has (nl_by_unit (entry_of L n)) u"
  using ledger_okD(3) [OF assms, of n] ledger_okD(4) [OF assms, of u n]
  unfolding reserved_on_entry entry_of_def
  by (auto simp: node_ok_def node_ledger_default_def machine_sized_def units_total_def bt_has_def
      split: option.splits)

lemma reserve_exact:
  assumes "ledger_ok L" and "machine_sized A" and "fits need (free_on L n A)"
  shows "amount d (resources_saturating_add (reserved_on L n) need) = amount d (reserved_on L n) + amount d need"
    and "amount d need = 0 \<or> amount d (reserved_on L n) + amount d need \<le> amount d A"
proof -
  have n: "amount d need \<le> amount d A - amount d (reserved_on L n)"
    using assms(3) by (simp add: fits_def free_on_def)
  have s: "amount d (reserved_on L n) \<le> ceiling_of d" "amount d A \<le> ceiling_of d"
    using entry_of_ok(2) [OF assms(1), of n] assms(2) by (simp_all add: machine_sized_def)
  show "amount d need = 0 \<or> amount d (reserved_on L n) + amount d need \<le> amount d A"
    using n by linarith
  then show "amount d (resources_saturating_add (reserved_on L n) need) = amount d (reserved_on L n) + amount d need"
    using s by (auto simp: amount_add)
qed

lemma units_total_insert:
  "bt_ok m \<Longrightarrow> bt_get m u = None \<Longrightarrow> units_total d (bt_insert u r m) = units_total d m + amount d (rs_resources r)"
  by (simp add: units_total_def bt_sum_insert bt_remove_absent)

lemma units_total_remove:
  "bt_ok m \<Longrightarrow> bt_get m u = Some r \<Longrightarrow> units_total d m = amount d (rs_resources r) + units_total d (bt_remove u m)"
  using bt_sum_split [of m "\<lambda>u r. amount d (rs_resources r)" u] by (simp add: units_total_def)

lemma reserve_entry_ok:
  assumes "ledger_ok L" "machine_sized A" "\<not> bt_has (rl_unit_index L) u"
    and "fits (rs_resources r) (free_on L n A)" and "rs_unit_id r = u" "rs_node_id r = n"
  shows "node_ok n (reserve_entry u r (entry_of L n))"
proof -
  note e = entry_of_ok [OF assms(1)]
  have fresh: "bt_get (nl_by_unit (entry_of L n)) u = None"
    using e(5) [of u n] assms(3) by (auto simp: bt_has_def)
  have x: "amount d (nl_reserved (reserve_entry u r (entry_of L n))) =
      amount d (reserved_on L n) + amount d (rs_resources r)" for d
    using reserve_exact(1) [OF assms(1,2,4)] by (simp add: reserve_entry_def reserved_on_entry)
  have "machine_sized (nl_reserved (reserve_entry u r (entry_of L n)))"
    unfolding machine_sized_def
    by (simp add: reserve_entry_def amount_add)
  moreover have "bt_insert u r m \<noteq> []" for m by (cases m) auto
  ultimately show ?thesis
    using e(1) [of n] e(4) [of n] assms(5,6) x
    by (auto simp: node_ok_def reserve_entry_def units_total_insert [OF e(1) fresh] e(3) [symmetric]
        bt_intros bt_simps split: if_splits)
qed

lemma reserve_ok:
  assumes "ledger_ok L" "machine_sized A"
  shows "ledger_ok (snd (reserve u n request A revision fence L))"
proof (cases rule: reserve_cases [of u n request A revision fence L])
  case reserved
  let ?r = "reservation_of u n request revision fence"
  let ?e = "reserve_entry u ?r (entry_of L n)"
  note d = ledger_okD [OF assms(1)]
  have ok: "node_ok n ?e"
    using reserved(1,4) assms by (intro reserve_entry_ok) (simp_all add: reservation_of_def)
  have idx: "bt_get (bt_insert u n (rl_unit_index L)) k = Some m \<longleftrightarrow>
      (\<exists>l. bt_get (bt_insert n ?e (rl_nodes L)) m = Some l \<and> bt_has (nl_by_unit l) k)" for k m
  proof (cases "m = n")
    case True
    then show ?thesis
      using entry_of_ok(5) [OF assms(1), of k n] by (auto simp: bt_simps reserve_entry_def)
  next
    case False
    have "\<not> bt_has (nl_by_unit l) u" if "bt_get (rl_nodes L) m = Some l" for l
      using d(4) [of u m] that reserved(1) by (auto simp: bt_has_def)
    then show ?thesis using False d(4) [of k m] by (auto simp: bt_simps)
  qed
  show ?thesis
    unfolding reserved(5) ledger_ok_def
    using d ok idx reserved(1-3)
    by (auto simp: bt_intros bt_simps bt_length_insert bt_has_def split: if_splits)
qed (use assms in simp)

lemma release_cases:
  assumes "ledger_ok L"
  obtains (absent) "bt_get (rl_unit_index L) u = None" "release u L = (None, L)"
  | (released) n l r where "bt_get (rl_unit_index L) u = Some n" "bt_get (rl_nodes L) n = Some l"
      "bt_get (nl_by_unit l) u = Some r" "node_ok n l"
      "release u L = (Some r, L\<lparr>rl_unit_index := bt_remove u (rl_unit_index L),
         rl_nodes := (if bt_remove u (nl_by_unit l) = [] then bt_remove n (rl_nodes L)
           else bt_insert n (l\<lparr>nl_by_unit := bt_remove u (nl_by_unit l),
             nl_reserved := resources_saturating_sub (nl_reserved l) (rs_resources r)\<rparr>) (rl_nodes L))\<rparr>)"
proof (cases "bt_get (rl_unit_index L) u")
  case (Some n)
  then obtain l r where l: "bt_get (rl_nodes L) n = Some l" "bt_get (nl_by_unit l) u = Some r"
    using ledger_okD(4) [OF assms, of u n] by (auto simp: bt_has_def)
  with Some show ?thesis
    using ledger_okD(3) [OF assms l(1)]
    by (intro released [of n l r]) (simp_all add: release_def Let_def)
qed (use absent in \<open>simp add: release_def\<close>)

lemma release_amounts:
  assumes "node_ok n l" "bt_get (nl_by_unit l) u = Some r"
  shows "amount d (resources_saturating_sub (nl_reserved l) (rs_resources r)) =
    units_total d (bt_remove u (nl_by_unit l))"
  using assms units_total_remove [of "nl_by_unit l" u r d] by (simp add: node_ok_def)

lemma release_ok:
  assumes "ledger_ok L"
  shows "ledger_ok (snd (release u L))"
  using assms
proof (cases rule: release_cases [where u = u])
  case (released n l r)
  note d = ledger_okD [OF assms]
  let ?l = "l\<lparr>nl_by_unit := bt_remove u (nl_by_unit l),
      nl_reserved := resources_saturating_sub (nl_reserved l) (rs_resources r)\<rparr>"
  let ?N = "rl_nodes (snd (release u L))"
  have N: "bt_get ?N m = (if m = n then (if bt_remove u (nl_by_unit l) = [] then None else Some ?l)
      else bt_get (rl_nodes L) m)" for m
    unfolding released(5) by (simp add: bt_simps)
  have "machine_sized (resources_saturating_sub (nl_reserved l) (rs_resources r))"
    using released(4) by (auto simp: node_ok_def machine_sized_def intro: diff_le_self order_trans)
  then have ok: "node_ok n ?l" if "bt_remove u (nl_by_unit l) \<noteq> []"
    using that released(4) release_amounts [OF released(4,3)]
    by (auto simp: node_ok_def bt_intros bt_simps split: if_splits)
  have empty: "bt_get (nl_by_unit l) k = None" if "bt_remove u (nl_by_unit l) = []" "k \<noteq> u" for k
    using arg_cong [OF that(1), of "\<lambda>m. bt_get m k"] that(2) by (simp add: bt_simps)
  have idx: "bt_get (bt_remove u (rl_unit_index L)) k = Some m \<longleftrightarrow>
      (\<exists>x. bt_get ?N m = Some x \<and> bt_has (nl_by_unit x) k)" for k m
  proof (cases "k = u")
    case True
    have "m = n" if "bt_get (rl_nodes L) m = Some x" "bt_has (nl_by_unit x) u" for x
      using d(4) [of u m] that released(1) by auto
    with True show ?thesis by (auto simp: N bt_simps)
  next
    case False
    then show ?thesis
      using d(4) [of k m] empty [of k] released(2) by (auto simp: N bt_simps bt_has_def)
  qed
  have "bt_ok ?N" unfolding released(5) using d(1) by (simp add: bt_intros)
  moreover have "node_ok m x" if "bt_get ?N m = Some x" for m x
    using that ok d(3) by (auto simp: N split: if_splits)
  moreover have "length ?N \<le> rl_max_nodes L"
    unfolding released(5) using d(1,6) released(2) bt_length_remove_le [of n "rl_nodes L"]
    by (auto simp: bt_length_insert bt_has_def)
  ultimately show ?thesis
    unfolding ledger_ok_def using d(2,5) idx bt_length_remove_le [of u "rl_unit_index L"]
    by (simp add: released(5) bt_intros)
qed (use assms in simp)

section \<open>Runs of the ledger\<close>

datatype ledger_command =
    Reserve unit_id node_id node_resources u64 u64
  | Release unit_id

fun ledger_step :: "(node_id \<Rightarrow> node_resources) \<Rightarrow> ledger_command \<Rightarrow> resource_ledger \<Rightarrow> resource_ledger" where
  "ledger_step alloc (Reserve u n request revision fence) L =
     snd (reserve u n request (alloc n) revision fence L)"
| "ledger_step alloc (Release u) L = snd (release u L)"

definition capacity_ok :: "(node_id \<Rightarrow> node_resources) \<Rightarrow> resource_ledger \<Rightarrow> bool" where
  "capacity_ok alloc L \<longleftrightarrow> ledger_ok L \<and> (\<forall>n. machine_sized (alloc n)) \<and> (\<forall>n. fits (reserved_on L n) (alloc n))"

lemma reserved_on_reserve:
  assumes "ledger_ok L" "machine_sized A" "fits (with_headroom request) (free_on L n A)"
  shows "amount d (reserved_on (L\<lparr>rl_nodes := bt_insert n
      (reserve_entry u (reservation_of u n request revision fence) (entry_of L n)) (rl_nodes L),
      rl_unit_index := x\<rparr>) k) =
    (if k = n then amount d (reserved_on L n) + amount d (with_headroom request) else amount d (reserved_on L k))"
  using reserve_exact(1) [OF assms, of d]
  by (simp add: reserved_on_entry) (simp add: entry_of_def bt_simps reserve_entry_def reservation_of_def)

lemma reserved_on_release_le:
  assumes "ledger_ok L"
  shows "amount d (reserved_on (snd (release u L)) k) \<le> amount d (reserved_on L k)"
  using assms
proof (cases rule: release_cases [where u = u])
  case (released n l r)
  then show ?thesis
    by (auto simp: reserved_on_def bt_simps)
qed simp

interpretation capacity: invariant_machine "ledger_step alloc" "capacity_ok alloc"
  for alloc :: "node_id \<Rightarrow> node_resources"
proof unfold_locales
  fix L c
  assume L: "capacity_ok alloc L"
  show "capacity_ok alloc (ledger_step alloc c L)"
  proof (cases c)
    case (Release u)
    then show ?thesis
      using L release_ok [of L u] reserved_on_release_le [of L _ u] order_trans
      unfolding capacity_ok_def fits_def by fastforce
  next
    case (Reserve u n request revision fence)
    have ok: "ledger_ok L" "machine_sized (alloc n)" "\<And>k d. amount d (reserved_on L k) \<le> amount d (alloc k)"
      using L by (auto simp: capacity_ok_def fits_def)
    show ?thesis
    proof (cases rule: reserve_cases [of u n request "alloc n" revision fence L])
      case reserved
      have "amount d (reserved_on L n) + amount d (with_headroom request) \<le> amount d (alloc n)" for d
        using reserve_exact(2) [OF ok(1,2) reserved(4), of d] ok(3) [of d n] by auto
      then have "fits (reserved_on (ledger_step alloc c L) k) (alloc k)" for k
        using ok(3) by (simp add: Reserve reserved(5) fits_def reserved_on_reserve [OF ok(1,2) reserved(4)])
      then show ?thesis
        using L reserve_ok [OF ok(1,2)] by (simp add: capacity_ok_def Reserve)
    qed (use L Reserve in simp)
  qed
qed

lemma ledger_new_ok [simp]: "ledger_ok ledger_new"
  by (simp add: ledger_ok_def ledger_new_def ledger_with_limits_def bt_has_def)

lemma capacity_ok_new: "(\<And>n. machine_sized (alloc n)) \<Longrightarrow> capacity_ok alloc ledger_new"
  using ledger_new_ok
  by (simp add: capacity_ok_def fits_def) (simp add: reserved_on_def ledger_new_def ledger_with_limits_def)

section \<open>Properties\<close>

definition demo_alloc :: node_resources where
  "demo_alloc = \<lparr>nr_millicores = 1000, nr_memory_bytes = 1000, nr_gpu_devices = 0, nr_ports = 2\<rparr>"

definition demo_request :: node_resources where
  "demo_request = \<lparr>nr_millicores = 500, nr_memory_bytes = 100, nr_gpu_devices = 0, nr_ports = 1\<rparr>"

definition demo_req :: workload_requirements where
  "demo_req = \<lparr>wr_workload_id = [], wr_unit_id = [1], wr_arch = ''arm64'', wr_driver = ''native'',
     wr_required_enforced = [], wr_request = demo_request, wr_requires_port = True,
     wr_lifecycle_finite = False\<rparr>"

definition demo_report :: capability_report where
  "demo_report = \<lparr>cr_node_id = [2], cr_revision = 1, cr_placement_fence = 1, cr_arch = ''arm64'',
     cr_drivers = [''native''], cr_capabilities = [], cr_allocatable = demo_alloc, cr_drained = False\<rparr>"

lemma demo_alloc_sized [simp]: "machine_sized demo_alloc"
  by (simp add: machine_sized_def all_dimensions demo_alloc_def u32_max_def u64_max_def)

lemmas ledger_eval =
  reserve_def ledger_new_def ledger_with_limits_def default_max_nodes_def default_max_reservations_def
  with_headroom_def div_ceil5_def free_on_def resources_saturating_sub_def resources_saturating_add_def
  reserved_on_def node_resources_default_def node_ledger_default_def bt_has_def bt_get_def
  sat_sub_def sat_add32_def sat_add64_def u32_max_def u64_max_def Let_def

text \<open>
  C10: no sequence of reservations and releases overcommits a node: what the ledger counts as
  reserved is, in every dimension, exactly what the live reservations on the node add up to, and
  never more than the node can allocate.
\<close>

theorem reservations_never_overcommit:
  assumes "\<And>n. machine_sized (alloc n)" and "L = fold (ledger_step alloc) cs ledger_new"
  shows "amount d (reserved_on L n) = units_total d (nl_by_unit (entry_of L n)) \<and>
    amount d (reserved_on L n) \<le> amount d (alloc n)"
proof -
  have "capacity_ok alloc L"
    unfolding assms(2) by (rule capacity.inv_run [OF capacity_ok_new]) (rule assms(1))
  then have "ledger_ok L" and "fits (reserved_on L n) (alloc n)" by (simp_all add: capacity_ok_def)
  then show ?thesis using entry_of_ok(3) by (auto simp: fits_def)
qed

definition demo_ledger :: resource_ledger where
  "demo_ledger = fold (ledger_step (\<lambda>n. demo_alloc))
     [Reserve [1] [2] demo_request 1 1, Reserve [3] [2] demo_request 1 1] ledger_new"

theorem reservations_never_overcommit_witness: "amount Millicores (reserved_on demo_ledger [2]) \<le> 1000"
  using reservations_never_overcommit [of "\<lambda>n. demo_alloc", OF demo_alloc_sized demo_ledger_def, of Millicores "[2]"]
  by (simp add: demo_alloc_def)

text \<open>
  Releasing a unit right after it was reserved returns its reservation and restores the ledger
  exactly, node entry and index included.
\<close>

theorem reserve_release_roundtrip:
  assumes "ledger_ok L" and "machine_sized A" and "reserve u n request A revision fence L = (Inr r, L')"
  shows "release u L' = (Some r, L)"
proof (cases rule: reserve_cases [of u n request A revision fence L])
  case reserved
  note d = ledger_okD [OF assms(1)] and e = entry_of_ok [OF assms(1)]
  let ?e = "reserve_entry u r (entry_of L n)"
  have r: "r = reservation_of u n request revision fence" and
    L': "L' = L\<lparr>rl_nodes := bt_insert n ?e (rl_nodes L), rl_unit_index := bt_insert u n (rl_unit_index L)\<rparr>"
    using reserved(5) assms(3) by simp_all
  have fresh: "bt_get (rl_unit_index L) u = None" "bt_get (nl_by_unit (entry_of L n)) u = None"
    using reserved(1) e(5) [of u n] by (auto simp: bt_has_def)
  have "amount d (resources_saturating_sub (nl_reserved ?e) (rs_resources r)) = amount d (nl_reserved (entry_of L n))" for d
    using reserve_exact(1) [OF assms(1,2) reserved(4), of d]
    by (simp add: r reserve_entry_def reservation_of_def reserved_on_entry)
  then have restored: "resources_saturating_sub (nl_reserved ?e) (rs_resources r) = nl_reserved (entry_of L n)"
    by (rule resources_eqI)
  have units: "bt_remove u (nl_by_unit ?e) = nl_by_unit (entry_of L n)"
    using e(1) fresh(2) by (simp add: reserve_entry_def bt_remove_insert bt_remove_absent)
  have index: "bt_remove u (bt_insert u n (rl_unit_index L)) = rl_unit_index L"
    using d(2) fresh(1) by (simp add: bt_remove_insert bt_remove_absent)
  have nodes: "(if nl_by_unit (entry_of L n) = [] then bt_remove n (bt_insert n ?e (rl_nodes L))
      else bt_insert n (entry_of L n) (bt_insert n ?e (rl_nodes L))) = rl_nodes L"
  proof (rule bt_ext)
    have "nl_by_unit (entry_of L n) = [] \<longleftrightarrow> bt_get (rl_nodes L) n = None"
      using d(3) [of n] by (auto simp: entry_of_def node_ok_def node_ledger_default_def split: option.splits)
    then show "bt_get (if nl_by_unit (entry_of L n) = [] then bt_remove n (bt_insert n ?e (rl_nodes L))
        else bt_insert n (entry_of L n) (bt_insert n ?e (rl_nodes L))) k = bt_get (rl_nodes L) k" for k
      by (auto simp: bt_simps entry_of_def split: option.splits)
  qed (use d(1) in \<open>simp_all add: bt_intros\<close>)
  have "bt_get (nl_by_unit ?e) u = Some r" by (simp add: reserve_entry_def bt_simps)
  moreover have same: "?e\<lparr>nl_by_unit := nl_by_unit (entry_of L n), nl_reserved := nl_reserved (entry_of L n)\<rparr> = entry_of L n"
    by (simp add: reserve_entry_def)
  ultimately show ?thesis
    using units restored index nodes by (simp add: release_def L' Let_def bt_simps same split: if_splits)
qed (use assms(3) in simp)

theorem reserve_release_roundtrip_witness:
  "snd (release [1] (snd (reserve [1] [2] demo_request demo_alloc 1 1 ledger_new))) = ledger_new"
proof -
  obtain r where "reserve [1] [2] demo_request demo_alloc 1 1 ledger_new =
      (Inr r, snd (reserve [1] [2] demo_request demo_alloc 1 1 ledger_new))"
    by (simp add: ledger_eval demo_request_def demo_alloc_def)
  from reserve_release_roundtrip [OF ledger_new_ok demo_alloc_sized this] show ?thesis by simp
qed

text \<open>What a node must offer a unit, requirement by requirement, with its reason code.\<close>

definition requirements ::
  "workload_requirements \<Rightarrow> capability_report \<Rightarrow> node_resources \<Rightarrow> (string \<times> bool) set" where
  "requirements req report free =
     {(node_drained, \<not> cr_drained report), (arch_mismatch, cr_arch report = wr_arch req),
      (driver_missing, wr_driver req \<in> set (cr_drivers report)),
      (capability_missing, \<forall>c \<in> set (wr_required_enforced req). capability_level report c \<noteq> None),
      (capability_not_enforced, \<forall>c \<in> set (wr_required_enforced req). capability_level report c \<in> {None, Some Enforced}),
      (millicores_code, nr_millicores (with_headroom (wr_request req)) \<le> nr_millicores free),
      (memory_code, nr_memory_bytes (with_headroom (wr_request req)) \<le> nr_memory_bytes free),
      (gpu_code, nr_gpu_devices (wr_request req) \<le> nr_gpu_devices free),
      (port_required, wr_requires_port req \<longrightarrow> 0 < nr_ports free)}"

lemma capability_codes:
  "er_code ` set (concat (map (capability_reasons report) cs)) =
     (if \<forall>c \<in> set cs. capability_level report c \<noteq> None then {} else {capability_missing}) \<union>
     (if \<forall>c \<in> set cs. capability_level report c \<in> {None, Some Enforced} then {} else {capability_not_enforced})"
proof -
  have one: "er_code ` set (capability_reasons report c) =
      (if capability_level report c = None then {capability_missing}
       else if capability_level report c = Some Enforced then {} else {capability_not_enforced})" for c
    by (auto simp: capability_reasons_def satisfies_enforcement_def reason_new_def split: option.splits)
  have "er_code ` set (concat (map (capability_reasons report) cs)) =
      (\<Union>c \<in> set cs. er_code ` set (capability_reasons report c))"
    by (auto simp: image_UN)
  also have "\<dots> =
     (if \<forall>c \<in> set cs. capability_level report c \<noteq> None then {} else {capability_missing}) \<union>
     (if \<forall>c \<in> set cs. capability_level report c \<in> {None, Some Enforced} then {} else {capability_not_enforced})"
    unfolding one by (induction cs) auto
  finally show ?thesis .
qed

text \<open>
  C32: the hard filter lists every failure: it accepts a node exactly when all requirements hold, and
  otherwise the codes it reports are exactly those of the requirements that fail.
\<close>

theorem hard_filter_lists_all:
  "(hard_filter req report free = Inr () \<longleftrightarrow> (\<forall>code. (code, False) \<notin> requirements req report free)) \<and>
   (\<forall>reasons. hard_filter req report free = Inl reasons \<longrightarrow>
      er_code ` set reasons = {code. (code, False) \<in> requirements req report free})"
proof -
  have f: "{code. (code, False) \<in> insert (c, P) S} = (if P then {} else {c}) \<union> {code. (code, False) \<in> S}"
    for c :: string and P S by auto
  have i: "er_code ` set (if P then [reason_new c v t] else []) = (if \<not> P then {} else {c})" for P c v t
    by (simp add: reason_new_def)
  have g: "nr_gpu_devices (with_headroom (wr_request req)) = nr_gpu_devices (wr_request req)"
    by (simp add: with_headroom_def)
  have "er_code ` set (hard_filter_reasons req report free) =
      {code. (code, False) \<in> requirements req report free}"
    unfolding hard_filter_reasons_def Let_def set_append image_Un capability_codes requirements_def f i g
    by (simp add: driver_supported_def list_ex_iff not_less Un_assoc Suc_le_eq)
  then show ?thesis
    by (auto simp: hard_filter_def Let_def set_empty [symmetric] simp del: set_empty)
qed

theorem hard_filter_lists_all_witness:
  "{code. (code, False) \<in> requirements demo_req demo_report (demo_alloc\<lparr>nr_ports := 0\<rparr>)} = {port_required}"
proof -
  have "\<exists>r. er_code r = port_required \<and> hard_filter demo_req demo_report (demo_alloc\<lparr>nr_ports := 0\<rparr>) = Inl [r]"
    by (simp add: hard_filter_def hard_filter_reasons_def demo_req_def demo_report_def demo_request_def demo_alloc_def
        driver_supported_def ledger_eval reason_new_def)
  then show ?thesis
    using hard_filter_lists_all [of demo_req demo_report "demo_alloc\<lparr>nr_ports := 0\<rparr>"] by auto
qed

end
