(* ===== verification/Placement.thy ===== *)
theory Placement
  imports Resource_Ledger "HOL-Library.Multiset"
begin

text \<open>
  The placement pipeline of the scheduler: the score of a surviving node
  (\<open>gump-scheduler/src/score.rs\<close>) and the controller that filters, scores, reserves and admits
  (\<open>gump-scheduler/src/place.rs\<close>). The hyphenated text of a node id comes from the UUID library; it
  is the parameter \<open>hyph\<close>.
\<close>

section \<open>Score\<close>

definition score_residual_headroom :: "node_resources \<Rightarrow> node_resources \<Rightarrow> i64 \<times> explain_reason" where
  "score_residual_headroom free request =
     (let need = with_headroom request;
          left = resources_saturating_sub free need;
          score = sat_add_i64
            (sat_add_i64 (int (nr_millicores left)) (as_i64 (nr_memory_bytes left div (1024 * 1024))))
            (int (nr_gpu_devices left) * 1000)
      in (score, reason_new score_headroom score ''residual headroom after headroomed request''))"

section \<open>Placement controller\<close>

record node_feasibility =
  nf_node_id :: node_id
  nf_feasible :: bool
  nf_reasons :: "explain_reason list"
  nf_score :: "i64 option"
  nf_score_explain :: "explain_reason option"

record placement_plan =
  pp_reservation :: reservation
  pp_score :: i64
  pp_score_explain :: explain_reason
  pp_matrix :: "node_feasibility list"

datatype placement_outcome =
    Scheduled placement_plan
  | Unschedulable "node_feasibility list" explain_reason

record placement_controller =
  pc_reports :: "(node_id, capability_report) btree"
  pc_ledger :: resource_ledger
  pc_max_reports :: usize

definition default_max_reports :: usize where "default_max_reports = 4096"

definition placement_new :: placement_controller where
  "placement_new = \<lparr>pc_reports = [], pc_ledger = ledger_new, pc_max_reports = default_max_reports\<rparr>"

text \<open>The derived \<open>Default\<close>, which takes the default of every field.\<close>

definition placement_default :: placement_controller where
  "placement_default = \<lparr>pc_reports = [], pc_ledger = ledger_new, pc_max_reports = 0\<rparr>"

definition upsert_report ::
  "capability_report \<Rightarrow> placement_controller \<Rightarrow> (explain_reason + unit) \<times> placement_controller" where
  "upsert_report report c =
     (let c1 = (if \<not> bt_has (pc_reports c) (cr_node_id report)
                   \<and> length (pc_reports c) \<ge> pc_max_reports c
                then (case pc_reports c of
                        [] \<Rightarrow> c
                      | (oldest, _) # _ \<Rightarrow> c\<lparr>pc_reports := bt_remove oldest (pc_reports c)\<rparr>)
                else c)
      in if \<not> bt_has (pc_reports c1) (cr_node_id report)
            \<and> length (pc_reports c1) \<ge> pc_max_reports c1
         then (Inl (reason_new ledger_full (as_i64 (pc_max_reports c1))
                 ''capability report ceiling reached''), c1)
         else (Inr (), c1\<lparr>pc_reports := bt_insert (cr_node_id report) report (pc_reports c1)\<rparr>))"

definition port_request :: "workload_requirements \<Rightarrow> workload_requirements" where
  "port_request req =
     (if wr_requires_port req \<and> nr_ports (wr_request req) = 0
      then req\<lparr>wr_request := (wr_request req)\<lparr>nr_ports := 1\<rparr>\<rparr> else req)"

type_synonym candidate = "node_id \<times> i64 \<times> explain_reason"

definition take_candidate ::
  "(node_id \<Rightarrow> string) \<Rightarrow> candidate option \<Rightarrow> node_id \<Rightarrow> i64 \<Rightarrow> bool" where
  "take_candidate hyph best n score =
     (case best of
        None \<Rightarrow> True
      | Some (nid, best_score, _) \<Rightarrow>
          score > best_score \<or> (score = best_score \<and> hyph n < hyph nid))"

definition scan_node ::
  "(node_id \<Rightarrow> string) \<Rightarrow> workload_requirements \<Rightarrow> resource_ledger \<Rightarrow> capability_report \<Rightarrow>
    node_feasibility list \<times> candidate option \<Rightarrow> node_feasibility list \<times> candidate option" where
  "scan_node hyph req L report acc =
     (let (matrix, best) = acc;
          free = free_on L (cr_node_id report) (cr_allocatable report)
      in case hard_filter req report free of
           Inr _ \<Rightarrow>
             (let (score, explain) = score_residual_headroom free (wr_request req)
              in (matrix @ [\<lparr>nf_node_id = cr_node_id report, nf_feasible = True, nf_reasons = [],
                             nf_score = Some score, nf_score_explain = Some explain\<rparr>],
                  if take_candidate hyph best (cr_node_id report) score
                  then Some (cr_node_id report, score, explain) else best))
         | Inl reasons \<Rightarrow>
             (matrix @ [\<lparr>nf_node_id = cr_node_id report, nf_feasible = False, nf_reasons = reasons,
                         nf_score = None, nf_score_explain = None\<rparr>], best))"

definition place ::
  "(node_id \<Rightarrow> string) \<Rightarrow> workload_requirements \<Rightarrow> placement_controller \<Rightarrow>
    placement_outcome \<times> placement_controller" where
  "place hyph req0 c =
     (let req = port_request req0;
          (rows, best) = fold (scan_node hyph req (pc_ledger c)) (bt_values (pc_reports c)) ([], None);
          matrix = sort_key (\<lambda>n. hyph (nf_node_id n)) rows
      in case best of
           None \<Rightarrow> (Unschedulable matrix (reason_new no_candidate 0 ''no node passed hard filters''), c)
         | Some (n, score, explain) \<Rightarrow>
           (case bt_get (pc_reports c) n of
              None \<Rightarrow> (Unschedulable matrix (reason_new no_candidate 0 ''selected node vanished''), c)
            | Some report \<Rightarrow>
              (case reserve (wr_unit_id req) n (wr_request req) (cr_allocatable report)
                      (cr_revision report) (cr_placement_fence report) (pc_ledger c) of
                 (Inr r, L) \<Rightarrow>
                   (Scheduled \<lparr>pp_reservation = r, pp_score = score, pp_score_explain = explain,
                               pp_matrix = matrix\<rparr>, c\<lparr>pc_ledger := L\<rparr>)
               | (Inl reason, L) \<Rightarrow>
                   (Unschedulable
                      (map (\<lambda>row. if nf_node_id row = n
                                  then row\<lparr>nf_feasible := False, nf_reasons := nf_reasons row @ [reason],
                                           nf_score := None, nf_score_explain := None\<rparr>
                                  else row) matrix) reason, c\<lparr>pc_ledger := L\<rparr>))))"

definition admit :: "reservation \<Rightarrow> capability_report \<Rightarrow> explain_reason list + unit" where
  "admit r live =
     (let r1 = (if cr_node_id live \<noteq> rs_node_id r
                then [reason_new stale_capability 0 ''admit node_id does not match reservation''] else []);
          r2 = (if cr_revision live \<noteq> rs_capability_revision r
                then [reason_new stale_capability (as_i64 (cr_revision live))
                       (''capability revision '' @ show_nat (cr_revision live) @ '' != reserved ''
                         @ show_nat (rs_capability_revision r))] else []);
          r3 = (if cr_placement_fence live \<noteq> rs_placement_fence r
                then [reason_new stale_fence (as_i64 (cr_placement_fence live))
                       (''placement fence '' @ show_nat (cr_placement_fence live) @ '' != reserved ''
                         @ show_nat (rs_placement_fence r))] else []);
          reasons = r1 @ r2 @ r3
      in if reasons = [] then Inr () else Inl reasons)"

section \<open>The scan\<close>

definition offers :: "workload_requirements \<Rightarrow> resource_ledger \<Rightarrow> capability_report \<Rightarrow> bool" where
  "offers req L r \<longleftrightarrow> hard_filter req r (free_on L (cr_node_id r) (cr_allocatable r)) = Inr ()"

definition score_of :: "workload_requirements \<Rightarrow> resource_ledger \<Rightarrow> capability_report \<Rightarrow> i64" where
  "score_of req L r = fst (score_residual_headroom (free_on L (cr_node_id r) (cr_allocatable r)) (wr_request req))"

definition row_of :: "workload_requirements \<Rightarrow> resource_ledger \<Rightarrow> capability_report \<Rightarrow> node_feasibility" where
  "row_of req L r = (case hard_filter req r (free_on L (cr_node_id r) (cr_allocatable r)) of
     Inr _ \<Rightarrow> \<lparr>nf_node_id = cr_node_id r, nf_feasible = True, nf_reasons = [],
       nf_score = Some (score_of req L r),
       nf_score_explain = Some (snd (score_residual_headroom (free_on L (cr_node_id r) (cr_allocatable r)) (wr_request req)))\<rparr>
   | Inl reasons \<Rightarrow> \<lparr>nf_node_id = cr_node_id r, nf_feasible = False, nf_reasons = reasons,
       nf_score = None, nf_score_explain = None\<rparr>)"

text \<open>
  A report beats another when its score is higher, or equal with the smaller hyphenated id.
\<close>

definition best_of ::
  "(node_id \<Rightarrow> string) \<Rightarrow> workload_requirements \<Rightarrow> resource_ledger \<Rightarrow> capability_report set \<Rightarrow> capability_report \<Rightarrow> bool"
where
  "best_of hyph req L S r \<longleftrightarrow> r \<in> S \<and> offers req L r \<and>
     (\<forall>x \<in> S. offers req L x \<longrightarrow> score_of req L x < score_of req L r \<or>
        (score_of req L x = score_of req L r \<and> hyph (cr_node_id r) \<le> hyph (cr_node_id x)))"

definition scan_ok ::
  "(node_id \<Rightarrow> string) \<Rightarrow> workload_requirements \<Rightarrow> resource_ledger \<Rightarrow> capability_report list \<Rightarrow>
    node_feasibility list \<times> candidate option \<Rightarrow> bool" where
  "scan_ok hyph req L rs acc \<longleftrightarrow> fst acc = map (row_of req L) rs \<and>
     (case snd acc of
        None \<Rightarrow> \<forall>x \<in> set rs. \<not> offers req L x
      | Some (n, score, explain) \<Rightarrow>
          \<exists>r. best_of hyph req L (set rs) r \<and> n = cr_node_id r \<and> score = score_of req L r)"

lemma scan_node_ok:
  assumes "scan_ok hyph req L rs acc"
  shows "scan_ok hyph req L (rs @ [r]) (scan_node hyph req L r acc)"
proof (cases "offers req L r")
  case False
  then obtain reasons where h: "hard_filter req r (free_on L (cr_node_id r) (cr_allocatable r)) = Inl reasons"
    by (cases "hard_filter req r (free_on L (cr_node_id r) (cr_allocatable r))") (auto simp: offers_def)
  then show ?thesis
    using assms False
    by (auto simp: scan_ok_def scan_node_def row_of_def Let_def best_of_def split: prod.splits option.splits)
next
  case True
  then have h: "hard_filter req r (free_on L (cr_node_id r) (cr_allocatable r)) = Inr ()" by (simp add: offers_def)
  obtain m b where acc: "acc = (m, b)" by fastforce
  have rows: "fst (scan_node hyph req L r acc) = map (row_of req L) (rs @ [r])"
    using assms h by (simp add: scan_ok_def scan_node_def row_of_def acc Let_def score_of_def split: prod.splits)
  show ?thesis
  proof (cases b)
    case None
    then have "best_of hyph req L (set (rs @ [r])) r"
      using assms True by (auto simp: best_of_def scan_ok_def acc)
    with rows None show ?thesis
      by (auto simp: scan_ok_def scan_node_def acc h Let_def take_candidate_def score_of_def split: prod.splits)
  next
    case (Some cand)
    obtain n sc ex where cand: "cand = (n, sc, ex)" by (cases cand) auto
    with assms Some obtain q where q: "best_of hyph req L (set rs) q" "n = cr_node_id q" "sc = score_of req L q"
      by (auto simp: scan_ok_def acc)
    show ?thesis
    proof (cases "take_candidate hyph b (cr_node_id r) (score_of req L r)")
      case take: True
      then have "best_of hyph req L (set (rs @ [r])) r"
        using q True by (fastforce simp: best_of_def take_candidate_def Some cand)
      with rows take show ?thesis
        by (auto simp: scan_ok_def scan_node_def acc h Let_def score_of_def split: prod.splits)
    next
      case skip: False
      then have "best_of hyph req L (set (rs @ [r])) q"
        using q True by (auto simp: best_of_def take_candidate_def Some cand not_less)
      with rows skip q Some cand show ?thesis
        by (auto simp: scan_ok_def scan_node_def acc h Let_def score_of_def split: prod.splits)
    qed
  qed
qed


lemma scan_fold_ok:
  "scan_ok hyph req L ds acc \<Longrightarrow> scan_ok hyph req L (ds @ rs) (fold (scan_node hyph req L) rs acc)"
proof (induction rs arbitrary: acc ds)
  case (Cons r rs)
  from Cons.IH [OF scan_node_ok [OF Cons.prems, of r]] show ?case by simp
qed simp

lemma scan_all_ok: "scan_ok hyph req L rs (fold (scan_node hyph req L) rs ([], None))"
  using scan_fold_ok [of hyph req L "[]" "([], None)" rs] by (simp add: scan_ok_def)

section \<open>Invariant and outcomes\<close>

definition placement_ok :: "placement_controller \<Rightarrow> bool" where
  "placement_ok c \<longleftrightarrow> bt_ok (pc_reports c) \<and> length (pc_reports c) \<le> pc_max_reports c \<and>
     (\<forall>n r. bt_get (pc_reports c) n = Some r \<longrightarrow> cr_node_id r = n \<and> machine_sized (cr_allocatable r)) \<and>
     ledger_ok (pc_ledger c)"

lemma placement_okD:
  assumes "placement_ok c"
  shows "bt_ok (pc_reports c)" "length (pc_reports c) \<le> pc_max_reports c"
    "bt_get (pc_reports c) n = Some r \<Longrightarrow> cr_node_id r = n"
    "bt_get (pc_reports c) n = Some r \<Longrightarrow> machine_sized (cr_allocatable r)"
    "ledger_ok (pc_ledger c)"
  using assms by (auto simp: placement_ok_def)

abbreviation reports_of :: "placement_controller \<Rightarrow> capability_report set" where
  "reports_of c \<equiv> set (bt_values (pc_reports c))"

lemma reports_of_iff:
  assumes "placement_ok c"
  shows "r \<in> reports_of c \<longleftrightarrow> bt_get (pc_reports c) (cr_node_id r) = Some r"
proof
  assume "r \<in> reports_of c"
  then obtain n where "(n, r) \<in> set (pc_reports c)" by (auto simp: bt_values_def)
  then have "bt_get (pc_reports c) n = Some r" by (simp only: bt_in_set_iff [OF placement_okD(1) [OF assms]])
  then show "bt_get (pc_reports c) (cr_node_id r) = Some r" using placement_okD(3) [OF assms, of n r] by simp
next
  assume "bt_get (pc_reports c) (cr_node_id r) = Some r"
  then have "(cr_node_id r, r) \<in> set (pc_reports c)" by (rule bt_get_in_set)
  then have "snd (cr_node_id r, r) \<in> snd ` set (pc_reports c)" by (rule imageI)
  then show "r \<in> reports_of c" by (simp add: bt_values_def)
qed

lemma report_ids:
  assumes "placement_ok c"
  shows "map cr_node_id (bt_values (pc_reports c)) = map fst (pc_reports c)"
proof -
  have "cr_node_id (snd e) = fst e" if "e \<in> set (pc_reports c)" for e
    using that bt_in_set_iff [OF placement_okD(1) [OF assms], of "fst e" "snd e"]
      placement_okD(3) [OF assms, of "fst e" "snd e"] by simp
  then show ?thesis by (simp add: bt_values_def)
qed

definition full_matrix ::
  "(node_id \<Rightarrow> string) \<Rightarrow> workload_requirements \<Rightarrow> placement_controller \<Rightarrow> node_feasibility list" where
  "full_matrix hyph req c =
     sort_key (\<lambda>n. hyph (nf_node_id n)) (map (row_of req (pc_ledger c)) (bt_values (pc_reports c)))"

definition fail_row :: "node_id \<Rightarrow> explain_reason \<Rightarrow> node_feasibility \<Rightarrow> node_feasibility" where
  "fail_row n reason row =
     (if nf_node_id row = n
      then row\<lparr>nf_feasible := False, nf_reasons := nf_reasons row @ [reason],
               nf_score := None, nf_score_explain := None\<rparr> else row)"

lemma place_cases:
  assumes "placement_ok c"
  obtains (nobody) "\<forall>r \<in> reports_of c. \<not> offers (port_request req) (pc_ledger c) r"
      "place hyph req c = (Unschedulable (full_matrix hyph (port_request req) c)
         (reason_new no_candidate 0 ''no node passed hard filters''), c)"
  | (refused) r e where "best_of hyph (port_request req) (pc_ledger c) (reports_of c) r"
      "reserve (wr_unit_id req) (cr_node_id r) (wr_request (port_request req)) (cr_allocatable r)
         (cr_revision r) (cr_placement_fence r) (pc_ledger c) = (Inl e, pc_ledger c)"
      "place hyph req c = (Unschedulable
         (map (fail_row (cr_node_id r) e) (full_matrix hyph (port_request req) c)) e, c)"
  | (placed) r ex L where "best_of hyph (port_request req) (pc_ledger c) (reports_of c) r"
      "reserve (wr_unit_id req) (cr_node_id r) (wr_request (port_request req)) (cr_allocatable r)
         (cr_revision r) (cr_placement_fence r) (pc_ledger c) =
         (Inr (reservation_of (wr_unit_id req) (cr_node_id r) (wr_request (port_request req))
            (cr_revision r) (cr_placement_fence r)), L)"
      "place hyph req c = (Scheduled
         \<lparr>pp_reservation = reservation_of (wr_unit_id req) (cr_node_id r) (wr_request (port_request req))
            (cr_revision r) (cr_placement_fence r),
          pp_score = score_of (port_request req) (pc_ledger c) r, pp_score_explain = ex,
          pp_matrix = full_matrix hyph (port_request req) c\<rparr>, c\<lparr>pc_ledger := L\<rparr>)"
proof -
  let ?q = "port_request req"
  obtain rows best where fld: "fold (scan_node hyph ?q (pc_ledger c)) (bt_values (pc_reports c)) ([], None) = (rows, best)"
    by fastforce
  have ok: "scan_ok hyph ?q (pc_ledger c) (bt_values (pc_reports c)) (rows, best)"
    using scan_all_ok [of hyph ?q "pc_ledger c" "bt_values (pc_reports c)"] fld by simp
  then have m: "sort_key (\<lambda>n. hyph (nf_node_id n)) rows = full_matrix hyph ?q c"
    by (simp add: scan_ok_def full_matrix_def)
  have u: "wr_unit_id ?q = wr_unit_id req" by (simp add: port_request_def)
  show ?thesis
  proof (cases best)
    case None
    with ok have "\<forall>r \<in> reports_of c. \<not> offers ?q (pc_ledger c) r" by (simp add: scan_ok_def)
    moreover have "place hyph req c = (Unschedulable (full_matrix hyph ?q c)
         (reason_new no_candidate 0 ''no node passed hard filters''), c)"
      by (simp add: place_def fld m None)
    ultimately show ?thesis by (rule nobody)
  next
    case (Some cand)
    then obtain n sc ex where cand: "best = Some (n, sc, ex)" by (cases cand) auto
    with ok obtain r where r: "best_of hyph ?q (pc_ledger c) (reports_of c) r" "n = cr_node_id r"
        "sc = score_of ?q (pc_ledger c) r"
      by (auto simp: scan_ok_def)
    then have g: "bt_get (pc_reports c) n = Some r"
      using reports_of_iff [OF assms] by (simp add: best_of_def)
    show ?thesis
    proof (cases rule: reserve_cases [of "wr_unit_id req" n "wr_request ?q" "cr_allocatable r"
          "cr_revision r" "cr_placement_fence r" "pc_ledger c"])
      case res: (refused e)
      then have "place hyph req c = (Unschedulable (map (fail_row (cr_node_id r) e) (full_matrix hyph ?q c)) e, c)"
        using r g by (simp add: place_def fld m cand u fail_row_def [abs_def])
      with r res show ?thesis by (metis refused)
    next
      case reserved
      note res = reserved(5) [unfolded r(2)]
      have "place hyph req c = (Scheduled
         \<lparr>pp_reservation = reservation_of (wr_unit_id req) (cr_node_id r) (wr_request ?q)
            (cr_revision r) (cr_placement_fence r),
          pp_score = score_of ?q (pc_ledger c) r, pp_score_explain = ex,
          pp_matrix = full_matrix hyph ?q c\<rparr>, c\<lparr>pc_ledger := snd (reserve (wr_unit_id req) (cr_node_id r) (wr_request ?q)
            (cr_allocatable r) (cr_revision r) (cr_placement_fence r) (pc_ledger c))\<rparr>)"
        using r g by (simp add: place_def fld m cand u res Let_def)
      with r res show ?thesis by (intro placed [of r]) auto
    qed
  qed
qed

lemma place_ok:
  assumes "placement_ok c"
  shows "placement_ok (snd (place hyph req c))"
  using assms
proof (cases rule: place_cases [of c req hyph])
  case (placed r ex L)
  then have "bt_get (pc_reports c) (cr_node_id r) = Some r"
    using reports_of_iff [OF assms] by (simp add: best_of_def)
  then have "machine_sized (cr_allocatable r)" using placement_okD(4) [OF assms] by blast
  with placed(2) have "ledger_ok L"
    using reserve_ok [OF placement_okD(5) [OF assms], of "cr_allocatable r"] by (metis snd_conv)
  with assms placed(3) show ?thesis by (simp add: placement_ok_def)
qed (use assms in simp_all)

lemma upsert_report_cases:
  assumes "placement_ok c" and "0 < pc_max_reports c"
  shows "\<exists>m. bt_ok m \<and> (\<forall>n r. bt_get m n = Some r \<longrightarrow> bt_get (pc_reports c) n = Some r) \<and>
    length (bt_insert (cr_node_id report) report m) \<le> pc_max_reports c \<and>
    upsert_report report c = (Inr (), c\<lparr>pc_reports := bt_insert (cr_node_id report) report m\<rparr>)"
proof (cases "\<not> bt_has (pc_reports c) (cr_node_id report) \<and> length (pc_reports c) \<ge> pc_max_reports c")
  case False
  then show ?thesis
    using placement_okD(1,2) [OF assms(1)]
    by (intro exI [of _ "pc_reports c"]) (auto simp: upsert_report_def bt_length_insert bt_has_def)
next
  case True
  then obtain k v m where r: "pc_reports c = (k, v) # m"
    using assms(2) by (cases "pc_reports c") auto
  have ok: "bt_ok m" "bt_remove k (pc_reports c) = m" "\<forall>x \<in> set m. k < fst x"
    using placement_okD(1) [OF assms(1)] by (auto simp: r bt_ok_Cons bt_remove_Cons bt_remove_above)
  have "bt_get m k = None" using ok(3) by (auto simp: bt_get_None_iff)
  then have sub: "bt_get m n = Some x \<Longrightarrow> bt_get (pc_reports c) n = Some x" for n x
    by (auto simp: r bt_get_Cons)
  have fresh: "bt_get m (cr_node_id report) = None"
    using True by (auto simp: r bt_has_def bt_get_Cons split: if_splits)
  have "length m < pc_max_reports c" using True placement_okD(2) [OF assms(1)] by (simp add: r)
  then show ?thesis
    using True ok sub fresh
    by (intro exI [of _ m]) (simp add: upsert_report_def r bt_length_insert bt_has_def)
qed

section \<open>Properties\<close>

text \<open>
  A placement controller as its constructor new builds it accepts every capability report: the report is
  stored, the corpus stays within its ceiling and every other report that remains is one it already
  held. A controller from the derived default has a ceiling of zero and refuses every report.
\<close>

theorem upsert_report_bounded:
  assumes "placement_ok c" and "0 < pc_max_reports c" and "machine_sized (cr_allocatable report)"
  shows "(\<exists>c'. upsert_report report c = (Inr (), c') \<and> placement_ok c' \<and>
      bt_get (pc_reports c') (cr_node_id report) = Some report \<and>
      (\<forall>n r. n \<noteq> cr_node_id report \<longrightarrow> bt_get (pc_reports c') n = Some r \<longrightarrow>
         bt_get (pc_reports c) n = Some r)) \<and>
    upsert_report report placement_default =
      (Inl (reason_new ledger_full 0 ''capability report ceiling reached''), placement_default)"
proof -
  from upsert_report_cases [OF assms(1,2), of report] obtain m where
    m: "bt_ok m" "\<And>n r. bt_get m n = Some r \<Longrightarrow> bt_get (pc_reports c) n = Some r"
      "length (bt_insert (cr_node_id report) report m) \<le> pc_max_reports c"
      "upsert_report report c = (Inr (), c\<lparr>pc_reports := bt_insert (cr_node_id report) report m\<rparr>)"
    by blast
  have "placement_ok (c\<lparr>pc_reports := bt_insert (cr_node_id report) report m\<rparr>)"
    using m(1,3) m(2) assms(1,3) by (auto simp: placement_ok_def bt_intros bt_simps split: if_splits)
  then have "\<exists>c'. upsert_report report c = (Inr (), c') \<and> placement_ok c' \<and>
      bt_get (pc_reports c') (cr_node_id report) = Some report \<and>
      (\<forall>n r. n \<noteq> cr_node_id report \<longrightarrow> bt_get (pc_reports c') n = Some r \<longrightarrow>
         bt_get (pc_reports c) n = Some r)"
    using m(2,4) by (auto simp: bt_simps)
  moreover have "upsert_report report placement_default =
      (Inl (reason_new ledger_full 0 ''capability report ceiling reached''), placement_default)"
    by (simp add: upsert_report_def placement_default_def bt_has_def as_i64_def)
  ultimately show ?thesis by blast
qed

lemma placement_new_ok [simp]: "placement_ok placement_new"
  by (simp add: placement_ok_def placement_new_def)

theorem upsert_report_bounded_witness:
  "\<exists>c. upsert_report demo_report placement_new = (Inr (), c) \<and> placement_ok c"
  using upsert_report_bounded [of placement_new demo_report] placement_new_ok
  by (auto simp: placement_new_def default_max_reports_def demo_report_def)

text \<open>
  C13: a scheduled unit is on the best node: its report passes every hard filter, no other feasible
  node has a higher score, and among equal scores it has the smallest hyphenated id. The plan pins
  the revision and fence of that report, the ledger holds exactly that reservation for the unit, and
  admission of the plan succeeds for the report that was used.
\<close>

theorem place_selects_best:
  assumes "placement_ok c" and "place hyph req c = (Scheduled plan, c')"
  shows "\<exists>r. best_of hyph (port_request req) (pc_ledger c) (reports_of c) r \<and>
    pp_score plan = score_of (port_request req) (pc_ledger c) r \<and>
    pp_reservation plan = reservation_of (wr_unit_id req) (cr_node_id r) (wr_request (port_request req))
      (cr_revision r) (cr_placement_fence r) \<and>
    ledger_get (pc_ledger c') (wr_unit_id req) = Some (pp_reservation plan) \<and>
    pc_reports c' = pc_reports c \<and> admit (pp_reservation plan) r = Inr ()"
  using assms(1)
proof (cases rule: place_cases [of c req hyph])
  case (placed r ex L)
  have "ledger_get L (wr_unit_id req) = Some (reservation_of (wr_unit_id req) (cr_node_id r)
      (wr_request (port_request req)) (cr_revision r) (cr_placement_fence r))"
    using placed(2)
    by (cases rule: reserve_cases [of "wr_unit_id req" "cr_node_id r" "wr_request (port_request req)"
          "cr_allocatable r" "cr_revision r" "cr_placement_fence r" "pc_ledger c"])
      (auto simp: ledger_get_def bt_simps reserve_entry_def)
  with placed assms(2) show ?thesis
    by (intro exI [of _ r]) (auto simp: admit_def reservation_of_def)
qed (use assms(2) in simp_all)

definition demo_controller :: placement_controller where
  "demo_controller = snd (upsert_report (demo_report\<lparr>cr_node_id := [3]\<rparr>)
     (snd (upsert_report demo_report placement_new)))"

lemma demo_controller_eq:
  "demo_controller = \<lparr>pc_reports = [([2], demo_report), ([3], demo_report\<lparr>cr_node_id := [3]\<rparr>)],
     pc_ledger = ledger_new, pc_max_reports = 4096\<rparr>"
  by (simp add: demo_controller_def upsert_report_def placement_new_def default_max_reports_def
      demo_report_def bt_has_def bt_get_def)

lemma demo_controller_ok: "placement_ok demo_controller"
  unfolding demo_controller_eq
  by (auto simp: placement_ok_def bt_ok_Cons bt_get_Cons demo_report_def split: if_splits)

lemmas place_eval = place_def scan_node_def port_request_def take_candidate_def hard_filter_def
  hard_filter_reasons_def driver_supported_def score_residual_headroom_def sat_add_i64_def
  as_i64_def i64_max_def i64_min_def bt_values_def ledger_eval reason_new_def

theorem place_selects_best_witness:
  "\<exists>plan c'. place (\<lambda>n. ''a'') demo_req demo_controller = (Scheduled plan, c') \<and>
     ledger_get (pc_ledger c') [1] = Some (pp_reservation plan)"
proof -
  have "\<exists>plan c'. place (\<lambda>n. ''a'') demo_req demo_controller = (Scheduled plan, c')"
    unfolding demo_controller_eq
    by (simp add: place_eval demo_req_def demo_report_def demo_request_def demo_alloc_def)
  then obtain plan c' where p: "place (\<lambda>n. ''a'') demo_req demo_controller = (Scheduled plan, c')" by blast
  have "wr_unit_id demo_req = [1]" by (simp add: demo_req_def)
  with place_selects_best [OF demo_controller_ok p] p show ?thesis by auto
qed

fun matrix_of :: "placement_outcome \<Rightarrow> node_feasibility list" where
  "matrix_of (Scheduled plan) = pp_matrix plan"
| "matrix_of (Unschedulable matrix summary) = matrix"

lemma row_of_id [simp]: "nf_node_id (row_of req L r) = cr_node_id r"
  by (simp add: row_of_def split: sum.splits)

lemma hard_filter_reasons_ne: "hard_filter req r free = Inl reasons \<Longrightarrow> reasons \<noteq> []"
  by (auto simp: hard_filter_def Let_def split: if_splits)

definition row_explained :: "node_feasibility \<Rightarrow> bool" where
  "row_explained row \<longleftrightarrow> (nf_feasible row \<longleftrightarrow> nf_reasons row = []) \<and> (nf_feasible row \<longleftrightarrow> nf_score row \<noteq> None)"

lemma row_of_explained: "row_explained (row_of req L r)"
  by (auto simp: row_explained_def row_of_def dest: hard_filter_reasons_ne split: sum.splits)

lemma fail_row_explained: "row_explained row \<Longrightarrow> row_explained (fail_row n e row)"
  by (auto simp: row_explained_def fail_row_def)

lemma fail_row_id [simp]: "nf_node_id (fail_row n e row) = nf_node_id row"
  by (simp add: fail_row_def)

lemma full_matrix_props:
  assumes "placement_ok c"
  shows "image_mset nf_node_id (mset (full_matrix hyph req c)) = mset (map fst (pc_reports c))"
    and "sorted (map (\<lambda>row. hyph (nf_node_id row)) (full_matrix hyph req c))"
    and "\<forall>row \<in> set (full_matrix hyph req c). row_explained row"
proof -
  have "map nf_node_id (map (row_of req (pc_ledger c)) (bt_values (pc_reports c))) = map fst (pc_reports c)"
    using report_ids [OF assms] by (simp add: comp_def)
  then show "image_mset nf_node_id (mset (full_matrix hyph req c)) = mset (map fst (pc_reports c))"
    unfolding full_matrix_def mset_sort by (metis mset_map)
qed (auto simp: full_matrix_def row_of_explained)

text \<open>
  C33: every placement answers for every node: the matrix has exactly one row per known node, in the
  order of the hyphenated ids; a row is feasible exactly when it carries a score and no reason. An
  unschedulable outcome leaves the controller unchanged, and reports that no node passed exactly when
  none passes the hard filters.
\<close>

theorem place_explains_every_node:
  assumes "placement_ok c" and "place hyph req c = (out, c')"
  shows "mset (map nf_node_id (matrix_of out)) = mset (map fst (pc_reports c)) \<and>
    sorted (map (\<lambda>row. hyph (nf_node_id row)) (matrix_of out)) \<and>
    (\<forall>row \<in> set (matrix_of out). row_explained row) \<and>
    (\<forall>matrix summary. out = Unschedulable matrix summary \<longrightarrow> c' = c \<and>
       (er_code summary = no_candidate \<longleftrightarrow>
          (\<forall>r \<in> reports_of c. \<not> offers (port_request req) (pc_ledger c) r)))"
  using assms(1)
proof (cases rule: place_cases [of c req hyph])
  case nobody
  then show ?thesis
    using assms(2) full_matrix_props [OF assms(1), of hyph "port_request req"] by (auto simp: reason_new_def)
next
  case (refused r e)
  have "er_code e \<noteq> no_candidate"
    using refused(2) by (auto simp: reserve_def reason_new_def codes Let_def split: if_splits)
  moreover have "map (\<lambda>row. hyph (nf_node_id row)) (map (fail_row (cr_node_id r) e) m) =
      map (\<lambda>row. hyph (nf_node_id row)) m" for m by simp
  moreover have "r \<in> reports_of c" "offers (port_request req) (pc_ledger c) r"
    using refused(1) by (simp_all add: best_of_def)
  ultimately show ?thesis
    using refused(3) assms(2) full_matrix_props [OF assms(1), of hyph "port_request req"]
    by (auto simp: fail_row_explained image_mset.compositionality comp_def)
next
  case (placed r ex L)
  then show ?thesis
    using assms(2) full_matrix_props [OF assms(1), of hyph "port_request req"] by auto
qed

theorem place_explains_every_node_witness:
  "mset (map nf_node_id (matrix_of (fst (place (\<lambda>n. ''a'') demo_req demo_controller)))) = {#[2], [3]#}"
proof -
  have "pc_reports demo_controller = [([2], demo_report), ([3], demo_report\<lparr>cr_node_id := [3]\<rparr>)]"
    by (simp add: demo_controller_eq)
  then show ?thesis
    using place_explains_every_node [OF demo_controller_ok, of "\<lambda>n. ''a''" demo_req
        "fst (place (\<lambda>n. ''a'') demo_req demo_controller)" "snd (place (\<lambda>n. ''a'') demo_req demo_controller)"]
    by simp
qed

text \<open>
  Admission fails closed: it accepts exactly when node, capability revision and placement fence
  of the live report all match the reservation, and otherwise gives one reason per mismatch.
\<close>

theorem admit_exact:
  "(admit r live = Inr () \<longleftrightarrow> cr_node_id live = rs_node_id r \<and>
      cr_revision live = rs_capability_revision r \<and> cr_placement_fence live = rs_placement_fence r) \<and>
   (\<forall>reasons. admit r live = Inl reasons \<longrightarrow> length reasons =
      (if cr_node_id live = rs_node_id r then 0 else 1) +
      (if cr_revision live = rs_capability_revision r then 0 else 1) +
      (if cr_placement_fence live = rs_placement_fence r then 0 else (1::nat)))"
  by (auto simp: admit_def Let_def)

theorem admit_exact_witness:
  "\<exists>reasons. length reasons = 1 \<and>
     admit (reservation_of [1] [2] demo_request 1 1) (demo_report\<lparr>cr_placement_fence := 2\<rparr>) = Inl reasons"
proof -
  let ?r = "reservation_of [1] [2] demo_request 1 1" and ?live = "demo_report\<lparr>cr_placement_fence := 2\<rparr>"
  have "admit ?r ?live \<noteq> Inr ()"
    using admit_exact [of ?r ?live] by (simp add: reservation_of_def demo_report_def)
  then obtain reasons where "admit ?r ?live = Inl reasons" by (cases "admit ?r ?live") auto
  with admit_exact [of ?r ?live] show ?thesis by (auto simp: reservation_of_def demo_report_def)
qed




end
