(* ===== verification/Hiccup_Topics.thy ===== *)
theory Hiccup_Topics
  imports Gump_Prelude "HOL-Library.Sublist"
begin

text \<open>
  Hiccup, the peer introduction protocol: topics and their validation
  (\<open>gump-hiccup/src/topic.rs\<close>), the bounds (\<open>limits.rs\<close>), the stamp that Gump puts on an
  introduction (\<open>stamp.rs\<close>) and the per-attempt token (\<open>token.rs\<close>).

  The hyphenated text of an id comes from the UUID library: it is the parameter \<open>hyph\<close>, and the
  properties that need it assume that different ids have different texts.
\<close>

unbundle bit_operations_syntax

type_synonym workload_id = bytes
type_synonym attempt_id = bytes
type_synonym hyphenated = "bytes \<Rightarrow> string"

section \<open>Bounds\<close>

definition media_type :: string where
  "media_type = ''application/vnd.gump.hiccup+json; version=1''"
definition offer_header :: string where "offer_header = ''Hiccup-Offer''"
definition offer_value :: string where "offer_value = ''1''"
definition auth_scheme :: string where "auth_scheme = ''Hiccup''"
definition token_fd_env :: string where "token_fd_env = ''GUMP_HICCUP_TOKEN_FD''"
definition max_declaration_bytes :: usize where "max_declaration_bytes = 64 * 1024"
definition max_delivery_bytes :: usize where "max_delivery_bytes = 256 * 1024"
definition max_public_data_bytes :: usize where "max_public_data_bytes = 8 * 1024"
definition max_secret_data_bytes :: usize where "max_secret_data_bytes = 32 * 1024"
definition max_json_depth :: usize where "max_json_depth = 16"
definition max_listen_topics :: usize where "max_listen_topics = 32"
definition max_capabilities_per_attempt :: usize where "max_capabilities_per_attempt = 32"
definition max_publishers_per_topic :: usize where "max_publishers_per_topic = 10000"
definition max_introductions_per_post :: usize where "max_introductions_per_post = 256"
definition max_keeper_bytes :: usize where "max_keeper_bytes = 64 * 1024 * 1024"
definition token_bytes :: usize where "token_bytes = 32"
definition min_presence_ttl_ms :: u64 where "min_presence_ttl_ms = 30000"
definition max_presence_ttl_ms :: u64 where "max_presence_ttl_ms = 300000"
definition presence_interval_mult :: u64 where "presence_interval_mult = 3"

definition presence_ttl_ms :: "u64 \<Rightarrow> u64" where
  "presence_ttl_ms health_interval_ms =
     (let derived = sat_mul64 health_interval_ms presence_interval_mult
      in if derived < min_presence_ttl_ms then min_presence_ttl_ms
         else if derived > max_presence_ttl_ms then max_presence_ttl_ms else derived)"

section \<open>Topics\<close>

datatype topic_error =
    TopicEmpty
  | TopicTooLong usize
  | InvalidShape
  | ReservedGumpPrefix
  | ListenWithoutPublishRequiresListen
  | TooManyListen usize
  | DuplicateListen
  | CrossWorkloadSelf

fun topic_error_display :: "topic_error \<Rightarrow> string" where
  "topic_error_display TopicEmpty = ''topic is empty''"
| "topic_error_display (TopicTooLong n) = ''topic length '' @ show_nat n @ '' exceeds 128''"
| "topic_error_display InvalidShape = ''topic must be @self or lowercase slash-separated ASCII''"
| "topic_error_display ReservedGumpPrefix = ''gump/ topics are reserved''"
| "topic_error_display ListenWithoutPublishRequiresListen = ''topic null requires non-empty listen''"
| "topic_error_display (TooManyListen n) =
     ''listen has '' @ show_nat n @ '' topics; max '' @ show_nat max_listen_topics"
| "topic_error_display DuplicateListen = ''listen topics must be unique''"
| "topic_error_display CrossWorkloadSelf = ''@self cannot cross workload identity''"

text \<open>\<open>CanonicalTopic\<close> is a string with derived comparisons.\<close>

type_synonym canonical_topic = string

definition self_for :: "hyphenated \<Rightarrow> workload_id \<Rightarrow> canonical_topic" where
  "self_for hyph workload = ''@self/'' @ hyph workload"

text \<open>\<open>str::split\<close> on a character: the pieces between its occurrences.\<close>

fun split_char :: "char \<Rightarrow> string \<Rightarrow> string list" where
  "split_char c [] = [[]]"
| "split_char c (x # xs) =
     (if x = c then [] # split_char c xs
      else (case split_char c xs of [] \<Rightarrow> [[x]] | p # ps \<Rightarrow> (x # p) # ps))"

definition lower_or_digit :: "char \<Rightarrow> bool" where
  "lower_or_digit c \<longleftrightarrow> (CHR ''a'' \<le> c \<and> c \<le> CHR ''z'') \<or> (CHR ''0'' \<le> c \<and> c \<le> CHR ''9'')"

definition topic_byte :: "char \<Rightarrow> bool" where
  "topic_byte c \<longleftrightarrow> lower_or_digit c \<or> c = CHR ''.'' \<or> c = CHR ''_'' \<or> c = CHR ''-''"

definition segment_ok :: "string \<Rightarrow> bool" where
  "segment_ok seg \<longleftrightarrow> seg \<noteq> [] \<and> length seg \<le> 64 \<and> lower_or_digit (hd seg) \<and>
     lower_or_digit (last seg) \<and> list_all topic_byte seg"

definition strip_hash :: "string \<Rightarrow> string" where
  "strip_hash raw = (case raw of c # t \<Rightarrow> if c = CHR ''#'' then t else raw | [] \<Rightarrow> raw)"

definition validate_topic_token :: "string \<Rightarrow> topic_error + unit" where
  "validate_topic_token raw =
     (if raw = ''@self'' then Inr ()
      else if raw = [] \<or> length raw > 128
      then Inl (if raw = [] then TopicEmpty else TopicTooLong (length raw))
      else if prefix ''gump/'' raw then Inl ReservedGumpPrefix
      else
        (let t = strip_hash raw
         in if t = [] \<or> prefix ''/'' t \<or> suffix ''/'' t \<or> sublist ''//'' t then Inl InvalidShape
            else if list_all segment_ok (split_char (CHR ''/'') t) then Inr () else Inl InvalidShape))"

definition canonicalize_topic :: "hyphenated \<Rightarrow> string \<Rightarrow> workload_id \<Rightarrow> topic_error + canonical_topic" where
  "canonicalize_topic hyph raw workload =
     (case validate_topic_token raw of
        Inl e \<Rightarrow> Inl e
      | Inr _ \<Rightarrow> if raw = ''@self'' then Inr (self_for hyph workload) else Inr (strip_hash raw))"

definition from_keeper :: "hyphenated \<Rightarrow> string \<Rightarrow> workload_id \<Rightarrow> topic_error + canonical_topic" where
  "from_keeper hyph raw workload =
     (let self_topic = self_for hyph workload
      in if raw = self_topic then Inr self_topic
         else if prefix ''@self/'' raw then Inl CrossWorkloadSelf
         else canonicalize_topic hyph raw workload)"

record resolved_topics =
  rt_publish :: "canonical_topic option"
  rt_listen :: "canonical_topic list"

fun resolve_listen ::
  "hyphenated \<Rightarrow> workload_id \<Rightarrow> string list \<Rightarrow> canonical_topic list \<Rightarrow> topic_error + canonical_topic list" where
  "resolve_listen hyph w [] out = Inr out"
| "resolve_listen hyph w (item # items) out =
     (case canonicalize_topic hyph item w of
        Inl e \<Rightarrow> Inl e
      | Inr c \<Rightarrow> if c \<in> set out then Inl DuplicateListen else resolve_listen hyph w items (out @ [c]))"

definition resolve_topics ::
  "hyphenated \<Rightarrow> string option option \<Rightarrow> string list option \<Rightarrow> workload_id \<Rightarrow> topic_error + resolved_topics" where
  "resolve_topics hyph topic listen w =
     (case (case topic of
              None \<Rightarrow> Inr (Some (self_for hyph w))
            | Some None \<Rightarrow> Inr None
            | Some (Some s) \<Rightarrow> (case canonicalize_topic hyph s w of Inl e \<Rightarrow> Inl e | Inr c \<Rightarrow> Inr (Some c))) of
        Inl e \<Rightarrow> Inl e
      | Inr publish \<Rightarrow>
        (case (case listen of
                 None \<Rightarrow> (case publish of Some p \<Rightarrow> Inr [p] | None \<Rightarrow> Inl ListenWithoutPublishRequiresListen)
               | Some items \<Rightarrow>
                   if items = [] \<and> publish = None then Inl ListenWithoutPublishRequiresListen
                   else if length items > max_listen_topics then Inl (TooManyListen (length items))
                   else resolve_listen hyph w items []) of
           Inl e \<Rightarrow> Inl e
         | Inr out \<Rightarrow> Inr \<lparr>rt_publish = publish, rt_listen = out\<rparr>))"

definition assert_self_isolation :: "hyphenated \<Rightarrow> workload_id \<Rightarrow> workload_id \<Rightarrow> topic_error + unit" where
  "assert_self_isolation hyph a b =
     (if self_for hyph a = self_for hyph b \<and> a \<noteq> b then Inl CrossWorkloadSelf else Inr ())"

section \<open>Stamp\<close>

record placement_stamp =
  ps_cluster_id :: bytes
  ps_namespace :: string
  ps_app_id :: string
  ps_workload_id :: workload_id
  ps_capsule_id :: bytes
  ps_execution_id :: bytes
  ps_unit_id :: bytes
  ps_role :: "string option"
  ps_rank :: "u32 option"
  ps_attempt_id :: attempt_id
  ps_node_id :: bytes
  ps_agent_incarnation :: u64
  ps_placement_fence_digest :: bytes
  ps_health_eligible :: bool
  ps_receiver_reachable_ip :: "string option"

record public_from =
  pf_id :: string
  pf_attempt :: string
  pf_ip :: "string option"

definition stamp_public_from :: "hyphenated \<Rightarrow> placement_stamp \<Rightarrow> public_from" where
  "stamp_public_from hyph s =
     \<lparr>pf_id = hyph (ps_unit_id s), pf_attempt = hyph (ps_attempt_id s), pf_ip = ps_receiver_reachable_ip s\<rparr>"

definition fence_matches :: "placement_stamp \<Rightarrow> bytes \<Rightarrow> bool" where
  "fence_matches s digest \<longleftrightarrow> ps_placement_fence_digest s = digest"

definition application_topic :: "hyphenated \<Rightarrow> canonical_topic \<Rightarrow> workload_id \<Rightarrow> string" where
  "application_topic hyph canonical workload =
     (if canonical = self_for hyph workload then ''@self'' else canonical)"

section \<open>Token\<close>

text \<open>
  \<open>str::trim\<close> removes Unicode white space; the patterns are the UTF-8 encodings of the code points
  with the White\_Space property, read forwards and backwards.
\<close>

definition ascii_white :: "nat \<Rightarrow> bool" where
  "ascii_white b \<longleftrightarrow> (9 \<le> b \<and> b \<le> 13) \<or> b = 32"

definition wide_white :: "nat list \<Rightarrow> bool" where
  "wide_white bs \<longleftrightarrow> bs \<in> {[0xC2, 0x85], [0xC2, 0xA0], [0xE1, 0x9A, 0x80], [0xE2, 0x80, 0xA8],
     [0xE2, 0x80, 0xA9], [0xE2, 0x80, 0xAF], [0xE2, 0x81, 0x9F], [0xE3, 0x80, 0x80]} \<or>
     (take 2 bs = [0xE2, 0x80] \<and> length bs = 3 \<and> 0x80 \<le> bs ! 2 \<and> bs ! 2 \<le> 0x8A)"

definition white_len :: "string \<Rightarrow> nat" where
  "white_len s =
     (let n = (\<lambda>k. map of_char (take k s) :: nat list)
      in if s \<noteq> [] \<and> ascii_white (of_char (hd s)) then 1
         else if wide_white (n 2) then 2 else if wide_white (n 3) then 3 else 0)"

definition white_len_end :: "string \<Rightarrow> nat" where
  "white_len_end s =
     (let n = (\<lambda>k. map of_char (drop (length s - k) s) :: nat list)
      in if s \<noteq> [] \<and> ascii_white (of_char (last s)) then 1
         else if 2 \<le> length s \<and> wide_white (n 2) then 2
         else if 3 \<le> length s \<and> wide_white (n 3) then 3 else 0)"

function trim_start :: "string \<Rightarrow> string" where
  "trim_start s = (if white_len s = 0 \<or> s = [] then s else trim_start (drop (white_len s) s))"
  by auto
termination by (relation "measure length") auto

function trim_end :: "string \<Rightarrow> string" where
  "trim_end s = (if white_len_end s = 0 \<or> s = [] then s else trim_end (take (length s - white_len_end s) s))"
  by auto
termination by (relation "measure length") auto

declare trim_start.simps [simp del] trim_end.simps [simp del]

definition trim :: "string \<Rightarrow> string" where
  "trim s = trim_end (trim_start s)"

definition ascii_lower :: "char \<Rightarrow> char" where
  "ascii_lower c = (if CHR ''A'' \<le> c \<and> c \<le> CHR ''Z'' then char_of (of_char c + 32 :: nat) else c)"

definition eq_ignore_ascii_case :: "string \<Rightarrow> string \<Rightarrow> bool" where
  "eq_ignore_ascii_case a b \<longleftrightarrow> map ascii_lower a = map ascii_lower b"

fun split_once :: "char \<Rightarrow> string \<Rightarrow> (string \<times> string) option" where
  "split_once c [] = None"
| "split_once c (x # xs) =
     (if x = c then Some ([], xs)
      else map_option (\<lambda>(a, b). (x # a, b)) (split_once c xs))"

definition hex_digits :: string where "hex_digits = ''0123456789abcdef''"

definition hex_encode :: "bytes \<Rightarrow> string" where
  "hex_encode bs = concat (map (\<lambda>b. [hex_digits ! unat (drop_bit 4 b), hex_digits ! unat (b AND 0xf)]) bs)"

definition hex_nibble :: "char \<Rightarrow> byte option" where
  "hex_nibble c =
     (if CHR ''0'' \<le> c \<and> c \<le> CHR ''9'' then Some (of_nat (of_char c - 48))
      else if CHR ''a'' \<le> c \<and> c \<le> CHR ''f'' then Some (of_nat (of_char c - 97 + 10))
      else if CHR ''A'' \<le> c \<and> c \<le> CHR ''F'' then Some (of_nat (of_char c - 65 + 10))
      else None)"

fun hex_pairs :: "string \<Rightarrow> bytes option" where
  "hex_pairs (h # l # s) =
     (case hex_nibble h of
        None \<Rightarrow> None
      | Some hi \<Rightarrow>
        (case hex_nibble l of
           None \<Rightarrow> None
         | Some lo \<Rightarrow> map_option (\<lambda>bs. (push_bit 4 hi OR lo) # bs) (hex_pairs s)))"
| "hex_pairs s = Some []"

definition hex_decode_exact :: "string \<Rightarrow> usize \<Rightarrow> bytes option" where
  "hex_decode_exact s expected =
     (if length s \<noteq> expected * 2 \<or> \<not> list_all (\<lambda>c. of_char c < (128 :: nat)) s then None else hex_pairs s)"

definition ct_eq :: "bytes \<Rightarrow> bytes \<Rightarrow> bool" where
  "ct_eq a b =
     (if length a \<noteq> length b then False
      else fold (\<lambda>(x, y) diff. diff OR (x XOR y)) (zip a b) 0 = 0)"

definition strip_scheme :: "string \<Rightarrow> string option" where
  "strip_scheme header_value =
     (case split_once (CHR '' '') (trim header_value) of
        None \<Rightarrow> None
      | Some (scheme, rest) \<Rightarrow> if eq_ignore_ascii_case scheme auth_scheme then Some rest else None)"

definition authorization_header_value :: "bytes \<Rightarrow> string" where
  "authorization_header_value token = auth_scheme @ '' '' @ hex_encode token"

definition authorize_header :: "bytes \<Rightarrow> string \<Rightarrow> bool" where
  "authorize_header token header_value =
     (case strip_scheme header_value of
        None \<Rightarrow> False
      | Some rest \<Rightarrow>
        (case hex_decode_exact (trim rest) token_bytes of
           None \<Rightarrow> False
         | Some presented \<Rightarrow> ct_eq token presented))"

section \<open>Lemmas on topics\<close>

lemma split_char_ne [simp]: "split_char c s \<noteq> []"
  by (cases s) (auto split: list.splits)

lemma split_char_append: "split_char c (xs @ c # ys) = split_char c xs @ split_char c ys"
  by (induction xs) (auto split: list.splits)

lemma set_split_char: "set s \<subseteq> insert c (\<Union>p \<in> set (split_char c s). set p)"
proof (induction s)
  case (Cons x xs)
  show ?case
  proof (cases "split_char c xs")
    case (Cons p ps)
    with Cons.IH show ?thesis by auto
  qed simp
qed simp

definition topic_grammar :: "string \<Rightarrow> bool" where
  "topic_grammar t \<longleftrightarrow> list_all segment_ok (split_char (CHR ''/'') t)"

lemma topic_grammar_pieces:
  assumes "topic_grammar t"
  shows "t \<noteq> []" "\<not> prefix ''/'' t" "\<not> suffix ''/'' t" "\<not> sublist ''//'' t"
proof -
  have no: "[] \<notin> set (split_char (CHR ''/'') t)"
    using assms by (auto simp: topic_grammar_def list_all_iff segment_ok_def)
  then show "t \<noteq> []" by auto
  show "\<not> prefix ''/'' t" using no by (auto simp: prefix_def)
  show "\<not> suffix ''/'' t" using no by (auto simp: suffix_def split_char_append)
  show "\<not> sublist ''//'' t"
  proof
    assume "sublist ''//'' t"
    then obtain a b where "t = a @ CHR ''/'' # (CHR ''/'' # b)" by (auto simp: sublist_def)
    with no show False by (simp only: split_char_append) simp
  qed
qed

lemma topic_grammar_bytes:
  assumes "topic_grammar t" and "c \<in> set t"
  shows "topic_byte c \<or> c = CHR ''/''"
  using set_split_char [of t "CHR ''/''"] assms
  by (auto simp: topic_grammar_def list_all_iff segment_ok_def)

lemma topic_byte_special [simp]: "\<not> topic_byte (CHR ''@'')" "\<not> topic_byte (CHR ''#'')"
  by (simp_all add: topic_byte_def lower_or_digit_def less_eq_char_def)

lemma topic_grammar_special:
  assumes "topic_grammar t"
  shows "CHR ''@'' \<notin> set t" "CHR ''#'' \<notin> set t"
  using topic_grammar_bytes [OF assms] by fastforce+

lemma validate_named:
  "raw \<noteq> ''@self'' \<Longrightarrow> validate_topic_token raw = Inr () \<longleftrightarrow>
     length raw \<le> 128 \<and> \<not> prefix ''gump/'' raw \<and> topic_grammar (strip_hash raw)"
proof -
  assume "raw \<noteq> ''@self''"
  moreover have "raw \<noteq> []" if "topic_grammar (strip_hash raw)"
    using topic_grammar_pieces(1) [OF that] by (auto simp: strip_hash_def)
  ultimately show ?thesis
    using topic_grammar_pieces [of "strip_hash raw"]
    by (auto simp: validate_topic_token_def Let_def topic_grammar_def [symmetric])
qed

lemma canonicalize_named:
  assumes "raw \<noteq> ''@self''"
  shows "canonicalize_topic hyph raw w = Inr t \<longleftrightarrow>
    length raw \<le> 128 \<and> \<not> prefix ''gump/'' raw \<and> t = strip_hash raw \<and> topic_grammar t"
  using validate_named [OF assms] assms
  by (cases "validate_topic_token raw") (auto simp: canonicalize_topic_def)

lemma self_not_grammar: "\<not> topic_grammar (self_for hyph w)"
  using topic_grammar_special(1) [of "self_for hyph w"] by (auto simp: self_for_def)

lemma canonicalize_self_iff:
  "canonicalize_topic hyph raw w = Inr (self_for hyph w') \<longleftrightarrow> raw = ''@self'' \<and> self_for hyph w = self_for hyph w'"
proof (cases "raw = ''@self''")
  case True
  then show ?thesis by (auto simp: canonicalize_topic_def validate_topic_token_def)
next
  case False
  then show ?thesis using self_not_grammar by (auto simp: canonicalize_named)
qed

lemma resolve_listen_ok:
  assumes "resolve_listen hyph w items out = Inr r" and "distinct out"
  shows "distinct r \<and> length r = length out + length items"
  using assms
proof (induction items arbitrary: out)
  case (Cons item items)
  then show ?case by (fastforce split: sum.splits if_splits)
qed simp

section \<open>Lemmas on tokens\<close>

lemma nibble_mask: "(b :: byte) AND 0xf = take_bit 4 b"
proof -
  have "(0xf :: byte) = mask 4" by (simp add: mask_eq_exp_minus_1)
  then show ?thesis by (simp add: take_bit_eq_mask)
qed

lemma unat_nibbles: "unat (b AND 0xf :: byte) < 16" "unat (drop_bit 4 b :: byte) < 16"
proof -
  have "take_bit 4 (unat b) < 2 ^ 4" by (rule take_bit_nat_less_exp)
  then show "unat (b AND 0xf :: byte) < 16" by (simp add: nibble_mask unsigned_take_bit_eq)
  have "unat b < 256" using unsigned_less [of b, where ?'a = nat] by simp
  moreover from this have "take_bit 8 (unat b) = unat b" by (simp add: take_bit_nat_eq_self)
  then have "unat (drop_bit 4 b :: byte) = drop_bit 4 (unat b)"
    by (simp add: unsigned_drop_bit_eq)
  ultimately show "unat (drop_bit 4 b :: byte) < 16"
    by (simp add: drop_bit_eq_div [of 4 "unat b"])
qed

lemma nibbles_join: "push_bit 4 (drop_bit 4 b) OR (b AND 0xf) = (b :: byte)"
  unfolding nibble_mask by (rule bit_eqI) (auto simp: bit_simps not_le)

lemma hex_nibble_digit:
  assumes "n < 16"
  shows "hex_nibble (hex_digits ! n) = Some (of_nat n)" and "of_char (hex_digits ! n) < (128 :: nat)"
    and "\<not> ascii_white (of_char (hex_digits ! n))"
proof -
  have "\<forall>k \<in> set [0 ..< 16]. hex_nibble (hex_digits ! k) = Some (of_nat k) \<and>
      of_char (hex_digits ! k) < (128 :: nat) \<and> \<not> ascii_white (of_char (hex_digits ! k))"
    by (simp add: upt_rec hex_digits_def hex_nibble_def less_eq_char_def ascii_white_def)
  with assms show "hex_nibble (hex_digits ! n) = Some (of_nat n)" "of_char (hex_digits ! n) < (128 :: nat)"
      "\<not> ascii_white (of_char (hex_digits ! n))"
    by simp_all
qed

lemma hex_encode_Cons:
  "hex_encode (b # bs) = hex_digits ! unat (drop_bit 4 b) # hex_digits ! unat (b AND 0xf) # hex_encode bs"
  by (simp add: hex_encode_def)

lemma length_hex_encode [simp]: "length (hex_encode bs) = 2 * length bs"
  by (induction bs) (simp_all add: hex_encode_def)

lemma hex_pairs_encode: "hex_pairs (hex_encode bs) = Some bs"
proof (induction bs)
  case (Cons b bs)
  then show ?case
    by (simp add: hex_encode_Cons hex_nibble_digit unat_nibbles nibbles_join)
qed (simp add: hex_encode_def)

lemma hex_encode_chars:
  "c \<in> set (hex_encode bs) \<Longrightarrow> of_char c < (128 :: nat) \<and> \<not> ascii_white (of_char c)"
  by (induction bs) (auto simp: hex_encode_Cons hex_encode_def [of "[]"] hex_nibble_digit unat_nibbles)

lemma hex_decode_encode: "hex_decode_exact (hex_encode bs) n = (if length bs = n then Some bs else None)"
  using hex_encode_chars [of _ bs]
  by (auto simp: hex_decode_exact_def hex_pairs_encode list_all_iff)

lemma or_fold_zero:
  "fold (\<lambda>(x, y) diff. diff OR (x XOR y)) ps (d :: byte) = 0 \<longleftrightarrow> d = 0 \<and> (\<forall>(x, y) \<in> set ps. x = y)"
proof (induction ps arbitrary: d)
  case (Cons p ps)
  have "d OR (x XOR y) = 0 \<longleftrightarrow> d = 0 \<and> x = y" for x y :: byte
    by (auto simp: bit_eq_iff bit_or_iff bit_xor_iff)
  with Cons show ?case by (auto split: prod.splits)
qed simp

lemma ct_eq_iff: "ct_eq a b \<longleftrightarrow> a = b"
proof (cases "length a = length b")
  case True
  then have "(\<forall>(x, y) \<in> set (zip a b). x = y) \<longleftrightarrow> a = b"
    by (induction rule: list_induct2) auto
  with True show ?thesis by (simp add: ct_eq_def or_fold_zero)
qed (auto simp: ct_eq_def)

lemma wide_white_high: "wide_white bs \<Longrightarrow> bs \<noteq> [] \<and> 128 \<le> hd bs \<and> 128 \<le> last bs"
proof -
  assume w: "wide_white bs"
  have "\<exists>a b c. bs = [a, b, c] \<and> a = 0xE2 \<and> 128 \<le> c"
    if "take 2 bs = [0xE2, 0x80]" "length bs = 3" "0x80 \<le> bs ! 2"
  proof -
    from that(2) obtain a b c where "bs = [a, b, c]"
      by (auto simp: numeral_3_eq_3 length_Suc_conv)
    with that show ?thesis by simp
  qed
  with w show ?thesis by (fastforce simp: wide_white_def)
qed

definition plain_char :: "char \<Rightarrow> bool" where
  "plain_char c \<longleftrightarrow> of_char c < (128 :: nat) \<and> \<not> ascii_white (of_char c)"

lemma trim_start_plain:
  assumes "s \<noteq> []" "plain_char (hd s)"
  shows "trim_start s = s"
proof -
  have "\<not> wide_white (map of_char (take k s))" if "0 < k" for k
    using wide_white_high [of "map of_char (take k s)"] assms that
    by (auto simp: plain_char_def hd_map)
  then have "white_len s = 0" using assms by (simp add: white_len_def plain_char_def)
  then show ?thesis by (simp add: trim_start.simps [of s])
qed

lemma trim_end_plain:
  assumes "s \<noteq> []" "plain_char (last s)"
  shows "trim_end s = s"
proof -
  have "\<not> wide_white (map of_char (drop (length s - k) s))" if "0 < k" for k
    using wide_white_high [of "map of_char (drop (length s - k) s)"] assms that
    by (auto simp: plain_char_def last_map)
  then have "white_len_end s = 0" using assms by (simp add: white_len_end_def plain_char_def)
  then show ?thesis by (simp add: trim_end.simps [of s])
qed

lemma trim_plain: "s \<noteq> [] \<Longrightarrow> plain_char (hd s) \<Longrightarrow> plain_char (last s) \<Longrightarrow> trim s = s"
  by (simp add: trim_def trim_start_plain trim_end_plain)

lemma trim_hex: "bs \<noteq> [] \<Longrightarrow> trim (hex_encode bs) = hex_encode bs"
proof -
  assume "bs \<noteq> []"
  then have ne: "hex_encode bs \<noteq> []" using length_hex_encode [of bs] by (cases "hex_encode bs") auto
  show ?thesis
    using hex_encode_chars [of "hd (hex_encode bs)" bs] hex_encode_chars [of "last (hex_encode bs)" bs] ne
    by (intro trim_plain) (simp_all add: plain_char_def)
qed

lemma strip_scheme_header:
  assumes "token \<noteq> []"
  shows "strip_scheme (authorization_header_value token) = Some (hex_encode token)"
proof -
  have ne: "hex_encode token \<noteq> []" using assms length_hex_encode [of token] by (cases "hex_encode token") auto
  have "trim (authorization_header_value token) = authorization_header_value token"
    using hex_encode_chars [of "last (hex_encode token)" token] ne
    by (intro trim_plain) (simp_all add: authorization_header_value_def auth_scheme_def plain_char_def ascii_white_def)
  then show ?thesis
    by (simp add: strip_scheme_def authorization_header_value_def auth_scheme_def eq_ignore_ascii_case_def)
qed

lemma authorize_header_value:
  assumes "length token = token_bytes" and "length other = token_bytes"
  shows "authorize_header token (authorization_header_value other) \<longleftrightarrow> token = other"
proof -
  have "other \<noteq> []" using assms(2) by (auto simp: token_bytes_def)
  then show ?thesis
    using assms by (simp add: authorize_header_def strip_scheme_header trim_hex hex_decode_encode ct_eq_iff)
qed

text \<open>One text of ids for which different ids have different texts.\<close>

definition byte_text :: hyphenated where
  "byte_text = map (\<lambda>b. char_of (unat b))"

lemma inj_byte_text: "inj byte_text"
proof -
  have "inj (\<lambda>b :: byte. char_of (unat b) :: char)"
  proof (rule injI)
    fix a b :: byte
    assume "(char_of (unat a) :: char) = char_of (unat b)"
    then have "of_char (char_of (unat a) :: char) = (of_char (char_of (unat b) :: char) :: nat)" by simp
    then have "unat a mod 256 = unat b mod 256" by simp
    moreover have "unat a < 256" "unat b < 256"
      using unsigned_less [of a, where ?'a = nat] unsigned_less [of b, where ?'a = nat] by simp_all
    ultimately have "unat a = unat b" by simp
    then show "a = b" by (rule unsigned_word_eqI)
  qed
  then show ?thesis unfolding byte_text_def by (rule inj_mapI)
qed

section \<open>Properties\<close>


text \<open>
  No workload can name the self topic of another: a topic token resolves to a self topic only as
  the self token, and only to that of its own workload; a topic received from a peer keeper resolves
  to the self topic of its own workload or is refused.
\<close>

theorem self_topic_isolated:
  assumes "inj hyph"
  shows "(canonicalize_topic hyph raw w = Inr (self_for hyph w') \<longleftrightarrow> raw = ''@self'' \<and> w = w') \<and>
    (from_keeper hyph raw w = Inr (self_for hyph w') \<longleftrightarrow> raw \<in> {''@self'', self_for hyph w} \<and> w = w') \<and>
    (from_keeper hyph (self_for hyph w') w = Inl CrossWorkloadSelf \<longleftrightarrow> w \<noteq> w') \<and>
    assert_self_isolation hyph w w' = Inr ()"
proof -
  have s: "self_for hyph a = self_for hyph b \<longleftrightarrow> a = b" for a b
    using assms by (simp add: self_for_def inj_eq)
  have p: "prefix ''@self/'' (self_for hyph a)" for a by (simp add: self_for_def)
  have "''@self'' \<noteq> self_for hyph w" by (simp add: self_for_def)
  then show ?thesis
    using canonicalize_self_iff [of hyph raw w w'] p [of w] p [of w']
    by (auto simp: from_keeper_def Let_def s assert_self_isolation_def)
qed

theorem self_topic_isolated_witness:
  "inj byte_text \<and> from_keeper byte_text (self_for byte_text [1]) [2] = Inl CrossWorkloadSelf"
  using self_topic_isolated [OF inj_byte_text, of "[]" "[2]" "[1]"] by (simp add: inj_byte_text)

text \<open>
  A token authorises exactly its own header: the header value of a token is accepted by an
  attempt's token if and only if the two tokens are equal, byte by byte in constant time.
\<close>

theorem token_header_roundtrip:
  assumes "length token = token_bytes" and "length other = token_bytes"
  shows "authorize_header token (authorization_header_value other) \<longleftrightarrow> token = other"
  using assms by (rule authorize_header_value)

theorem token_header_roundtrip_witness:
  "authorize_header (replicate 32 7) (authorization_header_value (replicate 32 7)) \<and>
   \<not> authorize_header (replicate 32 7) (authorization_header_value (replicate 32 8))"
  using token_header_roundtrip [of "replicate 32 7" "replicate 32 7"]
    token_header_roundtrip [of "replicate 32 7" "replicate 32 8"]
  by (simp add: token_bytes_def)

end
