(* ===== verification/Hiccup_Codec.thy ===== *)
theory Hiccup_Codec
  imports Hiccup_Topics
begin

text \<open>
  The JSON messages of Hiccup (\<open>gump-hiccup/src/codec.rs\<close>), the detection of a declaration in a
  health response (\<open>detect.rs\<close>) and the reference SDK middleware (\<open>sdk.rs\<close>).

  JSON text comes from the serde library. Its values are the datatype \<open>json\<close>, its conversions
  between values and bytes are the record \<open>json_lib\<close>, a parameter of the functions that use it.
\<close>

section \<open>JSON values\<close>

datatype json_number = PosInt u64 | NegInt i64 | Float64 u64

datatype json =
    JNull
  | JBool bool
  | JNumber json_number
  | JString string
  | JArray "json list"
  | JObject "(string \<times> json) list"

fun as_u64 :: "json \<Rightarrow> u64 option" where
  "as_u64 (JNumber (PosInt n)) = Some n"
| "as_u64 v = None"

fun is_object :: "json \<Rightarrow> bool" where
  "is_object (JObject es) = True"
| "is_object v = False"

fun as_str :: "json \<Rightarrow> string option" where
  "as_str (JString s) = Some s"
| "as_str v = None"

definition iter_max :: "nat \<Rightarrow> nat list \<Rightarrow> nat" where
  "iter_max d xs = (if xs = [] then d else Max (set xs))"

fun max_depth :: "json \<Rightarrow> nat \<Rightarrow> nat" where
  "max_depth (JArray a) depth = iter_max depth (map (\<lambda>x. max_depth x (depth + 1)) a)"
| "max_depth (JObject es) depth = iter_max depth (map (\<lambda>e. max_depth (snd e) (depth + 1)) es)"
| "max_depth v depth = depth"

section \<open>Messages\<close>

datatype codec_error =
    TooLarge usize usize
  | NotObject
  | DepthExceeded
  | InvalidJson string
  | NotHiccupOne
  | UnexpectedField string
  | InvalidField string

fun codec_error_display :: "codec_error \<Rightarrow> string" where
  "codec_error_display (TooLarge n mx) = ''payload '' @ show_nat n @ '' exceeds '' @ show_nat mx"
| "codec_error_display NotObject = ''JSON root must be object''"
| "codec_error_display DepthExceeded = ''JSON nesting exceeds '' @ show_nat max_json_depth"
| "codec_error_display (InvalidJson e) = ''invalid JSON: '' @ e"
| "codec_error_display NotHiccupOne = ''hiccup must be integer 1''"
| "codec_error_display (UnexpectedField n) = ''unexpected field '' @ n"
| "codec_error_display (InvalidField n) = ''invalid field '' @ n"

record hiccup_declaration =
  dc_topic :: "string option option"
  dc_listen :: "string list option"
  dc_data :: "json option"
  dc_secret_data :: "string option"
  dc_capabilities :: "(string, json) btree option"

record introduction =
  in_topic :: string
  in_from :: public_from
  in_capabilities :: "(string, json) btree"
  in_data :: "json option"
  in_secret_data :: "string option"

record delivery =
  dl_hiccup :: u32
  dl_messages :: "introduction list"
  dl_more :: bool

record json_lib =
  jl_from_slice :: "bytes \<Rightarrow> string + json"
  jl_to_vec :: "json \<Rightarrow> string + bytes"
  jl_delivery_to_vec :: "delivery \<Rightarrow> string + bytes"
  jl_delivery_from_value :: "json \<Rightarrow> string + delivery"

definition check_bounds :: "bytes \<Rightarrow> usize \<Rightarrow> codec_error + unit" where
  "check_bounds bs mx = (if length bs > mx then Inl (TooLarge (length bs) mx) else Inr ())"

definition check_data_size :: "json_lib \<Rightarrow> json \<Rightarrow> codec_error + unit" where
  "check_data_size J data =
     (case jl_to_vec J data of
        Inl e \<Rightarrow> Inl (InvalidJson e)
      | Inr encoded \<Rightarrow>
          if length encoded > max_public_data_bytes
          then Inl (TooLarge (length encoded) max_public_data_bytes) else Inr ())"

text \<open>\<open>str::trim_matches\<close> with one character.\<close>

definition trim_char :: "char \<Rightarrow> string \<Rightarrow> string" where
  "trim_char c s = rev (dropWhile (\<lambda>x. x = c) (rev (dropWhile (\<lambda>x. x = c) s)))"

definition strip_prefix :: "string \<Rightarrow> string \<Rightarrow> string option" where
  "strip_prefix p s = (if prefix p s then Some (drop (length p) s) else None)"

definition media_version :: "string \<Rightarrow> bool \<Rightarrow> bool" where
  "media_version part0 version_ok =
     (let part = trim part0
      in case (case strip_prefix ''version='' part of
                 Some v \<Rightarrow> Some v | None \<Rightarrow> strip_prefix ''version ='' part) of
           Some v \<Rightarrow> trim_char (CHR 0x22) (trim v) = ''1''
         | None \<Rightarrow> version_ok)"

definition media_type_matches :: "string \<Rightarrow> bool" where
  "media_type_matches content_type =
     (let parts = split_char (CHR '';'') content_type
      in if \<not> eq_ignore_ascii_case (trim (hd parts)) ''application/vnd.gump.hiccup+json'' then False
         else fold media_version (tl parts) False)"

section \<open>Declarations\<close>

definition known_fields :: "string set" where
  "known_fields = {''hiccup'', ''topic'', ''listen'', ''data'', ''secretData'', ''capabilities''}"

definition forged_fields :: "string set" where
  "forged_fields = {''from'', ''messages'', ''more'', ''id'', ''attempt'', ''ip''}"

fun check_fields :: "string list \<Rightarrow> codec_error + unit" where
  "check_fields [] = Inr ()"
| "check_fields (k # ks) =
     (if k \<in> known_fields then check_fields ks
      else if k \<in> forged_fields then Inl (UnexpectedField ''forged-identity-or-delivery'')
      else Inl (UnexpectedField ''unknown''))"

definition parse_topic :: "json option \<Rightarrow> codec_error + string option option" where
  "parse_topic v =
     (case v of
        None \<Rightarrow> Inr None
      | Some JNull \<Rightarrow> Inr (Some None)
      | Some (JString s) \<Rightarrow> Inr (Some (Some s))
      | Some _ \<Rightarrow> Inl (InvalidField ''topic''))"

fun parse_listen_items :: "json list \<Rightarrow> codec_error + string list" where
  "parse_listen_items [] = Inr []"
| "parse_listen_items (v # vs) =
     (case as_str v of
        None \<Rightarrow> Inl (InvalidField ''listen'')
      | Some s \<Rightarrow> (case parse_listen_items vs of Inl e \<Rightarrow> Inl e | Inr out \<Rightarrow> Inr (s # out)))"

definition parse_listen :: "json option \<Rightarrow> codec_error + string list option" where
  "parse_listen v =
     (case v of
        None \<Rightarrow> Inr None
      | Some (JArray a) \<Rightarrow> (case parse_listen_items a of Inl e \<Rightarrow> Inl e | Inr out \<Rightarrow> Inr (Some out))
      | Some _ \<Rightarrow> Inl (InvalidField ''listen''))"

definition parse_data :: "json_lib \<Rightarrow> json option \<Rightarrow> codec_error + json option" where
  "parse_data J v =
     (case v of
        None \<Rightarrow> Inr None
      | Some d \<Rightarrow>
          if \<not> is_object d then Inl (InvalidField ''data'')
          else (case check_data_size J d of Inl e \<Rightarrow> Inl e | Inr _ \<Rightarrow> Inr (Some d)))"

definition parse_secret :: "json option \<Rightarrow> codec_error + string option" where
  "parse_secret v =
     (case v of
        None \<Rightarrow> Inr None
      | Some (JString s) \<Rightarrow>
          if length s > max_secret_data_bytes then Inl (TooLarge (length s) max_secret_data_bytes)
          else Inr (Some s)
      | Some _ \<Rightarrow> Inl (InvalidField ''secretData''))"

fun check_capabilities :: "json_lib \<Rightarrow> (string \<times> json) list \<Rightarrow> codec_error + unit" where
  "check_capabilities J [] = Inr ()"
| "check_capabilities J ((name, v) # es) =
     (if \<not> is_object v then Inl (InvalidField ''capabilities'')
      else (case check_data_size J v of Inl e \<Rightarrow> Inl e | Inr _ \<Rightarrow> check_capabilities J es))"

definition parse_capabilities :: "json_lib \<Rightarrow> json option \<Rightarrow> codec_error + (string, json) btree option" where
  "parse_capabilities J v =
     (case v of
        None \<Rightarrow> Inr None
      | Some (JObject entries) \<Rightarrow>
          if length entries > max_capabilities_per_attempt then Inl (InvalidField ''capabilities'')
          else (case check_capabilities J entries of
                  Inl e \<Rightarrow> Inl e
                | Inr _ \<Rightarrow> Inr (Some (fold (\<lambda>(k, v) m. bt_insert k v m) entries [])))
      | Some _ \<Rightarrow> Inl (InvalidField ''capabilities''))"

definition parse_object :: "json_lib \<Rightarrow> (string, json) btree \<Rightarrow> codec_error + hiccup_declaration" where
  "parse_object J obj =
     (case check_fields (map fst obj) of Inl e \<Rightarrow> Inl e | Inr _ \<Rightarrow>
      if (case bt_get obj ''hiccup'' of None \<Rightarrow> True | Some v \<Rightarrow> as_u64 v \<noteq> Some 1) then Inl NotHiccupOne
      else
      (case parse_topic (bt_get obj ''topic'') of Inl e \<Rightarrow> Inl e | Inr topic \<Rightarrow>
      (case parse_listen (bt_get obj ''listen'') of Inl e \<Rightarrow> Inl e | Inr listen \<Rightarrow>
      (case parse_data J (bt_get obj ''data'') of Inl e \<Rightarrow> Inl e | Inr data \<Rightarrow>
      (case parse_secret (bt_get obj ''secretData'') of Inl e \<Rightarrow> Inl e | Inr secret_data \<Rightarrow>
      (case parse_capabilities J (bt_get obj ''capabilities'') of Inl e \<Rightarrow> Inl e | Inr capabilities \<Rightarrow>
       if capabilities \<noteq> None \<and> (topic \<noteq> None \<or> listen \<noteq> None \<or> data \<noteq> None \<or> secret_data \<noteq> None)
       then Inl (InvalidField ''capabilities'')
       else Inr \<lparr>dc_topic = topic, dc_listen = listen, dc_data = data, dc_secret_data = secret_data,
                 dc_capabilities = capabilities\<rparr>))))))"

definition parse_declaration :: "json_lib \<Rightarrow> bytes \<Rightarrow> codec_error + hiccup_declaration" where
  "parse_declaration J bs =
     (case check_bounds bs max_declaration_bytes of Inl e \<Rightarrow> Inl e | Inr _ \<Rightarrow>
      (case jl_from_slice J bs of Inl e \<Rightarrow> Inl (InvalidJson e) | Inr v \<Rightarrow>
       if max_depth v 0 > max_json_depth then Inl DepthExceeded
       else (case v of JObject obj \<Rightarrow> parse_object J obj | _ \<Rightarrow> Inl NotObject)))"

definition encode_fields :: "hiccup_declaration \<Rightarrow> (string, json) btree" where
  "encode_fields d =
     (let m0 = bt_insert ''hiccup'' (JNumber (PosInt 1)) [];
          m1 = (case dc_topic d of
                  None \<Rightarrow> m0
                | Some None \<Rightarrow> bt_insert ''topic'' JNull m0
                | Some (Some s) \<Rightarrow> bt_insert ''topic'' (JString s) m0);
          m2 = (case dc_listen d of
                  None \<Rightarrow> m1
                | Some l \<Rightarrow> bt_insert ''listen'' (JArray (map JString l)) m1);
          m3 = (case dc_data d of None \<Rightarrow> m2 | Some v \<Rightarrow> bt_insert ''data'' v m2);
          m4 = (case dc_secret_data d of None \<Rightarrow> m3 | Some s \<Rightarrow> bt_insert ''secretData'' (JString s) m3)
      in case dc_capabilities d of
           None \<Rightarrow> m4
         | Some caps \<Rightarrow>
             bt_insert ''capabilities'' (JObject (fold (\<lambda>(k, v) m. bt_insert k v m) caps [])) m4)"

definition encode_checks :: "json_lib \<Rightarrow> hiccup_declaration \<Rightarrow> codec_error + unit" where
  "encode_checks J d =
     (case (case dc_data d of None \<Rightarrow> Inr () | Some v \<Rightarrow> check_data_size J v) of Inl e \<Rightarrow> Inl e | Inr _ \<Rightarrow>
      (case (case dc_secret_data d of
               None \<Rightarrow> Inr ()
             | Some s \<Rightarrow>
                 if length s > max_secret_data_bytes then Inl (TooLarge (length s) max_secret_data_bytes)
                 else Inr ()) of Inl e \<Rightarrow> Inl e | Inr _ \<Rightarrow>
       (case dc_capabilities d of
          None \<Rightarrow> Inr ()
        | Some caps \<Rightarrow>
            if length caps > max_capabilities_per_attempt \<or> dc_topic d \<noteq> None \<or> dc_listen d \<noteq> None
               \<or> dc_data d \<noteq> None \<or> dc_secret_data d \<noteq> None
            then Inl (InvalidField ''capabilities'') else check_capabilities J caps)))"

definition encode_declaration :: "json_lib \<Rightarrow> hiccup_declaration \<Rightarrow> codec_error + bytes" where
  "encode_declaration J d =
     (case encode_checks J d of Inl e \<Rightarrow> Inl e | Inr _ \<Rightarrow>
      (case jl_to_vec J (JObject (encode_fields d)) of Inl e \<Rightarrow> Inl (InvalidJson e) | Inr bs \<Rightarrow>
       (case check_bounds bs max_declaration_bytes of Inl e \<Rightarrow> Inl e | Inr _ \<Rightarrow> Inr bs)))"

definition encode_delivery :: "json_lib \<Rightarrow> delivery \<Rightarrow> codec_error + bytes" where
  "encode_delivery J d =
     (case jl_delivery_to_vec J d of Inl e \<Rightarrow> Inl (InvalidJson e) | Inr bs \<Rightarrow>
      (case check_bounds bs max_delivery_bytes of Inl e \<Rightarrow> Inl e | Inr _ \<Rightarrow> Inr bs))"

definition parse_delivery :: "json_lib \<Rightarrow> bytes \<Rightarrow> codec_error + delivery" where
  "parse_delivery J bs =
     (case check_bounds bs max_delivery_bytes of Inl e \<Rightarrow> Inl e | Inr _ \<Rightarrow>
      (case jl_from_slice J bs of Inl e \<Rightarrow> Inl (InvalidJson e) | Inr v \<Rightarrow>
       if max_depth v 0 > max_json_depth then Inl DepthExceeded
       else (case jl_delivery_from_value J v of Inl e \<Rightarrow> Inl (InvalidJson e) | Inr d \<Rightarrow> Inr d)))"

section \<open>Detection\<close>

datatype detection = Inactive | Active hiccup_declaration | Malformed codec_error

definition detect_health_response :: "json_lib \<Rightarrow> string option \<Rightarrow> bytes \<Rightarrow> detection" where
  "detect_health_response J content_type body =
     (case content_type of
        None \<Rightarrow> Inactive
      | Some ct \<Rightarrow>
          if \<not> media_type_matches ct then Inactive
          else (case parse_declaration J body of Inr d \<Rightarrow> Active d | Inl e \<Rightarrow> Malformed e))"

definition is_legacy_health :: "string option \<Rightarrow> bool" where
  "is_legacy_health content_type =
     (case content_type of None \<Rightarrow> True | Some ct \<Rightarrow> \<not> media_type_matches ct)"

section \<open>SDK middleware\<close>

record sdk_config =
  sc_declaration :: hiccup_declaration
  sc_dedupe :: bool

record sdk_middleware =
  sm_config :: sdk_config
  sm_token :: bytes
  sm_seen :: "(string \<times> string) set"

record sdk_http_response =
  sr_status :: nat
  sr_content_type :: "string option"
  sr_body :: bytes
  sr_introductions_delivered :: usize

definition sdk_new :: "bytes \<Rightarrow> sdk_config \<Rightarrow> sdk_middleware" where
  "sdk_new token config = \<lparr>sm_config = config, sm_token = token, sm_seen = {}\<rparr>"

definition ascii_upper :: "char \<Rightarrow> char" where
  "ascii_upper c = (if CHR ''a'' \<le> c \<and> c \<le> CHR ''z'' then char_of (of_char c - 32 :: nat) else c)"

definition declare_response :: "json_lib \<Rightarrow> sdk_middleware \<Rightarrow> sdk_http_response" where
  "declare_response J m =
     \<lparr>sr_status = 200, sr_content_type = Some media_type,
      sr_body = (case encode_declaration J (sc_declaration (sm_config m)) of
                   Inr bs \<Rightarrow> bs
                 | Inl _ \<Rightarrow> map of_char (CHR 0x7B # CHR 0x22 # ''hiccup'' @ CHR 0x22 # '':1'' @ [CHR 0x7D])),
      sr_introductions_delivered = 0\<rparr>"

text \<open>The introductions handed to the application's callback, in order, and the remembered senders.\<close>

fun take_introductions ::
  "bool \<Rightarrow> introduction list \<Rightarrow> (string \<times> string) set \<Rightarrow> introduction list \<times> (string \<times> string) set" where
  "take_introductions dedupe [] seen = ([], seen)"
| "take_introductions dedupe (i # rest) seen =
     (let key = (pf_id (in_from i), pf_attempt (in_from i))
      in if dedupe \<and> key \<in> seen then take_introductions dedupe rest seen
         else (let (out, seen') = take_introductions dedupe rest (if dedupe then insert key seen else seen)
               in (i # out, seen')))"

definition sdk_handle ::
  "json_lib \<Rightarrow> string \<Rightarrow> (string \<times> string) list \<Rightarrow> bytes \<Rightarrow> sdk_middleware \<Rightarrow>
    sdk_http_response \<times> introduction list \<times> sdk_middleware" where
  "sdk_handle J method0 headers body m =
     (let method = map ascii_upper method0
      in if method = ''GET'' then (declare_response J m, [], m)
         else if method = ''POST''
         then (let auth = (case find (\<lambda>(k, v). eq_ignore_ascii_case k ''Authorization'') headers of
                             Some (k, v) \<Rightarrow> v | None \<Rightarrow> [])
               in if \<not> authorize_header (sm_token m) auth
                  then (\<lparr>sr_status = 401, sr_content_type = None, sr_body = [],
                         sr_introductions_delivered = 0\<rparr>, [], m)
                  else
                    (case parse_delivery J body of
                       Inl _ \<Rightarrow> (declare_response J m, [], m)
                     | Inr delivery \<Rightarrow>
                         (let (out, seen) = take_introductions (sc_dedupe (sm_config m))
                                (dl_messages delivery) (sm_seen m)
                          in ((declare_response J m)\<lparr>sr_introductions_delivered := length out\<rparr>, out,
                              m\<lparr>sm_seen := seen\<rparr>))))
         else (\<lparr>sr_status = 405, sr_content_type = None, sr_body = [],
                sr_introductions_delivered = 0\<rparr>, [], m))"

section \<open>Round trip of declarations\<close>













lemma check_fields_iff: "check_fields ks = Inr () \<longleftrightarrow> set ks \<subseteq> known_fields"
  by (induction ks) auto



definition demo_declaration :: hiccup_declaration where
  "demo_declaration = \<lparr>dc_topic = Some (Some ''banana''), dc_listen = None, dc_data = None,
     dc_secret_data = None, dc_capabilities = None\<rparr>"

text \<open>A library that writes one value only, as a single byte.\<close>

definition demo_lib :: json_lib where
  "demo_lib = \<lparr>jl_from_slice = (\<lambda>bs. Inr (JObject (encode_fields demo_declaration))),
     jl_to_vec = (\<lambda>v. if v = JObject (encode_fields demo_declaration) then Inr [1] else Inl []),
     jl_delivery_to_vec = (\<lambda>d. Inl []), jl_delivery_from_value = (\<lambda>v. Inl [])\<rparr>"


section \<open>The middleware over its life\<close>

abbreviation sender :: "introduction \<Rightarrow> string \<times> string" where
  "sender i \<equiv> (pf_id (in_from i), pf_attempt (in_from i))"

type_synonym http_request = "string \<times> (string \<times> string) list \<times> bytes"

definition presented :: "http_request \<Rightarrow> string" where
  "presented rq = (case rq of (method, headers, body) \<Rightarrow>
     (case find (\<lambda>(k, v). eq_ignore_ascii_case k ''Authorization'') headers of Some (k, v) \<Rightarrow> v | None \<Rightarrow> []))"

fun sdk_run :: "json_lib \<Rightarrow> http_request list \<Rightarrow> sdk_middleware \<Rightarrow> introduction list" where
  "sdk_run J [] m = []"
| "sdk_run J ((method, headers, body) # rs) m =
     (let (response, out, m') = sdk_handle J method headers body m in out @ sdk_run J rs m')"

lemma take_introductions_senders:
  assumes "take_introductions True is0 seen = (out, seen')"
  shows "distinct (map sender out) \<and> sender ` set out \<inter> seen = {} \<and> seen' = seen \<union> sender ` set out"
  using assms
proof (induction is0 arbitrary: seen out seen')
  case (Cons i is0)
  show ?case
  proof (cases "sender i \<in> seen")
    case True
    with Cons show ?thesis by (simp add: Let_def)
  next
    case False
    obtain out1 seen1 where t: "take_introductions True is0 (insert (sender i) seen) = (out1, seen1)" by fastforce
    with Cons.prems False have "out = i # out1" "seen' = seen1" by (simp_all add: Let_def)
    with Cons.IH [OF t] False show ?thesis by auto
  qed
qed simp

lemma sdk_handle_cases:
  assumes "sdk_handle J method headers body m = (response, out, m')" and "sc_dedupe (sm_config m)"
  shows "sm_config m' = sm_config m \<and> sm_token m' = sm_token m \<and> distinct (map sender out) \<and>
    sender ` set out \<inter> sm_seen m = {} \<and> sm_seen m' = sm_seen m \<union> sender ` set out \<and>
    (out = [] \<or> authorize_header (sm_token m) (presented (method, headers, body)))"
proof -
  have a: "(case find (\<lambda>(k, v). eq_ignore_ascii_case k ''Authorization'') headers of
      Some (k, v) \<Rightarrow> v | None \<Rightarrow> []) = presented (method, headers, body)" by (simp add: presented_def)
  show ?thesis
    using assms take_introductions_senders
    unfolding sdk_handle_def Let_def a
    by (auto split: if_splits sum.splits prod.splits)
qed

lemma sdk_run_dedupe:
  assumes "sc_dedupe (sm_config m)"
  shows "distinct (map sender (sdk_run J rs m)) \<and> sender ` set (sdk_run J rs m) \<inter> sm_seen m = {} \<and>
    (sdk_run J rs m \<noteq> [] \<longrightarrow> (\<exists>rq \<in> set rs. authorize_header (sm_token m) (presented rq)))"
  using assms
proof (induction J rs m rule: sdk_run.induct)
  case (2 J verb hs body rs m)
  obtain response out m' where h: "sdk_handle J verb hs body m = (response, out, m')"
    by (cases "sdk_handle J verb hs body m") auto
  note c = sdk_handle_cases [OF h 2(2)]
  have "sc_dedupe (sm_config m')" using c 2(2) by simp
  from 2(1) [OF h [symmetric] refl refl this] c show ?case
    by (auto simp: h)
qed simp

text \<open>
  With deduplication the SDK hands the application at most one introduction per sender identity
  and attempt over its whole life, and none at all before a request carries its token. Capabilities
  of one attempt come as messages with the same sender, so only the first of them gets through.
\<close>

theorem sdk_dedupe_one_per_sender:
  assumes "sc_dedupe config"
  shows "distinct (map sender (sdk_run J rs (sdk_new token config))) \<and>
    (sdk_run J rs (sdk_new token config) \<noteq> [] \<longrightarrow>
      (\<exists>rq \<in> set rs. authorize_header token (presented rq)))"
  using sdk_run_dedupe [of "sdk_new token config" J rs] assms by (simp add: sdk_new_def)

text \<open>Two capabilities of one attempt in one delivery: only the first reaches the application.\<close>

definition demo_intro :: "string \<Rightarrow> introduction" where
  "demo_intro name = \<lparr>in_topic = name, in_from = \<lparr>pf_id = ''unit'', pf_attempt = ''attempt'', pf_ip = None\<rparr>,
     in_capabilities = [(name, JObject [])], in_data = Some (JObject []), in_secret_data = None\<rparr>"

definition two_capabilities_lib :: json_lib where
  "two_capabilities_lib = demo_lib\<lparr>jl_from_slice := (\<lambda>bs. Inr JNull),
     jl_delivery_from_value := (\<lambda>v. Inr \<lparr>dl_hiccup = 1,
       dl_messages = [demo_intro ''cluster'', demo_intro ''ingress''], dl_more = False\<rparr>)\<rparr>"

definition demo_post :: http_request where
  "demo_post = (''POST'', [(''Authorization'', authorization_header_value (replicate 32 7))], [])"

theorem sdk_dedupe_one_per_sender_witness:
  "sdk_run two_capabilities_lib [demo_post]
     (sdk_new (replicate 32 7) \<lparr>sc_declaration = demo_declaration, sc_dedupe = True\<rparr>) = [demo_intro ''cluster''] \<and>
   (\<exists>rq \<in> set [demo_post]. authorize_header (replicate 32 7) (presented rq))"
proof -
  have "authorize_header (replicate 32 7) (authorization_header_value (replicate 32 7))"
    by (simp add: authorize_header_value token_bytes_def)
  then have run: "sdk_run two_capabilities_lib [demo_post]
     (sdk_new (replicate 32 7) \<lparr>sc_declaration = demo_declaration, sc_dedupe = True\<rparr>) = [demo_intro ''cluster'']"
    by (simp add: demo_post_def sdk_handle_def sdk_new_def parse_delivery_def check_bounds_def
        two_capabilities_lib_def max_delivery_bytes_def max_json_depth_def demo_intro_def
        eq_ignore_ascii_case_def ascii_upper_def less_eq_char_def Let_def)
  with sdk_dedupe_one_per_sender [of "\<lparr>sc_declaration = demo_declaration, sc_dedupe = True\<rparr>"
      two_capabilities_lib "[demo_post]" "replicate 32 7"]
  show ?thesis by simp
qed

end
