(* ===== verification/Hiccup_Board.thy ===== *)
theory Hiccup_Board
  imports Hiccup_Codec
begin

text \<open>
  The board of current presence (\<open>gump-hiccup/src/board.rs\<close>): which attempt publishes what on which
  topic, within fixed bounds, the rotating deliveries built from it, and the snapshots that peer
  nodes exchange.

  BLAKE3 is the parameter \<open>H\<close>; the text of ids and its parser (UUID library) are \<open>hyph\<close> and
  \<open>parse_id\<close>; the JSON text of snapshots is the record \<open>keeper_lib\<close>.
\<close>

section \<open>Presence\<close>

type_synonym digest_fun = "bytes \<Rightarrow> bytes"
type_synonym id_parser = "string \<Rightarrow> bytes option"

definition max_cluster_snapshot_bytes :: usize where "max_cluster_snapshot_bytes = 192 * 1024"

definition str_bytes :: "string \<Rightarrow> bytes" where
  "str_bytes s = map of_char s"

record presence =
  pr_topic :: canonical_topic
  pr_stamp :: placement_stamp
  pr_data :: "json option"
  pr_secret_data :: "string option"
  pr_expires_at :: u64
  pr_content_digest :: bytes
  pr_directory_visible :: bool

definition encoded_data :: "json_lib \<Rightarrow> json option \<Rightarrow> bytes" where
  "encoded_data J data =
     (case data of None \<Rightarrow> [] | Some d \<Rightarrow> (case jl_to_vec J d of Inl _ \<Rightarrow> [] | Inr b \<Rightarrow> b))"

definition presence_size :: "json_lib \<Rightarrow> presence \<Rightarrow> usize" where
  "presence_size J p =
     256 + (case pr_secret_data p of None \<Rightarrow> 0 | Some s \<Rightarrow> length s) + length (encoded_data J (pr_data p))"

definition digest_presence ::
  "digest_fun \<Rightarrow> json_lib \<Rightarrow> canonical_topic \<Rightarrow> placement_stamp \<Rightarrow> json option \<Rightarrow> string option \<Rightarrow> bytes" where
  "digest_presence H J topic stamp data secret =
     H (str_bytes topic @ ps_unit_id stamp @ ps_attempt_id stamp @ ps_placement_fence_digest stamp
        @ encoded_data J data @ (case secret of None \<Rightarrow> [] | Some s \<Rightarrow> str_bytes s))"

type_synonym bucket = "(attempt_id, presence) btree"

record presence_board =
  pb_by_topic :: "(canonical_topic, bucket) btree"
  pb_by_attempt :: "(attempt_id, canonical_topic list) btree"
  pb_approx_bytes :: usize
  pb_omit_count :: u64

definition board_new :: presence_board where
  "board_new = \<lparr>pb_by_topic = [], pb_by_attempt = [], pb_approx_bytes = 0, pb_omit_count = 0\<rparr>"

definition presence_count :: "presence_board \<Rightarrow> usize" where
  "presence_count b = length (pb_by_attempt b)"

definition publisher_count :: "presence_board \<Rightarrow> canonical_topic \<Rightarrow> usize" where
  "publisher_count b topic = (case bt_get (pb_by_topic b) topic of None \<Rightarrow> 0 | Some m \<Rightarrow> length m)"

definition presence_for_attempt :: "presence_board \<Rightarrow> attempt_id \<Rightarrow> presence option" where
  "presence_for_attempt b attempt =
     (case bt_get (pb_by_attempt b) attempt of
        Some (topic # _) \<Rightarrow>
          (case bt_get (pb_by_topic b) topic of None \<Rightarrow> None | Some m \<Rightarrow> bt_get m attempt)
      | _ \<Rightarrow> None)"

section \<open>Changes of the board\<close>

definition insert_presence :: "json_lib \<Rightarrow> presence \<Rightarrow> presence_board \<Rightarrow> presence_board" where
  "insert_presence J p b =
     (let topic = pr_topic p;
          attempt = ps_attempt_id (pr_stamp p);
          bucket = (case bt_get (pb_by_topic b) topic of None \<Rightarrow> [] | Some m \<Rightarrow> m);
          b1 = b\<lparr>pb_by_topic := bt_insert topic bucket (pb_by_topic b)\<rparr>
      in if length bucket \<ge> max_publishers_per_topic \<and> \<not> bt_has bucket attempt
         then b1\<lparr>pb_omit_count := sat_add64 (pb_omit_count b1) 1\<rparr>
         else
           (let old_size = (case bt_get bucket attempt of None \<Rightarrow> 0 | Some q \<Rightarrow> presence_size J q);
                projected = sat_add64 (sat_sub (pb_approx_bytes b1) old_size) (presence_size J p)
            in if projected > max_keeper_bytes
               then b1\<lparr>pb_omit_count := sat_add64 (pb_omit_count b1) 1\<rparr>
               else
                 (let topics = (case bt_get (pb_by_attempt b1) attempt of None \<Rightarrow> [] | Some ts \<Rightarrow> ts)
                  in b1\<lparr>pb_by_topic := bt_insert topic (bt_insert attempt p bucket) (pb_by_topic b1),
                        pb_by_attempt := bt_insert attempt
                          (if topic \<in> set topics then topics else topics @ [topic]) (pb_by_attempt b1),
                        pb_approx_bytes := projected\<rparr>)))"

definition drop_from_topic :: "json_lib \<Rightarrow> attempt_id \<Rightarrow> canonical_topic \<Rightarrow> presence_board \<Rightarrow> presence_board" where
  "drop_from_topic J attempt t b =
     (case bt_get (pb_by_topic b) t of
        None \<Rightarrow> b
      | Some bucket \<Rightarrow>
        (let (bucket', bytes') =
               (case bt_get bucket attempt of
                  None \<Rightarrow> (bucket, pb_approx_bytes b)
                | Some p \<Rightarrow> (bt_remove attempt bucket, sat_sub (pb_approx_bytes b) (presence_size J p)))
         in b\<lparr>pb_by_topic := (if bucket' = [] then bt_remove t (pb_by_topic b)
                              else bt_insert t bucket' (pb_by_topic b)),
              pb_approx_bytes := bytes'\<rparr>))"

definition remove_attempt :: "json_lib \<Rightarrow> attempt_id \<Rightarrow> presence_board \<Rightarrow> presence_board" where
  "remove_attempt J attempt b =
     (case bt_get (pb_by_attempt b) attempt of
        None \<Rightarrow> b
      | Some topics \<Rightarrow>
          fold (drop_from_topic J attempt) topics
            (b\<lparr>pb_by_attempt := bt_remove attempt (pb_by_attempt b)\<rparr>))"

definition board_upsert ::
  "digest_fun \<Rightarrow> json_lib \<Rightarrow> resolved_topics \<Rightarrow> placement_stamp \<Rightarrow> hiccup_declaration \<Rightarrow> u64 \<Rightarrow>
    presence_board \<Rightarrow> presence_board" where
  "board_upsert H J resolved stamp decl expires_at b =
     (let b1 = remove_attempt J (ps_attempt_id stamp) b
      in case rt_publish resolved of
           None \<Rightarrow> b1
         | Some topic \<Rightarrow>
             if \<not> ps_health_eligible stamp then b1
             else insert_presence J
               \<lparr>pr_topic = topic, pr_stamp = stamp, pr_data = dc_data decl,
                pr_secret_data = dc_secret_data decl, pr_expires_at = expires_at,
                pr_content_digest = digest_presence H J topic stamp (dc_data decl) (dc_secret_data decl),
                pr_directory_visible = False\<rparr> b1)"

fun insert_capabilities ::
  "hyphenated \<Rightarrow> digest_fun \<Rightarrow> json_lib \<Rightarrow> placement_stamp \<Rightarrow> u64 \<Rightarrow> (string \<times> json) list \<Rightarrow>
    presence_board \<Rightarrow> (topic_error + unit) \<times> presence_board" where
  "insert_capabilities hyph H J stamp expires_at [] b = (Inr (), b)"
| "insert_capabilities hyph H J stamp expires_at ((name, data) # caps) b =
     (if name = ''@self'' then (Inl InvalidShape, b)
      else case canonicalize_topic hyph name (ps_workload_id stamp) of
             Inl e \<Rightarrow> (Inl e, b)
           | Inr topic \<Rightarrow>
               insert_capabilities hyph H J stamp expires_at caps
                 (insert_presence J
                    \<lparr>pr_topic = topic, pr_stamp = stamp, pr_data = Some data, pr_secret_data = None,
                     pr_expires_at = expires_at,
                     pr_content_digest = digest_presence H J topic stamp (Some data) None,
                     pr_directory_visible = True\<rparr> b))"

definition upsert_capabilities ::
  "hyphenated \<Rightarrow> digest_fun \<Rightarrow> json_lib \<Rightarrow> placement_stamp \<Rightarrow> (string, json) btree \<Rightarrow> u64 \<Rightarrow>
    presence_board \<Rightarrow> (topic_error + unit) \<times> presence_board" where
  "upsert_capabilities hyph H J stamp capabilities expires_at b =
     (let b1 = remove_attempt J (ps_attempt_id stamp) b
      in if \<not> ps_health_eligible stamp then (Inr (), b1)
         else insert_capabilities hyph H J stamp expires_at capabilities b1)"

definition fence_attempt :: "json_lib \<Rightarrow> attempt_id \<Rightarrow> bytes \<Rightarrow> presence_board \<Rightarrow> presence_board" where
  "fence_attempt J attempt fence_digest b =
     (case presence_for_attempt b attempt of
        Some p \<Rightarrow> if fence_matches (pr_stamp p) fence_digest then remove_attempt J attempt b else b
      | None \<Rightarrow> remove_attempt J attempt b)"

definition all_presence :: "presence_board \<Rightarrow> presence list" where
  "all_presence b = concat (map bt_values (bt_values (pb_by_topic b)))"

definition expired_ids :: "u64 \<Rightarrow> presence_board \<Rightarrow> attempt_id list" where
  "expired_ids now b =
     concat (map (\<lambda>bucket. map fst (filter (\<lambda>(i, p). pr_expires_at p \<le> now) bucket)) (bt_values (pb_by_topic b)))"

definition board_expire :: "json_lib \<Rightarrow> u64 \<Rightarrow> presence_board \<Rightarrow> presence_board" where
  "board_expire J now b = fold (remove_attempt J) (expired_ids now b) b"

section \<open>Deliveries\<close>

definition introduction_of :: "hyphenated \<Rightarrow> workload_id \<Rightarrow> presence \<Rightarrow> introduction" where
  "introduction_of hyph listener_workload p =
     \<lparr>in_topic = application_topic hyph (pr_topic p) listener_workload,
      in_from = stamp_public_from hyph (pr_stamp p),
      in_capabilities =
        (if pr_directory_visible p
         then [(application_topic hyph (pr_topic p) listener_workload,
                case pr_data p of Some d \<Rightarrow> d | None \<Rightarrow> JObject [])]
         else []),
      in_data = pr_data p, in_secret_data = pr_secret_data p\<rparr>"

definition over_limit :: "json_lib \<Rightarrow> introduction list \<Rightarrow> bool" where
  "over_limit J messages =
     (case jl_delivery_to_vec J \<lparr>dl_hiccup = 1, dl_messages = messages, dl_more = True\<rparr> of
        Inl _ \<Rightarrow> True
      | Inr bs \<Rightarrow> length bs > max_delivery_bytes)"

fun fill_messages :: "json_lib \<Rightarrow> introduction list \<Rightarrow> introduction list \<Rightarrow> introduction list" where
  "fill_messages J [] messages = messages"
| "fill_messages J (i # rest) messages =
     (if over_limit J (messages @ [i]) then messages else fill_messages J rest (messages @ [i]))"

definition delivery_from_matches ::
  "hyphenated \<Rightarrow> json_lib \<Rightarrow> presence list \<Rightarrow> workload_id \<Rightarrow> usize \<Rightarrow> delivery \<times> usize" where
  "delivery_from_matches hyph J matched listener_workload rotation_offset =
     (let total = length matched;
          start = (if total = 0 then 0 else rotation_offset mod total);
          messages = fill_messages J
            (map (\<lambda>i. introduction_of hyph listener_workload (matched ! ((start + i) mod total)))
               [0 ..< min total max_introductions_per_post]) [];
          delivered = length messages;
          next_offset = (if total = 0 then 0 else (start + delivered) mod total)
      in (\<lparr>dl_hiccup = 1, dl_messages = messages, dl_more = (total > delivered)\<rparr>, next_offset))"

abbreviation delivery_key :: "presence \<Rightarrow> string \<times> attempt_id" where
  "delivery_key p \<equiv> (pr_topic p, ps_attempt_id (pr_stamp p))"

definition listen_matches ::
  "presence_board \<Rightarrow> canonical_topic list \<Rightarrow> attempt_id \<Rightarrow> (canonical_topic \<Rightarrow> bool) \<Rightarrow> presence list" where
  "listen_matches b listen listener_attempt authorize_topic =
     concat (map (\<lambda>topic.
       if \<not> authorize_topic topic then []
       else (case bt_get (pb_by_topic b) topic of
               None \<Rightarrow> []
             | Some bucket \<Rightarrow>
                 filter (\<lambda>p. ps_attempt_id (pr_stamp p) \<noteq> listener_attempt) (bt_values bucket))) listen)"

definition deliver ::
  "hyphenated \<Rightarrow> json_lib \<Rightarrow> presence_board \<Rightarrow> canonical_topic list \<Rightarrow> attempt_id \<Rightarrow> workload_id \<Rightarrow> usize \<Rightarrow>
    (canonical_topic \<Rightarrow> bool) \<Rightarrow> delivery \<times> usize" where
  "deliver hyph J b listen listener_attempt listener_workload rotation_offset authorize_topic =
     delivery_from_matches hyph J
       (sort_key delivery_key (listen_matches b listen listener_attempt authorize_topic))
       listener_workload rotation_offset"

definition deliver_directory ::
  "hyphenated \<Rightarrow> json_lib \<Rightarrow> presence_board \<Rightarrow> attempt_id \<Rightarrow> workload_id \<Rightarrow> usize \<Rightarrow> delivery \<times> usize" where
  "deliver_directory hyph J b listener_attempt listener_workload rotation_offset =
     delivery_from_matches hyph J
       (sort_key delivery_key
          (filter (\<lambda>p. pr_directory_visible p \<and> ps_attempt_id (pr_stamp p) \<noteq> listener_attempt) (all_presence b)))
       listener_workload rotation_offset"

section \<open>Snapshots between nodes\<close>

record keeper_presence =
  kp_topic :: string
  kp_directory_visible :: bool
  kp_cluster_id :: string
  kp_namespace :: string
  kp_app_id :: string
  kp_workload_id :: string
  kp_capsule_id :: string
  kp_execution_id :: string
  kp_unit_id :: string
  kp_role :: "string option"
  kp_rank :: "u32 option"
  kp_attempt_id :: string
  kp_node_id :: string
  kp_agent_incarnation :: u64
  kp_placement_fence_digest :: bytes
  kp_receiver_reachable_ip :: "string option"
  kp_data :: "json option"
  kp_secret_data :: "string option"
  kp_expires_at_ms :: u64

record keeper_snapshot =
  ks_schema :: string
  ks_node_id :: string
  ks_complete :: bool
  ks_records :: "keeper_presence list"

record keeper_lib =
  kl_record_to_vec :: "keeper_presence \<Rightarrow> string + bytes"
  kl_to_string :: "keeper_snapshot \<Rightarrow> string + string"
  kl_from_str :: "string \<Rightarrow> string + keeper_snapshot"

definition snapshot_schema :: string where
  "snapshot_schema = ''gump.hiccup-keeper-snapshot/1''"

definition keeper_record :: "hyphenated \<Rightarrow> presence \<Rightarrow> keeper_presence" where
  "keeper_record hyph p =
     (let s = pr_stamp p
      in \<lparr>kp_topic = pr_topic p, kp_directory_visible = pr_directory_visible p,
          kp_cluster_id = hyph (ps_cluster_id s), kp_namespace = ps_namespace s, kp_app_id = ps_app_id s,
          kp_workload_id = hyph (ps_workload_id s), kp_capsule_id = hyph (ps_capsule_id s),
          kp_execution_id = hyph (ps_execution_id s), kp_unit_id = hyph (ps_unit_id s),
          kp_role = ps_role s, kp_rank = ps_rank s, kp_attempt_id = hyph (ps_attempt_id s),
          kp_node_id = hyph (ps_node_id s), kp_agent_incarnation = ps_agent_incarnation s,
          kp_placement_fence_digest = ps_placement_fence_digest s,
          kp_receiver_reachable_ip = ps_receiver_reachable_ip s, kp_data = pr_data p,
          kp_secret_data = pr_secret_data p, kp_expires_at_ms = pr_expires_at p\<rparr>)"

fun export_records ::
  "hyphenated \<Rightarrow> keeper_lib \<Rightarrow> bytes \<Rightarrow> u64 \<Rightarrow> presence list \<Rightarrow> keeper_presence list \<Rightarrow> usize \<Rightarrow>
    string + keeper_presence list \<times> bool" where
  "export_records hyph K local_node now [] records encoded_bytes = Inr (records, True)"
| "export_records hyph K local_node now (p # ps) records encoded_bytes =
     (if pr_expires_at p \<le> now \<or> ps_node_id (pr_stamp p) \<noteq> local_node
      then export_records hyph K local_node now ps records encoded_bytes
      else
        (let record = keeper_record hyph p
         in case kl_record_to_vec K record of
              Inl e \<Rightarrow> Inl e
            | Inr bs \<Rightarrow>
              (let separator = (if records = [] then 0 else 1);
                   grown = sat_add64 (sat_add64 encoded_bytes separator) (length bs)
               in if grown > max_cluster_snapshot_bytes then Inr (records, False)
                  else export_records hyph K local_node now ps (records @ [record]) grown)))"

definition export_cluster_snapshot ::
  "hyphenated \<Rightarrow> keeper_lib \<Rightarrow> presence_board \<Rightarrow> bytes \<Rightarrow> u64 \<Rightarrow> string + string" where
  "export_cluster_snapshot hyph K b local_node now =
     (case export_records hyph K local_node now (all_presence b) [] 128 of
        Inl e \<Rightarrow> Inl e
      | Inr (records, complete) \<Rightarrow>
        (case kl_to_string K \<lparr>ks_schema = snapshot_schema, ks_node_id = hyph local_node,
                              ks_complete = complete, ks_records = records\<rparr> of
           Inl e \<Rightarrow> Inl e
         | Inr encoded \<Rightarrow>
             if length encoded > max_cluster_snapshot_bytes
             then Inl ''Hiccup cluster snapshot envelope exceeds ceiling'' else Inr encoded))"

definition parse_or :: "id_parser \<Rightarrow> string \<Rightarrow> string \<Rightarrow> string + bytes" where
  "parse_or parse_id text message = (case parse_id text of None \<Rightarrow> Inl message | Some i \<Rightarrow> Inr i)"

definition presence_of_record ::
  "hyphenated \<Rightarrow> id_parser \<Rightarrow> digest_fun \<Rightarrow> json_lib \<Rightarrow> bytes \<Rightarrow> keeper_presence \<Rightarrow> string + presence" where
  "presence_of_record hyph parse_id H J source_node r =
     (case parse_or parse_id (kp_workload_id r) ''invalid Hiccup workload id'' of Inl e \<Rightarrow> Inl e | Inr workload \<Rightarrow>
     (case from_keeper hyph (kp_topic r) workload of
        Inl e \<Rightarrow> Inl (''invalid Hiccup keeper topic: '' @ topic_error_display e)
      | Inr topic \<Rightarrow>
     (case parse_or parse_id (kp_cluster_id r) ''invalid cluster id'' of Inl e \<Rightarrow> Inl e | Inr cluster \<Rightarrow>
     (case parse_or parse_id (kp_capsule_id r) ''invalid capsule id'' of Inl e \<Rightarrow> Inl e | Inr capsule \<Rightarrow>
     (case parse_or parse_id (kp_execution_id r) ''invalid execution id'' of Inl e \<Rightarrow> Inl e | Inr execution \<Rightarrow>
     (case parse_or parse_id (kp_unit_id r) ''invalid unit id'' of Inl e \<Rightarrow> Inl e | Inr unit \<Rightarrow>
     (case parse_or parse_id (kp_attempt_id r) ''invalid attempt id'' of Inl e \<Rightarrow> Inl e | Inr attempt \<Rightarrow>
     (case parse_or parse_id (kp_node_id r) ''invalid node id'' of Inl e \<Rightarrow> Inl e | Inr node \<Rightarrow>
      (let stamp = \<lparr>ps_cluster_id = cluster, ps_namespace = kp_namespace r, ps_app_id = kp_app_id r,
             ps_workload_id = workload, ps_capsule_id = capsule, ps_execution_id = execution,
             ps_unit_id = unit, ps_role = kp_role r, ps_rank = kp_rank r, ps_attempt_id = attempt,
             ps_node_id = node, ps_agent_incarnation = kp_agent_incarnation r,
             ps_placement_fence_digest = kp_placement_fence_digest r, ps_health_eligible = True,
             ps_receiver_reachable_ip = kp_receiver_reachable_ip r\<rparr>
       in if ps_node_id stamp \<noteq> source_node then Inl ''Hiccup snapshot record/source node mismatch''
          else Inr \<lparr>pr_topic = topic, pr_stamp = stamp, pr_data = kp_data r,
                    pr_secret_data = kp_secret_data r, pr_expires_at = kp_expires_at_ms r,
                    pr_content_digest = digest_presence H J topic stamp (kp_data r) (kp_secret_data r),
                    pr_directory_visible = kp_directory_visible r\<rparr>)))))))))"

fun incoming_presence ::
  "hyphenated \<Rightarrow> id_parser \<Rightarrow> digest_fun \<Rightarrow> json_lib \<Rightarrow> bytes \<Rightarrow> u64 \<Rightarrow> keeper_presence list \<Rightarrow>
    string + presence list" where
  "incoming_presence hyph parse_id H J source_node now [] = Inr []"
| "incoming_presence hyph parse_id H J source_node now (r # rs) =
     (if kp_expires_at_ms r \<le> now then incoming_presence hyph parse_id H J source_node now rs
      else case presence_of_record hyph parse_id H J source_node r of
             Inl e \<Rightarrow> Inl e
           | Inr p \<Rightarrow>
             (case incoming_presence hyph parse_id H J source_node now rs of
                Inl e \<Rightarrow> Inl e
              | Inr ps \<Rightarrow> Inr (p # ps)))"

definition departed_attempts :: "bytes \<Rightarrow> presence list \<Rightarrow> presence_board \<Rightarrow> attempt_id list" where
  "departed_attempts source_node incoming b =
     filter (\<lambda>a. case presence_for_attempt b a of
                   None \<Rightarrow> False
                 | Some p \<Rightarrow> ps_node_id (pr_stamp p) = source_node \<and>
                     a \<notin> set (map (\<lambda>q. ps_attempt_id (pr_stamp q)) incoming))
       (map fst (pb_by_attempt b))"

fun insert_incoming ::
  "json_lib \<Rightarrow> presence list \<Rightarrow> attempt_id set \<Rightarrow> presence_board \<Rightarrow> presence_board" where
  "insert_incoming J [] refreshed b = b"
| "insert_incoming J (p # ps) refreshed b =
     (let a = ps_attempt_id (pr_stamp p);
          b1 = (if a \<in> refreshed then b else remove_attempt J a b)
      in insert_incoming J ps (insert a refreshed) (insert_presence J p b1))"

definition merge_cluster_snapshot ::
  "hyphenated \<Rightarrow> id_parser \<Rightarrow> digest_fun \<Rightarrow> json_lib \<Rightarrow> keeper_lib \<Rightarrow> string \<Rightarrow> u64 \<Rightarrow> presence_board \<Rightarrow>
    (string + usize) \<times> presence_board" where
  "merge_cluster_snapshot hyph parse_id H J K text now b =
     (if length text > max_cluster_snapshot_bytes
      then (Inl ''Hiccup cluster snapshot exceeds ceiling'', b)
      else case kl_from_str K text of
        Inl e \<Rightarrow> (Inl (''decode Hiccup snapshot: '' @ e), b)
      | Inr snapshot \<Rightarrow>
        if ks_schema snapshot \<noteq> snapshot_schema
        then (Inl ''unsupported Hiccup keeper snapshot schema'', b)
        else case parse_id (ks_node_id snapshot) of
          None \<Rightarrow> (Inl ''invalid Hiccup snapshot node id'', b)
        | Some source_node \<Rightarrow>
          (case incoming_presence hyph parse_id H J source_node now (ks_records snapshot) of
             Inl e \<Rightarrow> (Inl e, b)
           | Inr incoming \<Rightarrow>
             (let b1 = (if ks_complete snapshot
                        then fold (remove_attempt J) (departed_attempts source_node incoming b) b else b)
              in (Inr (length incoming), insert_incoming J incoming {} b1))))"

text \<open>The loop that drops records from the end until the encoded snapshot fits.\<close>

function fit_snapshot :: "keeper_lib \<Rightarrow> keeper_snapshot \<Rightarrow> string + string" where
  "fit_snapshot K snapshot =
     (case kl_to_string K snapshot of
        Inl e \<Rightarrow> Inl e
      | Inr encoded \<Rightarrow>
          if length encoded \<le> max_cluster_snapshot_bytes then Inr encoded
          else if ks_records snapshot = [] then Inl ''Hiccup cluster snapshot envelope exceeds ceiling''
          else fit_snapshot K (snapshot\<lparr>ks_records := butlast (ks_records snapshot), ks_complete := False\<rparr>))"
  by pat_completeness auto
termination by (relation "measure (\<lambda>(K, s). length (ks_records s))") auto

declare fit_snapshot.simps [simp del]

fun combine_records ::
  "hyphenated \<Rightarrow> keeper_lib \<Rightarrow> bytes \<Rightarrow> string list \<Rightarrow> keeper_presence list \<Rightarrow> bool \<Rightarrow>
    string + keeper_presence list \<times> bool" where
  "combine_records hyph K local_node [] records complete = Inr (records, complete)"
| "combine_records hyph K local_node (encoded # rest) records complete =
     (if length encoded > max_cluster_snapshot_bytes then Inl ''Hiccup cluster snapshot exceeds ceiling''
      else case kl_from_str K encoded of
        Inl e \<Rightarrow> Inl (''decode local Hiccup snapshot: '' @ e)
      | Inr snapshot \<Rightarrow>
          if ks_schema snapshot \<noteq> snapshot_schema \<or> ks_node_id snapshot \<noteq> hyph local_node
          then Inl ''local Hiccup snapshot identity mismatch''
          else combine_records hyph K local_node rest (records @ ks_records snapshot)
                 (complete \<and> ks_complete snapshot))"

definition combine_cluster_snapshots ::
  "hyphenated \<Rightarrow> keeper_lib \<Rightarrow> bytes \<Rightarrow> string list \<Rightarrow> string + string" where
  "combine_cluster_snapshots hyph K local_node snapshots =
     (case combine_records hyph K local_node snapshots [] True of
        Inl e \<Rightarrow> Inl e
      | Inr (records, complete) \<Rightarrow>
          fit_snapshot K \<lparr>ks_schema = snapshot_schema, ks_node_id = hyph local_node,
                          ks_complete = complete, ks_records = records\<rparr>)"

end
