(* ===== verification/Hiccup_Invariant.thy ===== *)
theory Hiccup_Invariant
  imports Hiccup_Board
begin

text \<open>
  What every sequence of changes keeps of the presence board: the two indexes agree, the byte
  counter is exact, and the ceilings hold. Each operation is characterised by its effect on the
  entry for one topic and one attempt.
\<close>

section \<open>Entries and totals\<close>

definition bucket_of :: "(canonical_topic, bucket) btree \<Rightarrow> canonical_topic \<Rightarrow> bucket" where
  "bucket_of T t = (case bt_get T t of None \<Rightarrow> [] | Some m \<Rightarrow> m)"

definition board_get :: "presence_board \<Rightarrow> canonical_topic \<Rightarrow> attempt_id \<Rightarrow> presence option" where
  "board_get b t a = bt_get (bucket_of (pb_by_topic b) t) a"

definition bucket_bytes :: "json_lib \<Rightarrow> bucket \<Rightarrow> nat" where
  "bucket_bytes J m = bt_sum (\<lambda>a p. presence_size J p) m"

definition topics_bytes :: "json_lib \<Rightarrow> (canonical_topic, bucket) btree \<Rightarrow> nat" where
  "topics_bytes J T = bt_sum (\<lambda>t m. bucket_bytes J m) T"

definition topics_of :: "presence_board \<Rightarrow> attempt_id \<Rightarrow> canonical_topic list" where
  "topics_of b a = (case bt_get (pb_by_attempt b) a of None \<Rightarrow> [] | Some ts \<Rightarrow> ts)"

lemma bucket_of_insert: "bucket_of (bt_insert t m T) t' = (if t' = t then m else bucket_of T t')"
  by (simp add: bucket_of_def bt_simps)

lemma bucket_of_remove: "bucket_of (bt_remove t T) t' = (if t' = t then [] else bucket_of T t')"
  by (simp add: bucket_of_def bt_simps)

lemma bucket_bytes_Nil [simp]: "bucket_bytes J [] = 0"
  by (simp add: bucket_bytes_def)

lemma topics_bytes_insert:
  assumes "bt_ok T"
  shows "topics_bytes J (bt_insert t m T) + bucket_bytes J (bucket_of T t) = topics_bytes J T + bucket_bytes J m"
  unfolding topics_bytes_def
  using bt_sum_split [OF assms, of "\<lambda>t m. bucket_bytes J m" t] bt_sum_insert [OF assms, of "\<lambda>t m. bucket_bytes J m" t m]
  by (simp add: bucket_of_def split: option.splits)

lemma topics_bytes_remove:
  assumes "bt_ok T"
  shows "topics_bytes J (bt_remove t T) + bucket_bytes J (bucket_of T t) = topics_bytes J T"
  unfolding topics_bytes_def
  using bt_sum_split [OF assms, of "\<lambda>t m. bucket_bytes J m" t]
  by (simp add: bucket_of_def split: option.splits)

lemma bucket_bytes_put:
  assumes "bt_ok m"
  shows "bucket_bytes J (bt_insert a p m) + (case bt_get m a of None \<Rightarrow> 0 | Some q \<Rightarrow> presence_size J q) =
    bucket_bytes J m + presence_size J p"
  unfolding bucket_bytes_def
  using bt_sum_split [OF assms, of "\<lambda>a p. presence_size J p" a] bt_sum_insert [OF assms, of "\<lambda>a p. presence_size J p" a p]
  by simp

lemma bucket_bytes_drop:
  assumes "bt_ok m" "bt_get m a = Some q"
  shows "bucket_bytes J (bt_remove a m) + presence_size J q = bucket_bytes J m"
  unfolding bucket_bytes_def
  using bt_sum_split [OF assms(1), of "\<lambda>a p. presence_size J p" a] assms(2) by simp

lemma bucket_bytes_le: "bt_ok T \<Longrightarrow> bucket_bytes J (bucket_of T t) \<le> topics_bytes J T"
  using topics_bytes_remove [of T J t] by linarith

section \<open>The invariant\<close>

text \<open>What holds of the topic side alone, also half way through the removal of an attempt.\<close>

definition topics_ok :: "json_lib \<Rightarrow> presence_board \<Rightarrow> bool" where
  "topics_ok J b \<longleftrightarrow> bt_ok (pb_by_topic b) \<and>
     (\<forall>t. bt_ok (bucket_of (pb_by_topic b) t) \<and>
        length (bucket_of (pb_by_topic b) t) \<le> max_publishers_per_topic) \<and>
     (\<forall>t a p. board_get b t a = Some p \<longrightarrow> pr_topic p = t \<and> ps_attempt_id (pr_stamp p) = a) \<and>
     pb_approx_bytes b = topics_bytes J (pb_by_topic b) \<and> pb_approx_bytes b \<le> max_keeper_bytes"

definition board_ok :: "json_lib \<Rightarrow> presence_board \<Rightarrow> bool" where
  "board_ok J b \<longleftrightarrow> topics_ok J b \<and> bt_ok (pb_by_attempt b) \<and>
     (\<forall>a ts. bt_get (pb_by_attempt b) a = Some ts \<longrightarrow> ts \<noteq> [] \<and> distinct ts) \<and>
     (\<forall>a t. t \<in> set (topics_of b a) \<longleftrightarrow> board_get b t a \<noteq> None)"

lemma topics_okD:
  assumes "topics_ok J b"
  shows "bt_ok (pb_by_topic b)" "bt_ok (bucket_of (pb_by_topic b) t)"
    "length (bucket_of (pb_by_topic b) t) \<le> max_publishers_per_topic"
    "board_get b t a = Some p \<Longrightarrow> pr_topic p = t"
    "board_get b t a = Some p \<Longrightarrow> ps_attempt_id (pr_stamp p) = a"
    "pb_approx_bytes b = topics_bytes J (pb_by_topic b)" "topics_bytes J (pb_by_topic b) \<le> max_keeper_bytes"
  using assms by (auto simp: topics_ok_def)

lemma board_okD:
  assumes "board_ok J b"
  shows "topics_ok J b" "bt_ok (pb_by_attempt b)"
    "bt_get (pb_by_attempt b) a = Some ts \<Longrightarrow> ts \<noteq> []"
    "bt_get (pb_by_attempt b) a = Some ts \<Longrightarrow> distinct ts"
    "t \<in> set (topics_of b a) \<longleftrightarrow> board_get b t a \<noteq> None"
  using assms by (auto simp: board_ok_def)

lemma board_new_ok [simp]: "board_ok J board_new"
  by (simp add: board_ok_def topics_ok_def board_new_def bucket_of_def board_get_def topics_of_def topics_bytes_def)

section \<open>Removal\<close>

lemma drop_from_topic_effect:
  assumes "topics_ok J b"
  shows "topics_ok J (drop_from_topic J a t b)"
    and "board_get (drop_from_topic J a t b) t' x = (if t' = t \<and> x = a then None else board_get b t' x)"
    and "pb_by_attempt (drop_from_topic J a t b) = pb_by_attempt b"
proof -
  note d = topics_okD [OF assms]
  let ?T = "pb_by_topic b" and ?m = "bucket_of (pb_by_topic b) t"
  show "pb_by_attempt (drop_from_topic J a t b) = pb_by_attempt b"
    by (simp add: drop_from_topic_def Let_def split: option.splits prod.splits)
  have eff: "bucket_of (pb_by_topic (drop_from_topic J a t b)) u = (if u = t then bt_remove a ?m else bucket_of ?T u)" for u
  proof (cases "bt_get ?T t")
    case None
    then have "?m = []" "bt_remove a [] = ([] :: bucket)" by (simp_all add: bucket_of_def bt_remove_def)
    with None show ?thesis by (auto simp: drop_from_topic_def)
  next
    case (Some m)
    then have "?m = m" by (simp add: bucket_of_def)
    with Some show ?thesis
      by (cases "bt_get m a") (auto simp: drop_from_topic_def bucket_of_insert bucket_of_remove bt_remove_absent)
  qed
  then show get: "board_get (drop_from_topic J a t b) t' x = (if t' = t \<and> x = a then None else board_get b t' x)" for t' x
    by (simp add: board_get_def bt_simps)
  have sz: "pb_approx_bytes (drop_from_topic J a t b) = topics_bytes J (pb_by_topic (drop_from_topic J a t b)) \<and>
      bt_ok (pb_by_topic (drop_from_topic J a t b))"
  proof (cases "bt_get ?T t")
    case None
    then show ?thesis using d(1,6) by (simp add: drop_from_topic_def)
  next
    case (Some m)
    then have m: "?m = m" "bt_ok m" using d(2) [of t] by (simp_all add: bucket_of_def)
    show ?thesis
    proof (cases "bt_get m a")
      case None
      then have "topics_bytes J (bt_insert t m ?T) = topics_bytes J ?T"
        "m = [] \<Longrightarrow> topics_bytes J (bt_remove t ?T) = topics_bytes J ?T"
        using topics_bytes_insert [OF d(1), of J t m] topics_bytes_remove [OF d(1), of J t] m
        by simp_all
      then show ?thesis using Some None d(1,6) by (simp add: drop_from_topic_def bt_intros)
    next
      case q: (Some q)
      have "bucket_bytes J (bt_remove a m) + presence_size J q = bucket_bytes J m"
        by (rule bucket_bytes_drop [OF m(2) q])
      then have "topics_bytes J (bt_insert t (bt_remove a m) ?T) = topics_bytes J ?T - presence_size J q"
        "bt_remove a m = [] \<Longrightarrow> topics_bytes J (bt_remove t ?T) = topics_bytes J ?T - presence_size J q"
        using topics_bytes_insert [OF d(1), of J t "bt_remove a m"] topics_bytes_remove [OF d(1), of J t] m
        by simp_all
      then show ?thesis using Some q d(1,6) by (simp add: drop_from_topic_def bt_intros sat_sub_def)
    qed
  qed
  have "pb_approx_bytes (drop_from_topic J a t b) \<le> pb_approx_bytes b"
    by (simp add: drop_from_topic_def Let_def sat_sub_def split: option.splits prod.splits)
  with sz get show "topics_ok J (drop_from_topic J a t b)"
    using d(4,5,6,7) d(2,3) bt_length_remove_le [of a ?m] unfolding topics_ok_def
    by (auto simp: eff bt_intros split: if_splits intro: order_trans)
qed

lemma drop_from_topics_effect:
  assumes "topics_ok J b"
  shows "topics_ok J (fold (drop_from_topic J a) ts b) \<and>
    (\<forall>t x. board_get (fold (drop_from_topic J a) ts b) t x = (if t \<in> set ts \<and> x = a then None else board_get b t x)) \<and>
    pb_by_attempt (fold (drop_from_topic J a) ts b) = pb_by_attempt b"
  using assms
proof (induction ts arbitrary: b)
  case (Cons t ts)
  from Cons.IH [OF drop_from_topic_effect(1) [OF Cons.prems, of a t]] drop_from_topic_effect(2,3) [OF Cons.prems, of a t]
  show ?case by auto
qed simp

lemma remove_attempt_effect:
  assumes "board_ok J b"
  shows "board_ok J (remove_attempt J a b)"
    and "board_get (remove_attempt J a b) t x = (if x = a then None else board_get b t x)"
proof -
  note d = board_okD [OF assms]
  show get: "board_get (remove_attempt J a b) t x = (if x = a then None else board_get b t x)" for t x
  proof (cases "bt_get (pb_by_attempt b) a")
    case None
    then have "board_get b t a = None" using d(5) [of t a] by (simp add: topics_of_def)
    with None show ?thesis by (auto simp: remove_attempt_def)
  next
    case (Some ts)
    let ?b = "b\<lparr>pb_by_attempt := bt_remove a (pb_by_attempt b)\<rparr>"
    have "topics_ok J ?b" using d(1) by (simp add: topics_ok_def board_get_def)
    moreover have "t \<notin> set ts \<Longrightarrow> board_get b t a = None" using d(5) [of t a] Some by (simp add: topics_of_def)
    ultimately show ?thesis
      using drop_from_topics_effect [of J ?b a ts] Some by (auto simp: remove_attempt_def board_get_def)
  qed
  show "board_ok J (remove_attempt J a b)"
  proof (cases "bt_get (pb_by_attempt b) a")
    case None
    then show ?thesis using assms by (simp add: remove_attempt_def)
  next
    case (Some ts)
    let ?b = "b\<lparr>pb_by_attempt := bt_remove a (pb_by_attempt b)\<rparr>"
    have "topics_ok J ?b" using d(1) by (simp add: topics_ok_def board_get_def)
    from drop_from_topics_effect [OF this, of a ts] Some
    have t: "topics_ok J (remove_attempt J a b)" "pb_by_attempt (remove_attempt J a b) = bt_remove a (pb_by_attempt b)"
      by (simp_all add: remove_attempt_def)
    have "u \<in> set (topics_of (remove_attempt J a b) x) \<longleftrightarrow> board_get (remove_attempt J a b) u x \<noteq> None" for u x
      using d(5) [of u x] by (simp add: get t(2) topics_of_def bt_simps)
    with t d(2-4) show ?thesis by (auto simp: board_ok_def bt_intros bt_simps split: if_splits)
  qed
qed

lemma remove_attempts_effect:
  assumes "board_ok J b"
  shows "board_ok J (fold (remove_attempt J) as b) \<and>
    (\<forall>t x. board_get (fold (remove_attempt J) as b) t x = (if x \<in> set as then None else board_get b t x))"
  using assms
proof (induction as arbitrary: b)
  case (Cons a as)
  from Cons.IH [OF remove_attempt_effect(1) [OF Cons.prems, of a]] remove_attempt_effect(2) [OF Cons.prems, of a]
  show ?case by auto
qed simp

section \<open>Insertion\<close>

lemma board_ok_touch:
  assumes "board_ok J b"
  shows "board_ok J (b\<lparr>pb_by_topic := bt_insert t (bucket_of (pb_by_topic b) t) (pb_by_topic b), pb_omit_count := n\<rparr>)"
proof -
  note d = board_okD [OF assms]
  have b: "bucket_of (bt_insert t (bucket_of (pb_by_topic b) t) (pb_by_topic b)) u = bucket_of (pb_by_topic b) u" for u
    by (simp add: bucket_of_insert)
  have "topics_bytes J (bt_insert t (bucket_of (pb_by_topic b) t) (pb_by_topic b)) = topics_bytes J (pb_by_topic b)"
    using topics_bytes_insert [OF topics_okD(1) [OF d(1)], of J t "bucket_of (pb_by_topic b) t"] by simp
  with d(1) show ?thesis
    using assms unfolding board_ok_def topics_ok_def
    by (simp add: board_get_def b bt_intros topics_of_def)
qed

lemma insert_presence_effect:
  assumes "board_ok J b"
  shows "board_ok J (insert_presence J p b) \<and>
    ((\<forall>t x. board_get (insert_presence J p b) t x = board_get b t x) \<or>
     (\<forall>t x. board_get (insert_presence J p b) t x =
        (if t = pr_topic p \<and> x = ps_attempt_id (pr_stamp p) then Some p else board_get b t x)))"
proof -
  let ?t = "pr_topic p" and ?a = "ps_attempt_id (pr_stamp p)"
  let ?T = "pb_by_topic b" and ?m = "bucket_of (pb_by_topic b) (pr_topic p)"
  let ?b1 = "b\<lparr>pb_by_topic := bt_insert ?t ?m ?T\<rparr>"
  let ?old = "case bt_get ?m ?a of None \<Rightarrow> 0 | Some q \<Rightarrow> presence_size J q"
  let ?proj = "sat_add64 (sat_sub (pb_approx_bytes b) ?old) (presence_size J p)"
  let ?ts = "topics_of b ?a"
  let ?b2 = "b\<lparr>pb_by_topic := bt_insert ?t (bt_insert ?a p ?m) (bt_insert ?t ?m ?T),
      pb_by_attempt := bt_insert ?a (if ?t \<in> set ?ts then ?ts else ?ts @ [?t]) (pb_by_attempt b),
      pb_approx_bytes := ?proj\<rparr>"
  note d = board_okD [OF assms] and e = topics_okD [OF board_okD(1) [OF assms]]
  have same: "board_get (b\<lparr>pb_by_topic := bt_insert ?t ?m ?T, pb_omit_count := n\<rparr>) t x = board_get b t x" for t x n
    by (simp add: board_get_def bucket_of_insert)
  let ?o = "b\<lparr>pb_by_topic := bt_insert ?t ?m ?T, pb_omit_count := sat_add64 (pb_omit_count b) 1\<rparr>"
  have eq: "insert_presence J p b =
      (if length ?m \<ge> max_publishers_per_topic \<and> \<not> bt_has ?m ?a then ?o
       else if ?proj > max_keeper_bytes then ?o else ?b2)"
    by (simp add: insert_presence_def Let_def flip: bucket_of_def topics_of_def)
  consider (omitted) "insert_presence J p b = ?o"
    | (stored) "insert_presence J p b = ?b2" "length ?m < max_publishers_per_topic \<or> bt_has ?m ?a"
        "?proj \<le> max_keeper_bytes"
    by (cases "length ?m \<ge> max_publishers_per_topic \<and> \<not> bt_has ?m ?a"; cases "?proj > max_keeper_bytes")
      (use eq in \<open>simp_all add: not_less not_le\<close>)
  then show ?thesis
  proof cases
    case omitted
    then show ?thesis using board_ok_touch [OF assms] same by simp
  next
    case stored
    have get: "board_get ?b2 t x = (if t = ?t \<and> x = ?a then Some p else board_get b t x)" for t x
      by (simp add: board_get_def bucket_of_insert bt_simps)
    have old: "?old \<le> bucket_bytes J ?m"
      using bucket_bytes_drop [OF e(2), of ?t ?a _ J] by (auto split: option.splits)
    then have old': "?old \<le> topics_bytes J ?T" using bucket_bytes_le [OF e(1), of J ?t] by linarith
    have proj: "?proj = topics_bytes J ?T - ?old + presence_size J p"
      using stored(3) e(6) by (auto simp: sat_add64_def sat_sub_def u64_max_def max_keeper_bytes_def min_def split: if_splits)
    have bytes: "topics_bytes J (bt_insert ?t (bt_insert ?a p ?m) (bt_insert ?t ?m ?T)) = ?proj"
      using topics_bytes_insert [OF bt_ok_insert [OF e(1)], of J ?t "bt_insert ?a p ?m" ?t ?m]
        topics_bytes_insert [OF e(1), of J ?t ?m] bucket_bytes_put [OF e(2), of J ?a p ?t] old old' proj
      by (simp add: bucket_of_insert)
    have len: "length (bt_insert ?a p ?m) \<le> max_publishers_per_topic"
      using stored(2) e(3) [of ?t] by (auto simp: bt_length_insert [OF e(2)])
    have top: "topics_ok J ?b2"
      using e(1-5) stored(3) len bytes
      unfolding topics_ok_def get by (auto simp: bucket_of_insert bt_intros split: if_splits)
    have ts: "?ts \<noteq> [] \<Longrightarrow> distinct ?ts" "t \<in> set ?ts \<longleftrightarrow> board_get b t ?a \<noteq> None" for t
      using d(4) [of ?a] d(5) [of t ?a] by (auto simp: topics_of_def split: option.splits)
    have dist: "distinct ?ts" using ts(1) by (cases "?ts = []") simp_all
    have idx: "t \<in> set (topics_of ?b2 x) \<longleftrightarrow> board_get ?b2 t x \<noteq> None" for t x
      using d(5) [of t x] ts(2) [of t] unfolding get by (auto simp: topics_of_def bt_simps)
    have "board_ok J ?b2"
      using top d(2-4) dist idx by (auto simp: board_ok_def bt_intros bt_simps split: if_splits)
    with stored(1) get show ?thesis by simp
  qed
qed

section \<open>All operations\<close>

definition entries :: "presence_board \<Rightarrow> presence set" where
  "entries b = {p. \<exists>t a. board_get b t a = Some p}"

lemma entries_new [simp]: "entries board_new = {}"
  by (simp add: entries_def board_get_def board_new_def bucket_of_def)

lemma entries_mono:
  assumes "\<And>t a p. board_get b' t a = Some p \<Longrightarrow> p \<in> Q \<or> board_get b t a = Some p"
  shows "entries b' \<subseteq> Q \<union> entries b"
  using assms unfolding entries_def by blast

lemma insert_presence_ok:
  assumes "board_ok J b"
  shows "board_ok J (insert_presence J p b)" and "entries (insert_presence J p b) \<subseteq> {p} \<union> entries b"
proof -
  note e = insert_presence_effect [OF assms, of p]
  then show "board_ok J (insert_presence J p b)" by blast
  show "entries (insert_presence J p b) \<subseteq> {p} \<union> entries b"
  proof (rule entries_mono)
    show "q \<in> {p} \<or> board_get b t a = Some q" if "board_get (insert_presence J p b) t a = Some q" for t a q
      using conjunct2 [OF e] that by (elim disjE) (simp_all split: if_splits)
  qed
qed

lemma remove_attempt_ok:
  assumes "board_ok J b"
  shows "board_ok J (remove_attempt J a b)" and "entries (remove_attempt J a b) \<subseteq> entries b"
proof -
  show "board_ok J (remove_attempt J a b)" by (rule remove_attempt_effect(1) [OF assms])
  show "entries (remove_attempt J a b) \<subseteq> entries b"
    by (rule entries_mono [of _ "{}", simplified])
      (simp add: remove_attempt_effect(2) [OF assms] split: if_splits)
qed

lemma entries_attempt:
  assumes "board_ok J b"
  shows "p \<in> entries b \<longleftrightarrow> board_get b (pr_topic p) (ps_attempt_id (pr_stamp p)) = Some p"
  using topics_okD(4,5) [OF board_okD(1) [OF assms]] by (auto simp: entries_def)

lemma entries_remove_attempt:
  assumes "board_ok J b"
  shows "p \<in> entries (remove_attempt J a b) \<longleftrightarrow> p \<in> entries b \<and> ps_attempt_id (pr_stamp p) \<noteq> a"
  unfolding entries_attempt [OF assms] entries_attempt [OF remove_attempt_ok(1) [OF assms]]
  by (simp add: remove_attempt_effect(2) [OF assms])

lemma remove_attempts_ok:
  assumes "board_ok J b"
  shows "board_ok J (fold (remove_attempt J) as b)" and "entries (fold (remove_attempt J) as b) \<subseteq> entries b"
proof -
  show "board_ok J (fold (remove_attempt J) as b)" using remove_attempts_effect [OF assms] by blast
  show "entries (fold (remove_attempt J) as b) \<subseteq> entries b"
    by (rule entries_mono [of _ "{}", simplified])
      (simp add: conjunct2 [OF remove_attempts_effect [OF assms]] split: if_splits)
qed

lemma board_upsert_ok:
  assumes "board_ok J b"
  shows "board_ok J (board_upsert H J resolved stamp decl expires b)"
    and "p \<in> entries (board_upsert H J resolved stamp decl expires b) \<Longrightarrow>
      p \<in> entries b \<and> ps_attempt_id (pr_stamp p) \<noteq> ps_attempt_id stamp \<or>
      pr_stamp p = stamp \<and> rt_publish resolved = Some (pr_topic p) \<and> pr_expires_at p = expires \<and>
      \<not> pr_directory_visible p"
proof -
  note r = remove_attempt_ok(1) [OF assms, of "ps_attempt_id stamp"]
  show "board_ok J (board_upsert H J resolved stamp decl expires b)"
    using r by (auto simp: board_upsert_def Let_def insert_presence_ok split: option.splits)
  show "p \<in> entries (board_upsert H J resolved stamp decl expires b) \<Longrightarrow>
      p \<in> entries b \<and> ps_attempt_id (pr_stamp p) \<noteq> ps_attempt_id stamp \<or>
      pr_stamp p = stamp \<and> rt_publish resolved = Some (pr_topic p) \<and> pr_expires_at p = expires \<and>
      \<not> pr_directory_visible p"
    by (auto simp: board_upsert_def Let_def entries_remove_attempt [OF assms] split: option.splits if_splits
        dest!: subsetD [OF insert_presence_ok(2) [OF r]])
qed

lemma insert_capabilities_ok:
  assumes "board_ok J b" and "insert_capabilities hyph H J stamp expires caps b = (res, b')"
  shows "board_ok J b' \<and> (\<forall>p \<in> entries b'. p \<in> entries b \<or> pr_stamp p = stamp \<and> pr_directory_visible p \<and>
      pr_expires_at p = expires \<and>
      (\<exists>name. name \<noteq> ''@self'' \<and> canonicalize_topic hyph name (ps_workload_id stamp) = Inr (pr_topic p)))"
  using assms
proof (induction hyph H J stamp expires caps b rule: insert_capabilities.induct)
  case (2 hyph H J stamp expires name data caps b)
  show ?case
  proof (cases "name = ''@self''")
    case True
    with 2 show ?thesis by simp
  next
    case False
    show ?thesis
    proof (cases "canonicalize_topic hyph name (ps_workload_id stamp)")
      case (Inl e)
      with 2 False show ?thesis by simp
    next
      case (Inr topic)
      let ?p = "\<lparr>pr_topic = topic, pr_stamp = stamp, pr_data = Some data, pr_secret_data = None,
                 pr_expires_at = expires, pr_content_digest = digest_presence H J topic stamp (Some data) None,
                 pr_directory_visible = True\<rparr>"
      from 2(3) False Inr have "insert_capabilities hyph H J stamp expires caps (insert_presence J ?p b) = (res, b')"
        by simp
      from 2(1) [OF False Inr insert_presence_ok(1) [OF 2(2)] this]
      have IH: "board_ok J b'" "\<And>q. q \<in> entries b' \<Longrightarrow> q \<in> entries (insert_presence J ?p b) \<or>
          pr_stamp q = stamp \<and> pr_directory_visible q \<and> pr_expires_at q = expires \<and>
          (\<exists>name. name \<noteq> ''@self'' \<and> canonicalize_topic hyph name (ps_workload_id stamp) = Inr (pr_topic q))"
        by blast+
      have "pr_stamp ?p = stamp \<and> pr_directory_visible ?p \<and> pr_expires_at ?p = expires \<and>
          canonicalize_topic hyph name (ps_workload_id stamp) = Inr (pr_topic ?p)" using Inr by simp
      with IH False insert_presence_ok(2) [OF 2(2), of ?p] show ?thesis by blast
    qed
  qed
qed simp

lemma upsert_capabilities_ok:
  assumes "board_ok J b" and "upsert_capabilities hyph H J stamp caps expires b = (res, b')"
  shows "board_ok J b' \<and> (\<forall>p \<in> entries b'.
      p \<in> entries b \<and> ps_attempt_id (pr_stamp p) \<noteq> ps_attempt_id stamp \<or>
      pr_stamp p = stamp \<and> pr_directory_visible p \<and> pr_expires_at p = expires \<and>
      (\<exists>name. name \<noteq> ''@self'' \<and> canonicalize_topic hyph name (ps_workload_id stamp) = Inr (pr_topic p)))"
proof (cases "ps_health_eligible stamp")
  case True
  with assms(2) have "insert_capabilities hyph H J stamp expires caps (remove_attempt J (ps_attempt_id stamp) b) = (res, b')"
    by (simp add: upsert_capabilities_def Let_def)
  from insert_capabilities_ok [OF remove_attempt_ok(1) [OF assms(1)] this] show ?thesis
    unfolding entries_remove_attempt [OF assms(1)] by blast
next
  case False
  with assms(2) have "b' = remove_attempt J (ps_attempt_id stamp) b" by (simp add: upsert_capabilities_def Let_def)
  with remove_attempt_ok(1) [OF assms(1)] show ?thesis by (simp add: entries_remove_attempt [OF assms(1)])
qed

lemma fence_attempt_ok:
  assumes "board_ok J b"
  shows "board_ok J (fence_attempt J a d b)" and "entries (fence_attempt J a d b) \<subseteq> entries b"
  using remove_attempt_ok [OF assms, of a] assms by (auto simp: fence_attempt_def split: option.splits)

lemma insert_incoming_ok:
  assumes "board_ok J b"
  shows "board_ok J (insert_incoming J ps refreshed b) \<and> entries (insert_incoming J ps refreshed b) \<subseteq> set ps \<union> entries b"
  using assms
proof (induction J ps refreshed b rule: insert_incoming.induct)
  case (2 J p ps refreshed b)
  let ?b1 = "if ps_attempt_id (pr_stamp p) \<in> refreshed then b else remove_attempt J (ps_attempt_id (pr_stamp p)) b"
  have b1: "board_ok J ?b1" "entries ?b1 \<subseteq> entries b" using remove_attempt_ok [OF 2(2)] 2(2) by auto
  have eq: "insert_incoming J (p # ps) refreshed b =
      insert_incoming J ps (insert (ps_attempt_id (pr_stamp p)) refreshed) (insert_presence J p ?b1)"
    by (simp only: insert_incoming.simps Let_def)
  have "board_ok J (insert_incoming J (p # ps) refreshed b) \<and>
      entries (insert_incoming J (p # ps) refreshed b) \<subseteq> set ps \<union> entries (insert_presence J p ?b1)"
    unfolding eq by (rule 2(1) [OF refl refl insert_presence_ok(1) [OF b1(1), of p]])
  with insert_presence_ok(2) [OF b1(1), of p] b1(2) show ?case by (simp only: set_simps) blast
qed simp

lemma presence_of_record_fields:
  assumes "presence_of_record hyph parse_id H J node r = Inr p"
  shows "pr_expires_at p = kp_expires_at_ms r" and "ps_node_id (pr_stamp p) = node"
    and "from_keeper hyph (kp_topic r) (ps_workload_id (pr_stamp p)) = Inr (pr_topic p)"
  using assms by (auto simp: presence_of_record_def Let_def split: sum.splits if_splits)

lemma incoming_presence_fields:
  assumes "incoming_presence hyph parse_id H J node now rs = Inr ps" and "p \<in> set ps"
  shows "now < pr_expires_at p \<and> ps_node_id (pr_stamp p) = node \<and>
    (\<exists>raw. from_keeper hyph raw (ps_workload_id (pr_stamp p)) = Inr (pr_topic p))"
  using assms
proof (induction rs arbitrary: ps)
  case (Cons r rs)
  show ?case
  proof (cases "kp_expires_at_ms r \<le> now")
    case True
    with Cons show ?thesis by simp
  next
    case False
    with Cons.prems(1) obtain q qs where q: "presence_of_record hyph parse_id H J node r = Inr q"
      "incoming_presence hyph parse_id H J node now rs = Inr qs" "ps = q # qs"
      by (auto split: sum.splits)
    show ?thesis
    proof (cases "p = q")
      case True
      with presence_of_record_fields [OF q(1)] False show ?thesis by (metis not_le)
    next
      case False
      with Cons.IH [OF q(2)] q(3) Cons.prems(2) show ?thesis by simp
    qed
  qed
qed simp

lemma merge_cluster_snapshot_cases:
  obtains (refused) e where "merge_cluster_snapshot hyph parse_id H J K enc now b = (Inl e, b)"
  | (merged) node and snapshot :: keeper_snapshot and incoming where
      "incoming_presence hyph parse_id H J node now (ks_records snapshot) = Inr incoming"
      "merge_cluster_snapshot hyph parse_id H J K enc now b =
         (Inr (length incoming), insert_incoming J incoming {}
            (if ks_complete snapshot
             then fold (remove_attempt J) (departed_attempts node incoming b) b else b))"
proof (cases "\<exists>e. merge_cluster_snapshot hyph parse_id H J K enc now b = (Inl e, b)")
  case True
  then show ?thesis using refused by blast
next
  case False
  have len: "\<not> length enc > max_cluster_snapshot_bytes"
    using False by (rule contrapos_nn) (simp add: merge_cluster_snapshot_def)
  obtain snapshot where snapshot: "kl_from_str K enc = Inr snapshot"
    using False len by (cases "kl_from_str K enc") (auto simp: merge_cluster_snapshot_def)
  have schema: "ks_schema snapshot = snapshot_schema"
    using False len snapshot by (cases "ks_schema snapshot = snapshot_schema") (auto simp: merge_cluster_snapshot_def)
  obtain node where node: "parse_id (ks_node_id snapshot) = Some node"
    using False len snapshot schema by (cases "parse_id (ks_node_id snapshot)") (auto simp: merge_cluster_snapshot_def)
  obtain incoming where incoming: "incoming_presence hyph parse_id H J node now (ks_records snapshot) = Inr incoming"
    using False len snapshot schema node
    by (cases "incoming_presence hyph parse_id H J node now (ks_records snapshot)") (auto simp: merge_cluster_snapshot_def)
  show ?thesis
    by (rule merged [OF incoming]) (simp add: merge_cluster_snapshot_def len snapshot schema node incoming)
qed

lemma merge_cluster_snapshot_ok:
  assumes "board_ok J b" and "merge_cluster_snapshot hyph parse_id H J K enc now b = (res, b')"
  shows "board_ok J b' \<and> (\<forall>p \<in> entries b'. p \<in> entries b \<or> now < pr_expires_at p \<and>
      (\<exists>raw. from_keeper hyph raw (ps_workload_id (pr_stamp p)) = Inr (pr_topic p)))"
proof (cases rule: merge_cluster_snapshot_cases [of hyph parse_id H J K enc now b])
  case (refused e)
  then show ?thesis using assms by simp
next
  case (merged node snapshot incoming)
  let ?b1 = "if ks_complete snapshot then fold (remove_attempt J) (departed_attempts node incoming b) b else b"
  have b1: "board_ok J ?b1" "entries ?b1 \<subseteq> entries b"
    using remove_attempts_ok [OF assms(1), of "departed_attempts node incoming b"] assms(1) by auto
  have "b' = insert_incoming J incoming {} ?b1" using merged(2) assms(2) by simp
  with insert_incoming_ok [OF b1(1), of incoming "{}"] b1(2) incoming_presence_fields [OF merged(1)]
  show ?thesis by blast
qed

section \<open>The board as a machine\<close>

datatype board_command =
    BUpsert resolved_topics placement_stamp hiccup_declaration u64
  | BCapabilities placement_stamp "(string, json) btree" u64
  | BRemove attempt_id
  | BFence attempt_id bytes
  | BExpire u64
  | BMerge string u64

fun board_step ::
  "hyphenated \<Rightarrow> id_parser \<Rightarrow> digest_fun \<Rightarrow> json_lib \<Rightarrow> keeper_lib \<Rightarrow> board_command \<Rightarrow> presence_board \<Rightarrow> presence_board"
where
  "board_step hyph parse_id H J K (BUpsert resolved stamp decl expires) b = board_upsert H J resolved stamp decl expires b"
| "board_step hyph parse_id H J K (BCapabilities stamp caps expires) b = snd (upsert_capabilities hyph H J stamp caps expires b)"
| "board_step hyph parse_id H J K (BRemove a) b = remove_attempt J a b"
| "board_step hyph parse_id H J K (BFence a d) b = fence_attempt J a d b"
| "board_step hyph parse_id H J K (BExpire now) b = board_expire J now b"
| "board_step hyph parse_id H J K (BMerge enc now) b = snd (merge_cluster_snapshot hyph parse_id H J K enc now b)"

interpretation board: invariant_machine "board_step hyph parse_id H J K" "board_ok J"
proof
  fix b c
  assume ok: "board_ok J b"
  show "board_ok J (board_step hyph parse_id H J K c b)"
  proof (cases c)
    case (BCapabilities stamp caps expires)
    then show ?thesis
      using upsert_capabilities_ok [OF ok, of hyph H stamp caps expires]
      by (cases "upsert_capabilities hyph H J stamp caps expires b") auto
  next
    case (BMerge enc now)
    then show ?thesis
      using merge_cluster_snapshot_ok [OF ok, of hyph parse_id H K enc now]
      by (cases "merge_cluster_snapshot hyph parse_id H J K enc now b") auto
  qed (simp_all add: ok board_upsert_ok remove_attempt_ok fence_attempt_ok board_expire_def remove_attempts_ok)
qed

end
