(* ===== verification/Hiccup_Properties.thy ===== *)
theory Hiccup_Properties
  imports Hiccup_Invariant
begin

text \<open>
  The properties of the presence board: exact bookkeeping within the ceilings, the effect of expiry,
  the rotation of deliveries over all matching peers, and the loop that fits a combined snapshot.
\<close>

section \<open>Bookkeeping\<close>

lemma publisher_count_bucket: "publisher_count b t = length (bucket_of (pb_by_topic b) t)"
  by (simp add: publisher_count_def bucket_of_def split: option.splits)

lemma presence_for_attempt_first:
  "presence_for_attempt b a = (case topics_of b a of [] \<Rightarrow> None | t # _ \<Rightarrow> board_get b t a)"
  by (simp add: presence_for_attempt_def topics_of_def board_get_def bucket_of_def split: option.splits list.splits)

text \<open>
  C17: after any sequence of declarations, capability advertisements, removals, fences, expiries and
  merged peer snapshots the board is exact: its byte counter is the recomputed size of all presence
  and within 64 MiB, no topic has more than its ceiling of publishers, the index by attempt lists
  exactly the topics that hold the attempt, and an attempt is present exactly when some topic holds it.
\<close>

theorem presence_board_exact:
  "let b = fold (board_step hyph parse_id H J K) cs board_new
   in pb_approx_bytes b = topics_bytes J (pb_by_topic b) \<and> pb_approx_bytes b \<le> max_keeper_bytes \<and>
      publisher_count b t \<le> max_publishers_per_topic \<and>
      set (topics_of b a) = {t. board_get b t a \<noteq> None} \<and>
      (presence_for_attempt b a = None \<longleftrightarrow> {t. board_get b t a \<noteq> None} = {})"
proof -
  let ?b = "fold (board_step hyph parse_id H J K) cs board_new"
  have ok: "board_ok J ?b" by (rule board.inv_run) simp
  note d = board_okD [OF ok] and e = topics_okD [OF board_okD(1) [OF ok]]
  have idx: "set (topics_of ?b a) = {t. board_get ?b t a \<noteq> None}" using d(5) by blast
  have "presence_for_attempt ?b a = None \<longleftrightarrow> topics_of ?b a = []"
    using d(5) [of "hd (topics_of ?b a)" a] by (auto simp: presence_for_attempt_first split: list.splits)
  moreover have "topics_of ?b a = [] \<longleftrightarrow> {t. board_get ?b t a \<noteq> None} = {}" unfolding idx [symmetric] by simp
  ultimately show ?thesis
    unfolding Let_def publisher_count_bucket idx using e(3) [of t] e(6,7) by (intro conjI) simp_all
qed

section \<open>Expiry\<close>

lemma expired_ids_iff:
  assumes "topics_ok J b"
  shows "a \<in> set (expired_ids now b) \<longleftrightarrow> (\<exists>t p. board_get b t a = Some p \<and> pr_expires_at p \<le> now)"
proof
  assume "a \<in> set (expired_ids now b)"
  then obtain t m p where m: "(t, m) \<in> set (pb_by_topic b)" "(a, p) \<in> set m" "pr_expires_at p \<le> now"
    by (auto simp: expired_ids_def bt_values_def)
  then have bk: "bucket_of (pb_by_topic b) t = m"
    using bt_in_set_iff [OF topics_okD(1) [OF assms]] by (simp add: bucket_of_def)
  then have "bt_get m a = Some p"
    using m(2) bt_in_set_iff [of m a p] topics_okD(2) [OF assms, of t] by simp
  with bk m(3) show "\<exists>t p. board_get b t a = Some p \<and> pr_expires_at p \<le> now"
    by (auto simp: board_get_def)
next
  assume "\<exists>t p. board_get b t a = Some p \<and> pr_expires_at p \<le> now"
  then obtain t p where p: "board_get b t a = Some p" "pr_expires_at p \<le> now" by blast
  then obtain m where m: "bt_get (pb_by_topic b) t = Some m" "bt_get m a = Some p"
    by (auto simp: board_get_def bucket_of_def split: option.splits)
  have "m \<in> set (bt_values (pb_by_topic b))"
    using bt_get_in_set [OF m(1)] by (force simp: bt_values_def)
  moreover have "a \<in> set (map fst (filter (\<lambda>(i, p). pr_expires_at p \<le> now) m))"
    using bt_get_in_set [OF m(2)] p(2) by force
  ultimately show "a \<in> set (expired_ids now b)" by (auto simp: expired_ids_def)
qed

lemma board_expire_effect:
  assumes "board_ok J b"
  shows "board_get (board_expire J now b) t a =
    (if \<exists>t p. board_get b t a = Some p \<and> pr_expires_at p \<le> now then None else board_get b t a)"
  using remove_attempts_effect [OF assms, of "expired_ids now b"]
    expired_ids_iff [OF board_okD(1) [OF assms], of a now]
  by (simp add: board_expire_def)

section \<open>Rotation\<close>

lemma fill_messages_prefix:
  "\<exists>m. fill_messages J is0 messages = messages @ take m is0 \<and> m \<le> length is0 \<and>
     (is0 \<noteq> [] \<and> \<not> over_limit J (messages @ [hd is0]) \<longrightarrow> 0 < m)"
proof (induction is0 arbitrary: messages)
  case (Cons i is0)
  show ?case
  proof (cases "over_limit J (messages @ [i])")
    case True
    then show ?thesis by (intro exI [of _ 0]) simp
  next
    case False
    from Cons.IH [of "messages @ [i]"] obtain m where
      "fill_messages J is0 (messages @ [i]) = (messages @ [i]) @ take m is0" "m \<le> length is0" by blast
    with False show ?thesis by (intro exI [of _ "Suc m"]) simp
  qed
qed simp

lemma delivery_window:
  assumes "matched \<noteq> []"
    and "\<And>p. p \<in> set matched \<Longrightarrow> \<not> over_limit J [introduction_of hyph w p]"
  obtains m where "0 < m" "m \<le> length matched"
    "dl_messages (fst (delivery_from_matches hyph J matched w off)) =
       map (\<lambda>i. introduction_of hyph w (matched ! ((off + i) mod length matched))) [0 ..< m]"
    "snd (delivery_from_matches hyph J matched w off) = (off + m) mod length matched"
proof -
  let ?n = "length matched"
  let ?is = "map (\<lambda>i. introduction_of hyph w (matched ! ((off mod ?n + i) mod ?n))) [0 ..< min ?n max_introductions_per_post]"
  have n: "0 < ?n" using assms(1) by simp
  have pos: "0 < min ?n max_introductions_per_post" using n by (simp add: max_introductions_per_post_def)
  then have ne: "?is \<noteq> []" by simp
  have "hd ?is = introduction_of hyph w (matched ! (off mod ?n))"
    using pos by (simp add: hd_map upt_conv_Cons)
  then have "\<not> over_limit J ([] @ [hd ?is])" using assms(2) n by simp
  with fill_messages_prefix [of J ?is "[]"] ne obtain m where
    m: "fill_messages J ?is [] = take m ?is" "m \<le> length ?is" "0 < m" by auto
  have le: "m \<le> min ?n max_introductions_per_post" using m(2) by simp
  have tk: "take m ?is = map (\<lambda>i. introduction_of hyph w (matched ! ((off + i) mod ?n))) [0 ..< m]"
    using le by (simp add: take_map take_upt mod_add_left_eq)
  show ?thesis
  proof (rule that [of m])
    show "dl_messages (fst (delivery_from_matches hyph J matched w off)) =
       map (\<lambda>i. introduction_of hyph w (matched ! ((off + i) mod ?n))) [0 ..< m]"
      using n m(1) tk by (simp add: delivery_from_matches_def Let_def)
    show "snd (delivery_from_matches hyph J matched w off) = (off + m) mod ?n"
      using n m(1) tk assms(1) by (simp add: delivery_from_matches_def Let_def mod_add_left_eq)
  qed (use m le in simp_all)
qed

primrec rotation :: "(usize \<Rightarrow> delivery \<times> usize) \<Rightarrow> nat \<Rightarrow> usize \<Rightarrow> usize" where
  "rotation f 0 off = off"
| "rotation f (Suc k) off = rotation f k (snd (f off))"

lemma rotation_reaches:
  assumes "matched \<noteq> []"
    and "\<And>p. p \<in> set matched \<Longrightarrow> \<not> over_limit J [introduction_of hyph w p]"
  shows "\<exists>k \<le> d. introduction_of hyph w (matched ! ((off + d) mod length matched)) \<in>
    set (dl_messages (fst (delivery_from_matches hyph J matched w
      (rotation (delivery_from_matches hyph J matched w) k off))))"
proof (induction d arbitrary: off rule: less_induct)
  case (less d)
  let ?n = "length matched" and ?f = "delivery_from_matches hyph J matched w"
  from delivery_window [OF assms, of off] obtain m where
    m: "0 < m" "dl_messages (fst (?f off)) = map (\<lambda>i. introduction_of hyph w (matched ! ((off + i) mod ?n))) [0 ..< m]"
      "snd (?f off) = (off + m) mod ?n" by metis
  show ?case
  proof (cases "d < m")
    case True
    then show ?thesis by (intro exI [of _ 0]) (simp add: m(2))
  next
    case False
    then obtain k where k: "k \<le> d - m" "introduction_of hyph w (matched ! (((off + m) mod ?n + (d - m)) mod ?n)) \<in>
        set (dl_messages (fst (?f (rotation ?f k ((off + m) mod ?n)))))"
      using less.IH [of "d - m" "(off + m) mod ?n"] m(1) by auto
    have "((off + m) mod ?n + (d - m)) mod ?n = (off + m + (d - m)) mod ?n" by (rule mod_add_left_eq)
    then have "((off + m) mod ?n + (d - m)) mod ?n = (off + d) mod ?n" using False by simp
    with k False m(1,3) show ?thesis by (intro exI [of _ "Suc k"]) simp
  qed
qed

text \<open>
  C23: rotation starves nobody: if every single introduction fits a delivery, then starting from any
  offset each matching peer on the authorised topics is introduced within as many deliveries as
  there are matching peers, as long as the board does not change.
\<close>

theorem rotation_reaches_every_peer:
  assumes "p \<in> set (listen_matches b listen attempt authorized)"
    and "\<And>q. q \<in> set (listen_matches b listen attempt authorized) \<Longrightarrow> \<not> over_limit J [introduction_of hyph w q]"
  shows "\<exists>k < length (listen_matches b listen attempt authorized).
    introduction_of hyph w p \<in> set (dl_messages (fst (deliver hyph J b listen attempt w
      (rotation (\<lambda>off. deliver hyph J b listen attempt w off authorized) k off) authorized)))"
proof -
  let ?M = "sort_key delivery_key (listen_matches b listen attempt authorized)" and ?n = "length (listen_matches b listen attempt authorized)"
  have f: "(\<lambda>off. deliver hyph J b listen attempt w off authorized) = delivery_from_matches hyph J ?M w"
    by (simp add: deliver_def fun_eq_iff)
  have ne: "?M \<noteq> []" and n: "0 < ?n" using assms(1) by (auto simp: set_empty [symmetric] simp del: set_empty)
  obtain j where j: "j < ?n" "?M ! j = p" using assms(1) in_set_conv_nth [of p ?M] by auto
  let ?d = "(j + (?n - off mod ?n)) mod ?n"
  have "(off + ?d) mod ?n = (off mod ?n + (j + (?n - off mod ?n))) mod ?n"
    by (simp add: mod_simps)
  also have "off mod ?n + (j + (?n - off mod ?n)) = j + ?n" using n mod_less_divisor [of ?n off] by linarith
  finally have "(off + ?d) mod ?n = j" using j(1) by simp
  moreover obtain k where "k \<le> ?d" "introduction_of hyph w (?M ! ((off + ?d) mod length ?M)) \<in>
      set (dl_messages (fst (delivery_from_matches hyph J ?M w (rotation (delivery_from_matches hyph J ?M w) k off))))"
    using rotation_reaches [OF ne, of J hyph w ?d off] assms(2) by auto
  moreover have "?d < ?n" using n by simp
  ultimately show ?thesis
    unfolding f using j(2) by (intro exI [of _ k]) (simp add: deliver_def)
qed

definition demo_stamp :: "attempt_id \<Rightarrow> placement_stamp" where
  "demo_stamp a = \<lparr>ps_cluster_id = [], ps_namespace = ''default'', ps_app_id = ''app'', ps_workload_id = [1],
     ps_capsule_id = [], ps_execution_id = [], ps_unit_id = a, ps_role = None, ps_rank = None,
     ps_attempt_id = a, ps_node_id = [9], ps_agent_incarnation = 1, ps_placement_fence_digest = [],
     ps_health_eligible = True, ps_receiver_reachable_ip = None\<rparr>"

definition demo_presence :: "attempt_id \<Rightarrow> presence" where
  "demo_presence a = \<lparr>pr_topic = ''banana'', pr_stamp = demo_stamp a, pr_data = None, pr_secret_data = None,
     pr_expires_at = 1000, pr_content_digest = [], pr_directory_visible = False\<rparr>"

text \<open>A delivery encoder for which one introduction fits and two do not.\<close>

definition tight_lib :: json_lib where
  "tight_lib = demo_lib\<lparr>jl_delivery_to_vec := (\<lambda>d. if length (dl_messages d) \<le> 1 then Inr [] else Inl [])\<rparr>"

definition demo_board :: presence_board where
  "demo_board = insert_presence tight_lib (demo_presence [2]) (insert_presence tight_lib (demo_presence [1]) board_new)"

lemma demo_board_matches:
  "listen_matches demo_board [''banana''] [3] (\<lambda>t. True) = [demo_presence [1], demo_presence [2]]"
  by (simp add: demo_board_def insert_presence_def board_new_def demo_presence_def demo_stamp_def listen_matches_def
      bt_get_def bt_has_def bt_values_def presence_size_def encoded_data_def max_publishers_per_topic_def
      max_keeper_bytes_def sat_add64_def sat_sub_def u64_max_def Let_def)

theorem rotation_reaches_every_peer_witness:
  "\<exists>k < 2. introduction_of hex_bytes [1] (demo_presence [2]) \<in>
    set (dl_messages (fst (deliver hex_bytes tight_lib demo_board [''banana''] [3] [1]
      (rotation (\<lambda>off. deliver hex_bytes tight_lib demo_board [''banana''] [3] [1] off (\<lambda>t. True)) k 0) (\<lambda>t. True))))"
proof -
  have "\<not> over_limit tight_lib [introduction_of hex_bytes [1] q]" for q
    by (simp add: over_limit_def tight_lib_def max_delivery_bytes_def)
  with rotation_reaches_every_peer [of "demo_presence [2]" demo_board "[''banana'']" "[3]" "\<lambda>t. True" tight_lib hex_bytes "[1]" 0]
  show ?thesis by (simp add: demo_board_matches numeral_2_eq_2)
qed

section \<open>Fitting a combined snapshot\<close>

definition snapshot_fits :: "keeper_lib \<Rightarrow> keeper_snapshot \<Rightarrow> bool" where
  "snapshot_fits K s = (case kl_to_string K s of Inl _ \<Rightarrow> False | Inr e \<Rightarrow> length e \<le> max_cluster_snapshot_bytes)"

text \<open>The snapshot with its first \<open>k\<close> records, marked incomplete when some are missing.\<close>

definition cut_snapshot :: "nat \<Rightarrow> keeper_snapshot \<Rightarrow> keeper_snapshot" where
  "cut_snapshot k s =
     (if k < length (ks_records s) then s\<lparr>ks_records := take k (ks_records s), ks_complete := False\<rparr> else s)"

lemma cut_butlast:
  "k < length (ks_records s) \<Longrightarrow> cut_snapshot k (s\<lparr>ks_records := butlast (ks_records s), ks_complete := False\<rparr>) = cut_snapshot k s"
proof (cases "k < length (ks_records s) - 1")
  case False
  moreover assume lt: "k < length (ks_records s)"
  ultimately have "k = length (ks_records s) - 1" by simp
  with lt show ?thesis by (simp add: cut_snapshot_def butlast_conv_take)
qed (simp add: cut_snapshot_def take_butlast)

lemma fit_snapshot_longest:
  assumes "\<And>s. \<exists>e. kl_to_string K s = Inr e"
  shows "(\<exists>k \<le> length (ks_records s). snapshot_fits K (cut_snapshot k s) \<and>
      fit_snapshot K s = kl_to_string K (cut_snapshot k s) \<and>
      (\<forall>j. k < j \<and> j \<le> length (ks_records s) \<longrightarrow> \<not> snapshot_fits K (cut_snapshot j s))) \<or>
    (\<forall>j \<le> length (ks_records s). \<not> snapshot_fits K (cut_snapshot j s)) \<and>
      fit_snapshot K s = Inl ''Hiccup cluster snapshot envelope exceeds ceiling''"
proof (induction "length (ks_records s)" arbitrary: s rule: less_induct)
  case less
  let ?n = "length (ks_records s)"
  obtain e where e: "kl_to_string K s = Inr e" using assms by blast
  have all: "cut_snapshot ?n s = s" by (simp add: cut_snapshot_def)
  show ?case
  proof (cases "length e \<le> max_cluster_snapshot_bytes")
    case True
    then have "snapshot_fits K s" "fit_snapshot K s = kl_to_string K s"
      by (simp_all add: snapshot_fits_def e fit_snapshot.simps [of K s])
    then show ?thesis by (intro disjI1 exI [of _ ?n]) (auto simp: all)
  next
    case False
    then have no: "\<not> snapshot_fits K (cut_snapshot ?n s)" by (simp add: all snapshot_fits_def e)
    show ?thesis
    proof (cases "ks_records s = []")
      case True
      with False no show ?thesis by (intro disjI2) (simp add: fit_snapshot.simps [of K s] e)
    next
      case ne: False
      let ?s = "s\<lparr>ks_records := butlast (ks_records s), ks_complete := False\<rparr>"
      have step: "fit_snapshot K s = fit_snapshot K ?s" using False ne by (simp add: fit_snapshot.simps [of K s] e)
      have cut: "cut_snapshot k ?s = cut_snapshot k s" if "k < ?n" for k using that by (rule cut_butlast)
      have len: "length (ks_records ?s) = ?n - 1" "0 < ?n" using ne by simp_all
      have lt: "j \<le> ?n \<longleftrightarrow> j \<le> ?n - 1 \<or> j = ?n" for j using len(2) by linarith
      from less [of ?s] len have
        "(\<exists>k \<le> ?n - 1. snapshot_fits K (cut_snapshot k ?s) \<and> fit_snapshot K ?s = kl_to_string K (cut_snapshot k ?s) \<and>
            (\<forall>j. k < j \<and> j \<le> ?n - 1 \<longrightarrow> \<not> snapshot_fits K (cut_snapshot j ?s))) \<or>
         (\<forall>j \<le> ?n - 1. \<not> snapshot_fits K (cut_snapshot j ?s)) \<and>
            fit_snapshot K ?s = Inl ''Hiccup cluster snapshot envelope exceeds ceiling''" by simp
      then show ?thesis
      proof (elim disjE exE conjE)
        fix k
        assume k: "k \<le> ?n - 1" "snapshot_fits K (cut_snapshot k ?s)" "fit_snapshot K ?s = kl_to_string K (cut_snapshot k ?s)"
          "\<forall>j. k < j \<and> j \<le> ?n - 1 \<longrightarrow> \<not> snapshot_fits K (cut_snapshot j ?s)"
        have "k < ?n" using k(1) len(2) by linarith
        moreover have "\<not> snapshot_fits K (cut_snapshot j s)" if "k < j" "j \<le> ?n" for j
          using that k(4) no cut [of j] len(2) by (cases "j = ?n") auto
        ultimately show ?thesis
          using k(2,3) cut [of k] step by (intro disjI1 exI [of _ k]) auto
      next
        assume n: "\<forall>j \<le> ?n - 1. \<not> snapshot_fits K (cut_snapshot j ?s)"
          "fit_snapshot K ?s = Inl ''Hiccup cluster snapshot envelope exceeds ceiling''"
        have "\<not> snapshot_fits K (cut_snapshot j s)" if "j \<le> ?n" for j
        proof (cases "j = ?n")
          case False
          with that have "j \<le> ?n - 1" "j < ?n" by linarith+
          with n(1) cut [of j] show ?thesis by metis
        qed (use no in simp)
        then show ?thesis using n(2) step by (intro disjI2) simp
      qed
    qed
  qed
qed

text \<open>
  C37: combining snapshots always terminates with the longest prefix of the collected records whose
  encoding is within the ceiling, marked incomplete when records were dropped, or with an error when
  not even the empty envelope fits. Encoding a snapshot is assumed to succeed.
\<close>

theorem combine_keeps_longest_prefix:
  assumes "\<And>s. \<exists>e. kl_to_string K s = Inr e"
    and "combine_records hyph K node snapshots [] True = Inr (records, complete)"
    and "s = \<lparr>ks_schema = snapshot_schema, ks_node_id = hyph node, ks_complete = complete, ks_records = records\<rparr>"
  shows "(\<exists>k \<le> length records. snapshot_fits K (cut_snapshot k s) \<and>
      combine_cluster_snapshots hyph K node snapshots = kl_to_string K (cut_snapshot k s) \<and>
      (\<forall>j. k < j \<and> j \<le> length records \<longrightarrow> \<not> snapshot_fits K (cut_snapshot j s))) \<or>
    (\<forall>j \<le> length records. \<not> snapshot_fits K (cut_snapshot j s)) \<and>
      combine_cluster_snapshots hyph K node snapshots = Inl ''Hiccup cluster snapshot envelope exceeds ceiling''"
  using fit_snapshot_longest [OF assms(1), of s] assms(2,3)
  by (simp add: combine_cluster_snapshots_def)

text \<open>A keeper encoding with 100000 characters per record, and a stored snapshot of three records.\<close>

definition wide_snapshot :: keeper_snapshot where
  "wide_snapshot = \<lparr>ks_schema = snapshot_schema, ks_node_id = hex_bytes [1], ks_complete = True,
     ks_records = replicate 3 (keeper_record hex_bytes (demo_presence [1]))\<rparr>"

definition wide_keeper :: keeper_lib where
  "wide_keeper = \<lparr>kl_record_to_vec = (\<lambda>r. Inr []),
     kl_to_string = (\<lambda>s. Inr (replicate (100000 * length (ks_records s)) (CHR ''r''))),
     kl_from_str = (\<lambda>t. Inr wide_snapshot)\<rparr>"

theorem combine_keeps_longest_prefix_witness:
  "combine_cluster_snapshots hex_bytes wide_keeper [1] [''x''] = Inr (replicate 100000 (CHR ''r''))"
proof -
  have lib: "\<exists>e. kl_to_string wide_keeper s = Inr e" for s by (simp add: wide_keeper_def)
  have recs: "combine_records hex_bytes wide_keeper [1] [''x''] [] True = Inr (ks_records wide_snapshot, True)"
    by (simp add: wide_keeper_def wide_snapshot_def max_cluster_snapshot_bytes_def)
  have same: "\<lparr>ks_schema = snapshot_schema, ks_node_id = hex_bytes [1], ks_complete = True,
      ks_records = ks_records wide_snapshot\<rparr> = wide_snapshot" by (simp add: wide_snapshot_def)
  have fits: "snapshot_fits wide_keeper (cut_snapshot k wide_snapshot) \<longleftrightarrow> k \<le> 1" for k
    by (simp add: snapshot_fits_def wide_keeper_def cut_snapshot_def wide_snapshot_def max_cluster_snapshot_bytes_def) arith
  have one: "kl_to_string wide_keeper (cut_snapshot 1 wide_snapshot) = Inr (replicate 100000 (CHR ''r''))"
    by (simp add: wide_keeper_def cut_snapshot_def wide_snapshot_def)
  have n: "length (ks_records wide_snapshot) = 3" by (simp add: wide_snapshot_def)
  from combine_keeps_longest_prefix [OF lib recs refl, unfolded same fits n]
  obtain k where "k \<le> 1" "combine_cluster_snapshots hex_bytes wide_keeper [1] [''x''] =
      kl_to_string wide_keeper (cut_snapshot k wide_snapshot)" "\<forall>j. k < j \<and> j \<le> 3 \<longrightarrow> \<not> j \<le> 1"
    by fastforce
  then show ?thesis using one by (cases "k = 1") auto
qed

end
