(* ===== verification/Hiccup_Exchange.thy ===== *)
theory Hiccup_Exchange
  imports Hiccup_Invariant
begin

text \<open>
  The health exchange of Hiccup (\<open>gump-hiccup/src/exchange.rs\<close>) and the agent's plane of sessions,
  grants and presence (\<open>gump-agent/src/hiccup_bridge.rs\<close>). A random token is drawn by the caller and
  passed in, where the code asks the operating system.
\<close>

section \<open>Sessions\<close>

record attempt_session =
  se_token :: bytes
  se_active :: bool
  se_rotation_offset :: usize
  se_listen :: "canonical_topic list"
  se_workload_id :: workload_id
  se_directory_mode :: bool

definition session_with_token :: "workload_id \<Rightarrow> bytes \<Rightarrow> attempt_session" where
  "session_with_token w token =
     \<lparr>se_token = token, se_active = False, se_rotation_offset = 0, se_listen = [], se_workload_id = w,
      se_directory_mode = False\<rparr>"

datatype outbound_health =
    OutGet bool
  | OutPost string bytes string

definition plan_outbound_for ::
  "hyphenated \<Rightarrow> json_lib \<Rightarrow> attempt_session \<Rightarrow> attempt_id \<Rightarrow> presence_board \<Rightarrow> (canonical_topic \<Rightarrow> bool) \<Rightarrow>
    outbound_health" where
  "plan_outbound_for hyph J session listener b authorize_topic =
     (if \<not> se_active session then OutGet True
      else
        (let (delivery, _) =
               (if se_directory_mode session
                then deliver_directory hyph J b listener (se_workload_id session) (se_rotation_offset session)
                else deliver hyph J b (se_listen session) listener (se_workload_id session)
                       (se_rotation_offset session) authorize_topic);
             body = (case encode_delivery J delivery of
                       Inr bs \<Rightarrow> bs
                     | Inl _ \<Rightarrow>
                         (case jl_delivery_to_vec J \<lparr>dl_hiccup = 1, dl_messages = [], dl_more = False\<rparr> of
                            Inr bs \<Rightarrow> bs | Inl _ \<Rightarrow> []))
         in OutPost (authorization_header_value (se_token session)) body media_type))"

record inbound_outcome =
  io_discovery_active :: bool
  io_degraded :: bool
  io_delivery :: "delivery option"

record health_inbound =
  hi_stamp :: placement_stamp
  hi_content_type :: "string option"
  hi_body :: bytes
  hi_health_interval_ms :: u64
  hi_now :: u64

definition inactive_outcome :: "bool \<Rightarrow> inbound_outcome" where
  "inactive_outcome degraded = \<lparr>io_discovery_active = False, io_degraded = degraded, io_delivery = None\<rparr>"

definition handle_successful_health ::
  "hyphenated \<Rightarrow> digest_fun \<Rightarrow> json_lib \<Rightarrow> health_inbound \<Rightarrow> (resolved_topics \<Rightarrow> bool) \<Rightarrow>
    (canonical_topic \<Rightarrow> bool) \<Rightarrow> attempt_session \<Rightarrow> presence_board \<Rightarrow>
    inbound_outcome \<times> attempt_session \<times> presence_board" where
  "handle_successful_health hyph H J inb authorize_publish authorize_listen session b0 =
     (let stamp = hi_stamp inb;
          attempt = ps_attempt_id stamp;
          b = board_expire J (hi_now inb) b0;
          was_active = se_active session;
          expires = sat_add64 (hi_now inb) (presence_ttl_ms (hi_health_interval_ms inb));
          eligible = stamp\<lparr>ps_health_eligible := True\<rparr>
      in case detect_health_response J (hi_content_type inb) (hi_body inb) of
           Inactive \<Rightarrow>
             if se_active session
             then (inactive_outcome False,
                   session\<lparr>se_active := False, se_listen := [], se_directory_mode := False\<rparr>,
                   remove_attempt J attempt b)
             else (inactive_outcome False, session, b)
         | Malformed _ \<Rightarrow>
             (inactive_outcome True,
              session\<lparr>se_active := False, se_listen := [], se_directory_mode := False\<rparr>,
              remove_attempt J attempt b)
         | Active decl \<Rightarrow>
             (case dc_capabilities decl of
                Some capabilities \<Rightarrow>
                  (case upsert_capabilities hyph H J eligible capabilities expires b of
                     (Inl _, b1) \<Rightarrow>
                       (inactive_outcome True,
                        session\<lparr>se_active := False, se_directory_mode := False\<rparr>, remove_attempt J attempt b1)
                   | (Inr _, b1) \<Rightarrow>
                       (let (delivery, next) = deliver_directory hyph J b1 attempt (ps_workload_id stamp)
                              (se_rotation_offset session)
                        in (\<lparr>io_discovery_active = True, io_degraded = False, io_delivery = Some delivery\<rparr>,
                            session\<lparr>se_active := True, se_directory_mode := True, se_listen := [],
                              se_workload_id := ps_workload_id stamp,
                              se_rotation_offset := (if was_active then next else se_rotation_offset session)\<rparr>,
                            b1)))
              | None \<Rightarrow>
                  (case resolve_topics hyph (dc_topic decl) (dc_listen decl) (ps_workload_id stamp) of
                     Inl _ \<Rightarrow>
                       (inactive_outcome True,
                        session\<lparr>se_active := False, se_directory_mode := False\<rparr>, remove_attempt J attempt b)
                   | Inr resolved \<Rightarrow>
                       if \<not> authorize_publish resolved
                       then (inactive_outcome True,
                             session\<lparr>se_active := False, se_directory_mode := False\<rparr>, remove_attempt J attempt b)
                       else
                         (let b1 = board_upsert H J resolved eligible decl expires b;
                              (delivery, next) = deliver hyph J b1 (rt_listen resolved) attempt
                                (ps_workload_id stamp) (se_rotation_offset session) authorize_listen
                          in (\<lparr>io_discovery_active = True, io_degraded = False, io_delivery = Some delivery\<rparr>,
                              session\<lparr>se_active := True, se_directory_mode := False,
                                se_listen := rt_listen resolved, se_workload_id := ps_workload_id stamp,
                                se_rotation_offset := (if was_active then next else se_rotation_offset session)\<rparr>,
                              b1)))))"

definition authorize_delivery_token :: "attempt_session \<Rightarrow> string option \<Rightarrow> bool" where
  "authorize_delivery_token session authorization =
     (case authorization of Some h \<Rightarrow> authorize_header (se_token session) h | None \<Rightarrow> False)"

section \<open>The agent's plane\<close>

record hiccup_placement =
  hp_cluster_id :: bytes
  hp_namespace :: string
  hp_app_id :: string
  hp_workload_id :: workload_id
  hp_capsule_id :: bytes
  hp_execution_id :: bytes
  hp_node_id :: bytes
  hp_agent_incarnation :: u64
  hp_private_ip :: "string option"
  hp_named_publish :: "string set"
  hp_named_listen :: "string set"
  hp_bind_liveness :: bool

text \<open>\<open>u64::to_le_bytes\<close> in the first eight of 32 bytes.\<close>

definition fence_digest :: "u64 \<Rightarrow> bytes" where
  "fence_digest fence = map (\<lambda>i. of_nat ((fence div 256 ^ i) mod 256)) [0 ..< 8] @ replicate 24 0"

definition placement_stamp_for :: "hiccup_placement \<Rightarrow> bytes \<Rightarrow> attempt_id \<Rightarrow> u64 \<Rightarrow> placement_stamp" where
  "placement_stamp_for pl unit attempt fence =
     \<lparr>ps_cluster_id = hp_cluster_id pl, ps_namespace = hp_namespace pl, ps_app_id = hp_app_id pl,
      ps_workload_id = hp_workload_id pl, ps_capsule_id = hp_capsule_id pl,
      ps_execution_id = hp_execution_id pl, ps_unit_id = unit, ps_role = None, ps_rank = None,
      ps_attempt_id = attempt, ps_node_id = hp_node_id pl, ps_agent_incarnation = hp_agent_incarnation pl,
      ps_placement_fence_digest = fence_digest fence, ps_health_eligible = True,
      ps_receiver_reachable_ip = hp_private_ip pl\<rparr>"

record hiccup_grant =
  hg_named_publish :: "string set"
  hg_named_listen :: "string set"

definition grant_default :: hiccup_grant where
  "grant_default = \<lparr>hg_named_publish = {}, hg_named_listen = {}\<rparr>"

record hiccup_plane =
  pl_board :: presence_board
  pl_sessions :: "(attempt_id, attempt_session) btree"
  pl_grants :: "(attempt_id, hiccup_grant) btree"

definition plane_new :: hiccup_plane where
  "plane_new = \<lparr>pl_board = board_new, pl_sessions = [], pl_grants = []\<rparr>"

definition ensure_session :: "bytes \<Rightarrow> attempt_id \<Rightarrow> workload_id \<Rightarrow> hiccup_plane \<Rightarrow> hiccup_plane" where
  "ensure_session random attempt w pl =
     (if bt_has (pl_sessions pl) attempt then pl
      else pl\<lparr>pl_sessions := bt_insert attempt (session_with_token w random) (pl_sessions pl)\<rparr>)"

definition install_session :: "attempt_id \<Rightarrow> workload_id \<Rightarrow> bytes \<Rightarrow> hiccup_plane \<Rightarrow> hiccup_plane" where
  "install_session attempt w token pl =
     pl\<lparr>pl_sessions := bt_insert attempt (session_with_token w token) (pl_sessions pl)\<rparr>"

definition plane_remove_attempt :: "json_lib \<Rightarrow> attempt_id \<Rightarrow> hiccup_plane \<Rightarrow> hiccup_plane" where
  "plane_remove_attempt J attempt pl =
     pl\<lparr>pl_sessions := bt_remove attempt (pl_sessions pl), pl_grants := bt_remove attempt (pl_grants pl),
        pl_board := remove_attempt J attempt (pl_board pl)\<rparr>"

definition set_grant :: "attempt_id \<Rightarrow> hiccup_grant \<Rightarrow> hiccup_plane \<Rightarrow> hiccup_plane" where
  "set_grant attempt grant pl = pl\<lparr>pl_grants := bt_insert attempt grant (pl_grants pl)\<rparr>"

definition plane_plan :: "hyphenated \<Rightarrow> json_lib \<Rightarrow> hiccup_plane \<Rightarrow> attempt_id \<Rightarrow> outbound_health option" where
  "plane_plan hyph J pl attempt =
     (case bt_get (pl_sessions pl) attempt of
        None \<Rightarrow> None
      | Some session \<Rightarrow>
          Some (plan_outbound_for hyph J session attempt (pl_board pl)
            (\<lambda>topic. topic = self_for hyph (se_workload_id session) \<or>
               (case bt_get (pl_grants pl) attempt of None \<Rightarrow> False | Some g \<Rightarrow> topic \<in> hg_named_listen g))))"

definition plane_merge ::
  "hyphenated \<Rightarrow> id_parser \<Rightarrow> digest_fun \<Rightarrow> json_lib \<Rightarrow> keeper_lib \<Rightarrow> string \<Rightarrow> u64 \<Rightarrow> hiccup_plane \<Rightarrow>
    (string + usize) \<times> hiccup_plane" where
  "plane_merge hyph parse_id H J K snapshot now pl =
     (let (res, b) = merge_cluster_snapshot hyph parse_id H J K snapshot now (pl_board pl)
      in (res, pl\<lparr>pl_board := b\<rparr>))"

record health_ok_ctx =
  hc_placement :: hiccup_placement
  hc_unit_id :: bytes
  hc_attempt_id :: attempt_id
  hc_fence :: u64
  hc_content_type :: "string option"
  hc_body :: bytes
  hc_health_interval_ms :: u64
  hc_now_ms :: u64

definition publish_allowed :: "hyphenated \<Rightarrow> workload_id \<Rightarrow> hiccup_grant \<Rightarrow> resolved_topics \<Rightarrow> bool" where
  "publish_allowed hyph w grant topics \<longleftrightarrow>
     (case rt_publish topics of
        None \<Rightarrow> True
      | Some topic \<Rightarrow> topic = self_for hyph w \<or> topic \<in> hg_named_publish grant) \<and>
     list_all (\<lambda>topic. topic = self_for hyph w \<or> topic \<in> hg_named_listen grant) (rt_listen topics)"

text \<open>The session looked up below was inserted just before: the code's \<open>expect\<close> cannot fail.\<close>

definition on_health_ok ::
  "hyphenated \<Rightarrow> digest_fun \<Rightarrow> json_lib \<Rightarrow> bytes \<Rightarrow> health_ok_ctx \<Rightarrow> hiccup_plane \<Rightarrow> bool \<times> hiccup_plane" where
  "on_health_ok hyph H J random ctx pl0 =
     (let w = hp_workload_id (hc_placement ctx);
          attempt = hc_attempt_id ctx;
          pl = ensure_session random attempt w pl0;
          grant = (case bt_get (pl_grants pl) attempt of None \<Rightarrow> grant_default | Some g \<Rightarrow> g);
          inb = \<lparr>hi_stamp = placement_stamp_for (hc_placement ctx) (hc_unit_id ctx) attempt (hc_fence ctx),
                 hi_content_type = hc_content_type ctx, hi_body = hc_body ctx,
                 hi_health_interval_ms = hc_health_interval_ms ctx, hi_now = hc_now_ms ctx\<rparr>
      in case bt_get (pl_sessions pl) attempt of
           None \<Rightarrow> (False, pl)
         | Some session \<Rightarrow>
             (let (out, session', b) =
                    handle_successful_health hyph H J inb (publish_allowed hyph w grant)
                      (\<lambda>topic. topic = self_for hyph w \<or> topic \<in> hg_named_listen grant) session (pl_board pl)
              in (io_discovery_active out,
                  pl\<lparr>pl_sessions := bt_insert attempt session' (pl_sessions pl), pl_board := b\<rparr>)))"

section \<open>Effect of a health response\<close>

lemma resolve_topics_publish:
  assumes "resolve_topics hyph topic listen w = Inr r" and "rt_publish r = Some t"
  shows "t = self_for hyph w \<or> (\<exists>raw. canonicalize_topic hyph raw w = Inr t)"
  using assms by (auto simp: resolve_topics_def split: option.splits sum.splits if_splits)

text \<open>What a health response of one attempt may leave on the board for that attempt.\<close>

definition declared_by ::
  "hyphenated \<Rightarrow> health_inbound \<Rightarrow> (resolved_topics \<Rightarrow> bool) \<Rightarrow> presence \<Rightarrow> bool" where
  "declared_by hyph inb authorize p \<longleftrightarrow>
     pr_stamp p = (hi_stamp inb)\<lparr>ps_health_eligible := True\<rparr> \<and>
     pr_expires_at p = sat_add64 (hi_now inb) (presence_ttl_ms (hi_health_interval_ms inb)) \<and>
     (if pr_directory_visible p
      then \<exists>name. name \<noteq> ''@self'' \<and> canonicalize_topic hyph name (ps_workload_id (hi_stamp inb)) = Inr (pr_topic p)
      else \<exists>topic listen r. resolve_topics hyph topic listen (ps_workload_id (hi_stamp inb)) = Inr r \<and>
             rt_publish r = Some (pr_topic p) \<and> authorize r)"

lemma board_expire_ok:
  assumes "board_ok J b"
  shows "board_ok J (board_expire J now b)" and "entries (board_expire J now b) \<subseteq> entries b"
  using remove_attempts_ok [OF assms] by (simp_all add: board_expire_def)

lemma detect_legacy: "detect_health_response J ct body = Inactive \<longleftrightarrow> is_legacy_health ct"
  by (auto simp: detect_health_response_def is_legacy_health_def split: option.splits sum.splits)

lemma handle_effect:
  assumes "board_ok J b" and "handle_successful_health hyph H J inb authorize listens session b = (out, session', b')"
  shows "board_ok J b' \<and> (\<forall>p \<in> entries b'.
      p \<in> entries b \<and> ps_attempt_id (pr_stamp p) \<noteq> ps_attempt_id (hi_stamp inb) \<or>
      p \<in> entries b \<and> is_legacy_health (hi_content_type inb) \<and> \<not> se_active session \<or>
      io_discovery_active out \<and> declared_by hyph inb authorize p)"
proof -
  let ?b = "board_expire J (hi_now inb) b" and ?a = "ps_attempt_id (hi_stamp inb)"
  let ?s = "(hi_stamp inb)\<lparr>ps_health_eligible := True\<rparr>"
  let ?x = "sat_add64 (hi_now inb) (presence_ttl_ms (hi_health_interval_ms inb))"
  note e = board_expire_ok [OF assms(1), of "hi_now inb"]
  have removed: "board_ok J (remove_attempt J ?a ?b) \<and> (\<forall>p \<in> entries (remove_attempt J ?a ?b).
      p \<in> entries b \<and> ps_attempt_id (pr_stamp p) \<noteq> ?a)"
    using remove_attempt_ok(1) [OF e(1)] entries_remove_attempt [OF e(1)] e(2) by blast
  show ?thesis
  proof (cases "detect_health_response J (hi_content_type inb) (hi_body inb)")
    case Inactive
    then have "is_legacy_health (hi_content_type inb)" by (simp add: detect_legacy)
    moreover have "b' = (if se_active session then remove_attempt J ?a ?b else ?b)"
      using assms(2) Inactive by (auto simp: handle_successful_health_def Let_def split: if_splits)
    ultimately show ?thesis using removed e by auto
  next
    case (Malformed er)
    then have "b' = remove_attempt J ?a ?b" using assms(2) by (simp add: handle_successful_health_def Let_def)
    with removed show ?thesis by blast
  next
    case (Active decl)
    show ?thesis
    proof (cases "dc_capabilities decl")
      case (Some caps)
      obtain res b1 where u: "upsert_capabilities hyph H J ?s caps ?x ?b = (res, b1)" by fastforce
      note c = upsert_capabilities_ok [OF e(1) u]
      show ?thesis
      proof (cases res)
        case (Inl er)
        then have "b' = remove_attempt J ?a b1"
          using assms(2) Active Some u by (simp add: handle_successful_health_def Let_def)
        moreover have "p \<in> entries b1 \<and> ps_attempt_id (pr_stamp p) \<noteq> ?a \<longrightarrow> p \<in> entries b" for p
          using c e(2) by fastforce
        ultimately show ?thesis
          using remove_attempt_ok(1) [of J b1] entries_remove_attempt [of J b1] c by blast
      next
        case (Inr _)
        then have "b' = b1" "io_discovery_active out"
          using assms(2) Active Some u by (auto simp: handle_successful_health_def Let_def split: prod.splits)
        then show ?thesis using c e(2) by (auto simp: declared_by_def)
      qed
    next
      case None
      show ?thesis
      proof (cases "resolve_topics hyph (dc_topic decl) (dc_listen decl) (ps_workload_id (hi_stamp inb))")
        case (Inl er)
        then have "b' = remove_attempt J ?a ?b"
          using assms(2) Active None by (simp add: handle_successful_health_def Let_def)
        with removed show ?thesis by blast
      next
        case (Inr r)
        show ?thesis
        proof (cases "authorize r")
          case False
          then have "b' = remove_attempt J ?a ?b"
            using assms(2) Active None Inr by (simp add: handle_successful_health_def Let_def)
          with removed show ?thesis by blast
        next
          case True
          have b': "b' = board_upsert H J r ?s decl ?x ?b" "io_discovery_active out"
            using assms(2) Active None Inr True by (auto simp: handle_successful_health_def Let_def split: prod.splits)
          show ?thesis
          proof (intro conjI ballI)
            show "board_ok J b'" unfolding b' by (rule board_upsert_ok(1) [OF e(1)])
            fix p assume "p \<in> entries b'"
            from board_upsert_ok(2) [OF e(1) this [unfolded b'(1)]] e(2) Inr True b'(2)
            show "p \<in> entries b \<and> ps_attempt_id (pr_stamp p) \<noteq> ?a \<or>
                p \<in> entries b \<and> is_legacy_health (hi_content_type inb) \<and> \<not> se_active session \<or>
                io_discovery_active out \<and> declared_by hyph inb authorize p"
              by (auto simp: declared_by_def)
          qed
        qed
      qed
    qed
  qed
qed

section \<open>The plane as a machine\<close>

definition self_owned :: "hyphenated \<Rightarrow> presence \<Rightarrow> bool" where
  "self_owned hyph p \<longleftrightarrow> (\<forall>w. pr_topic p = self_for hyph w \<longrightarrow> ps_workload_id (pr_stamp p) = w)"

definition plane_ok :: "hyphenated \<Rightarrow> json_lib \<Rightarrow> hiccup_plane \<Rightarrow> bool" where
  "plane_ok hyph J pl \<longleftrightarrow> board_ok J (pl_board pl) \<and> (inj hyph \<longrightarrow> (\<forall>p \<in> entries (pl_board pl). self_owned hyph p))"

lemma self_for_inj: "inj hyph \<Longrightarrow> self_for hyph a = self_for hyph b \<longleftrightarrow> a = b"
  by (simp add: self_for_def inj_eq)

lemma declared_by_self_owned:
  assumes "inj hyph" and "declared_by hyph inb authorize p"
  shows "self_owned hyph p"
proof -
  have w: "ps_workload_id (pr_stamp p) = ps_workload_id (hi_stamp inb)" using assms(2) by (simp add: declared_by_def)
  show ?thesis
    unfolding self_owned_def
  proof (intro allI impI)
    fix w'
    assume t: "pr_topic p = self_for hyph w'"
    show "ps_workload_id (pr_stamp p) = w'"
    proof (cases "pr_directory_visible p")
      case True
      with assms(2) t show ?thesis by (auto simp: declared_by_def canonicalize_self_iff)
    next
      case False
      with assms(2) t obtain topic listen r where
        "resolve_topics hyph topic listen (ps_workload_id (hi_stamp inb)) = Inr r" "rt_publish r = Some (self_for hyph w')"
        by (auto simp: declared_by_def)
      from resolve_topics_publish [OF this] show ?thesis
        using assms(1) by (auto simp: w canonicalize_self_iff self_for_inj)
    qed
  qed
qed

lemma from_keeper_self_owned:
  assumes "inj hyph" and "from_keeper hyph raw (ps_workload_id (pr_stamp p)) = Inr (pr_topic p)"
  shows "self_owned hyph p"
  using assms
  by (auto simp: self_owned_def from_keeper_def Let_def canonicalize_self_iff self_for_inj split: if_splits)

definition ctx_inbound :: "health_ok_ctx \<Rightarrow> health_inbound" where
  "ctx_inbound ctx =
     \<lparr>hi_stamp = placement_stamp_for (hc_placement ctx) (hc_unit_id ctx) (hc_attempt_id ctx) (hc_fence ctx),
      hi_content_type = hc_content_type ctx, hi_body = hc_body ctx,
      hi_health_interval_ms = hc_health_interval_ms ctx, hi_now = hc_now_ms ctx\<rparr>"

definition grant_of :: "hiccup_plane \<Rightarrow> attempt_id \<Rightarrow> hiccup_grant" where
  "grant_of pl a = (case bt_get (pl_grants pl) a of None \<Rightarrow> grant_default | Some g \<Rightarrow> g)"

lemma on_health_ok_handles:
  assumes "on_health_ok hyph H J random ctx pl = (active, pl')"
  obtains out session session' where
    "handle_successful_health hyph H J (ctx_inbound ctx)
       (publish_allowed hyph (hp_workload_id (hc_placement ctx)) (grant_of pl (hc_attempt_id ctx)))
       (\<lambda>topic. topic = self_for hyph (hp_workload_id (hc_placement ctx)) \<or>
          topic \<in> hg_named_listen (grant_of pl (hc_attempt_id ctx))) session (pl_board pl) = (out, session', pl_board pl')"
    "active = io_discovery_active out"
proof -
  let ?pl = "ensure_session random (hc_attempt_id ctx) (hp_workload_id (hc_placement ctx)) pl"
  obtain session where session: "bt_get (pl_sessions ?pl) (hc_attempt_id ctx) = Some session"
    by (cases "bt_get (pl_sessions pl) (hc_attempt_id ctx)") (auto simp: ensure_session_def bt_has_def bt_simps)
  have same: "pl_board ?pl = pl_board pl" "pl_grants ?pl = pl_grants pl" by (simp_all add: ensure_session_def)
  obtain out session' b where h: "handle_successful_health hyph H J (ctx_inbound ctx)
       (publish_allowed hyph (hp_workload_id (hc_placement ctx)) (grant_of pl (hc_attempt_id ctx)))
       (\<lambda>topic. topic = self_for hyph (hp_workload_id (hc_placement ctx)) \<or>
          topic \<in> hg_named_listen (grant_of pl (hc_attempt_id ctx))) session (pl_board pl) = (out, session', b)"
    using prod_cases3 by blast
  have "active = io_discovery_active out \<and> pl_board pl' = b"
    using assms session h by (auto simp: on_health_ok_def Let_def same ctx_inbound_def grant_of_def)
  with h show ?thesis using that by blast
qed

lemma on_health_ok_effect:
  assumes "board_ok J (pl_board pl)" and "on_health_ok hyph H J random ctx pl = (active, pl')"
  shows "board_ok J (pl_board pl') \<and> (\<forall>p \<in> entries (pl_board pl').
      p \<in> entries (pl_board pl) \<and>
        (ps_attempt_id (pr_stamp p) \<noteq> hc_attempt_id ctx \<or> is_legacy_health (hc_content_type ctx)) \<or>
      active \<and> declared_by hyph (ctx_inbound ctx)
        (publish_allowed hyph (hp_workload_id (hc_placement ctx)) (grant_of pl (hc_attempt_id ctx))) p)"
proof -
  from on_health_ok_handles [OF assms(2)] obtain out session session' where
    h: "handle_successful_health hyph H J (ctx_inbound ctx)
       (publish_allowed hyph (hp_workload_id (hc_placement ctx)) (grant_of pl (hc_attempt_id ctx)))
       (\<lambda>topic. topic = self_for hyph (hp_workload_id (hc_placement ctx)) \<or>
          topic \<in> hg_named_listen (grant_of pl (hc_attempt_id ctx))) session (pl_board pl) = (out, session', pl_board pl')"
    "active = io_discovery_active out" .
  have "ps_attempt_id (hi_stamp (ctx_inbound ctx)) = hc_attempt_id ctx" "hi_content_type (ctx_inbound ctx) = hc_content_type ctx"
    by (simp_all add: ctx_inbound_def placement_stamp_for_def)
  with handle_effect [OF assms(1) h(1)] h(2) show ?thesis by auto
qed

datatype plane_command =
    PInstall attempt_id workload_id bytes
  | PGrant attempt_id hiccup_grant
  | PRemove attempt_id
  | PHealth bytes health_ok_ctx
  | PMerge string u64

fun plane_step ::
  "hyphenated \<Rightarrow> id_parser \<Rightarrow> digest_fun \<Rightarrow> json_lib \<Rightarrow> keeper_lib \<Rightarrow> plane_command \<Rightarrow> hiccup_plane \<Rightarrow> hiccup_plane"
where
  "plane_step hyph parse_id H J K (PInstall a w token) pl = install_session a w token pl"
| "plane_step hyph parse_id H J K (PGrant a g) pl = set_grant a g pl"
| "plane_step hyph parse_id H J K (PRemove a) pl = plane_remove_attempt J a pl"
| "plane_step hyph parse_id H J K (PHealth random ctx) pl = snd (on_health_ok hyph H J random ctx pl)"
| "plane_step hyph parse_id H J K (PMerge snapshot now) pl = snd (plane_merge hyph parse_id H J K snapshot now pl)"

interpretation plane: invariant_machine "plane_step hyph parse_id H J K" "plane_ok hyph J"
proof
  fix pl c
  assume ok: "plane_ok hyph J pl"
  then have b: "board_ok J (pl_board pl)" and own: "inj hyph \<Longrightarrow> p \<in> entries (pl_board pl) \<Longrightarrow> self_owned hyph p" for p
    by (auto simp: plane_ok_def)
  show "plane_ok hyph J (plane_step hyph parse_id H J K c pl)"
  proof (cases c)
    case (PRemove a)
    then show ?thesis using remove_attempt_ok [OF b, of a] own by (auto simp: plane_ok_def plane_remove_attempt_def)
  next
    case (PHealth random ctx)
    obtain active pl' where h: "on_health_ok hyph H J random ctx pl = (active, pl')" by fastforce
    from on_health_ok_effect [OF b h] own declared_by_self_owned show ?thesis
      by (auto simp: plane_ok_def PHealth h)
  next
    case (PMerge snapshot now)
    obtain res b' where m: "merge_cluster_snapshot hyph parse_id H J K snapshot now (pl_board pl) = (res, b')" by fastforce
    from merge_cluster_snapshot_ok [OF b m] own from_keeper_self_owned show ?thesis
      by (auto simp: plane_ok_def PMerge plane_merge_def m)
  qed (use ok in \<open>auto simp: plane_ok_def install_session_def set_grant_def\<close>)
qed

lemma plane_new_ok: "plane_ok hyph J plane_new"
  by (simp add: plane_ok_def plane_new_def)

lemma listen_matches_entry:
  assumes "board_ok J b" and "p \<in> set (listen_matches b listen a authorized)"
  shows "p \<in> entries b \<and> pr_topic p \<in> set listen \<and> authorized (pr_topic p) \<and> ps_attempt_id (pr_stamp p) \<noteq> a"
proof -
  from assms(2) obtain t m where t: "t \<in> set listen" "authorized t" "bt_get (pb_by_topic b) t = Some m"
      "p \<in> set (bt_values m)" "ps_attempt_id (pr_stamp p) \<noteq> a"
    by (auto simp: listen_matches_def split: if_splits option.splits) (metis that)
  then obtain x where x: "(x, p) \<in> set m" by (auto simp: bt_values_def)
  have m: "bucket_of (pb_by_topic b) t = m" using t(3) by (simp add: bucket_of_def)
  then have "bt_get m x = Some p"
    using bt_in_set_iff [of m x p] topics_okD(2) [OF board_okD(1) [OF assms(1)], of t] x by simp
  then have g: "board_get b t x = Some p" by (simp add: board_get_def m)
  then have "pr_topic p = t" using topics_okD(4) [OF board_okD(1) [OF assms(1)]] by blast
  with g t show ?thesis by (auto simp: entries_def)
qed

section \<open>Properties\<close>

text \<open>
  C19: the self topic introduces a workload to its own attempts only: whatever applications declare
  and peer nodes send, a presence matched on the self topic of a workload carries the stamp of that
  workload, and is never the listener's own.
\<close>

theorem self_discovery_own_workload:
  assumes "inj hyph"
    and "p \<in> set (listen_matches (pl_board (fold (plane_step hyph parse_id H J K) cs plane_new))
           [self_for hyph w] attempt authorized)"
  shows "ps_workload_id (pr_stamp p) = w \<and> ps_attempt_id (pr_stamp p) \<noteq> attempt"
proof -
  let ?pl = "fold (plane_step hyph parse_id H J K) cs plane_new"
  have "plane_ok hyph J ?pl" by (rule plane.inv_run [OF plane_new_ok])
  then have b: "board_ok J (pl_board ?pl)" and own: "\<forall>p \<in> entries (pl_board ?pl). self_owned hyph p"
    using assms(1) by (auto simp: plane_ok_def)
  from listen_matches_entry [OF b assms(2)] own show ?thesis by (auto simp: self_owned_def)
qed

text \<open>
  C31: a Hiccup health response replaces what its attempt published: every presence of the attempt
  afterwards carries Gump's own stamp and the new expiry, exists only if discovery is active, and if
  it came from a topic declaration its topic is the self topic or one the controller granted.
\<close>

theorem health_replaces_presence:
  assumes "board_ok J (pl_board pl)" and "on_health_ok hyph H J random ctx pl = (active, pl')"
    and "\<not> is_legacy_health (hc_content_type ctx)"
    and "board_get (pl_board pl') t (hc_attempt_id ctx) = Some p"
  shows "active \<and>
    pr_stamp p = placement_stamp_for (hc_placement ctx) (hc_unit_id ctx) (hc_attempt_id ctx) (hc_fence ctx) \<and>
    pr_expires_at p = sat_add64 (hc_now_ms ctx) (presence_ttl_ms (hc_health_interval_ms ctx)) \<and>
    (pr_directory_visible p \<or> t = self_for hyph (hp_workload_id (hc_placement ctx)) \<or>
     t \<in> hg_named_publish (grant_of pl (hc_attempt_id ctx)))"
proof -
  note e = on_health_ok_effect [OF assms(1,2)]
  have p: "p \<in> entries (pl_board pl')" using assms(4) by (auto simp: entries_def)
  have id: "ps_attempt_id (pr_stamp p) = hc_attempt_id ctx" "pr_topic p = t"
    using topics_okD(4,5) [OF board_okD(1), of J "pl_board pl'"] e assms(4) by blast+
  with e p assms(3) have d: "active" "declared_by hyph (ctx_inbound ctx)
      (publish_allowed hyph (hp_workload_id (hc_placement ctx)) (grant_of pl (hc_attempt_id ctx))) p" by blast+
  have "(placement_stamp_for (hc_placement ctx) (hc_unit_id ctx) (hc_attempt_id ctx) (hc_fence ctx))\<lparr>ps_health_eligible := True\<rparr> =
      placement_stamp_for (hc_placement ctx) (hc_unit_id ctx) (hc_attempt_id ctx) (hc_fence ctx)"
    by (simp add: placement_stamp_for_def)
  with d id(2) show ?thesis
    by (auto simp: declared_by_def ctx_inbound_def publish_allowed_def split: if_splits)
qed

section \<open>An attempt without any grant\<close>

lemma media_type_hiccup: "media_type_matches media_type"
  by code_simp

text \<open>Two libraries that read every body as one fixed object.\<close>

definition reads :: "(string \<times> json) list \<Rightarrow> json_lib" where
  "reads obj = \<lparr>jl_from_slice = (\<lambda>bs. Inr (JObject obj)), jl_to_vec = (\<lambda>v. Inr []),
     jl_delivery_to_vec = (\<lambda>d. Inr []), jl_delivery_from_value = (\<lambda>v. Inl [])\<rparr>"

definition capability_body :: "(string \<times> json) list" where
  "capability_body = [(''capabilities'', JObject [(''banana'', JObject [])]), (''hiccup'', JNumber (PosInt 1))]"

definition topic_body :: "(string \<times> json) list" where
  "topic_body = [(''hiccup'', JNumber (PosInt 1)), (''topic'', JString ''banana'')]"

definition self_body :: "(string \<times> json) list" where
  "self_body = [(''hiccup'', JNumber (PosInt 1))]"

definition demo_placement :: hiccup_placement where
  "demo_placement = \<lparr>hp_cluster_id = [], hp_namespace = ''default'', hp_app_id = ''app'', hp_workload_id = [1],
     hp_capsule_id = [], hp_execution_id = [], hp_node_id = [9], hp_agent_incarnation = 1, hp_private_ip = None,
     hp_named_publish = {}, hp_named_listen = {}, hp_bind_liveness = False\<rparr>"

definition demo_ctx :: "attempt_id \<Rightarrow> health_ok_ctx" where
  "demo_ctx a = \<lparr>hc_placement = demo_placement, hc_unit_id = [7], hc_attempt_id = a, hc_fence = 1,
     hc_content_type = Some media_type, hc_body = [], hc_health_interval_ms = 1000, hc_now_ms = 0\<rparr>"

lemmas parse_eval = parse_declaration_def parse_object_def check_bounds_def parse_topic_def parse_listen_def
  parse_data_def parse_secret_def parse_capabilities_def check_data_size_def known_fields_def reads_def
  max_json_depth_def max_capabilities_per_attempt_def max_public_data_bytes_def iter_max_def bt_get_def

lemma detect_bodies:
  "detect_health_response (reads capability_body) (Some media_type) [] =
     Active \<lparr>dc_topic = None, dc_listen = None, dc_data = None, dc_secret_data = None,
       dc_capabilities = Some [(''banana'', JObject [])]\<rparr>"
  "detect_health_response (reads topic_body) (Some media_type) [] =
     Active \<lparr>dc_topic = Some (Some ''banana''), dc_listen = None, dc_data = None, dc_secret_data = None,
       dc_capabilities = None\<rparr>"
  "detect_health_response (reads self_body) (Some media_type) [] =
     Active \<lparr>dc_topic = None, dc_listen = None, dc_data = None, dc_secret_data = None, dc_capabilities = None\<rparr>"
  by (simp_all add: detect_health_response_def media_type_hiccup capability_body_def topic_body_def self_body_def parse_eval)



lemmas exchange_eval = on_health_ok_def ensure_session_def session_with_token_def plane_new_def board_new_def
  grant_default_def demo_ctx_def handle_successful_health_def placement_stamp_for_def board_expire_def
  expired_ids_def bt_values_def remove_attempt_def demo_placement_def

lemmas insert_eval = insert_presence_def presence_size_def encoded_data_def
  max_publishers_per_topic_def max_keeper_bytes_def sat_add64_def sat_sub_def u64_max_def


definition silent_keeper :: keeper_lib where
  "silent_keeper = \<lparr>kl_record_to_vec = (\<lambda>r. Inl []), kl_to_string = (\<lambda>s. Inl []), kl_from_str = (\<lambda>t. Inl [])\<rparr>"

lemma self_published:
  "\<exists>pl p. on_health_ok byte_text H (reads self_body) [] (demo_ctx [5]) plane_new = (True, pl) \<and>
     listen_matches (pl_board pl) [self_for byte_text [1]] [6] (\<lambda>topic. True) = [p] \<and>
     board_get (pl_board pl) (self_for byte_text [1]) [5] = Some p"
proof -
  have r: "resolve_topics byte_text None None w =
      Inr \<lparr>rt_publish = Some (self_for byte_text w), rt_listen = [self_for byte_text w]\<rparr>" for w
    by (simp add: resolve_topics_def)
  show ?thesis
    by (simp add: exchange_eval detect_bodies r publish_allowed_def board_upsert_def insert_eval Let_def bt_has_def
        bt_get_def listen_matches_def board_get_def bucket_of_def split: prod.splits)
qed

theorem self_discovery_own_workload_witness:
  "\<exists>p. p \<in> set (listen_matches (pl_board (fold (plane_step byte_text (\<lambda>t. None) id (reads self_body) silent_keeper)
         [PHealth [] (demo_ctx [5])] plane_new)) [self_for byte_text [1]] [6] (\<lambda>topic. True)) \<and>
     ps_workload_id (pr_stamp p) = [1]"
proof -
  from self_published [of id] obtain pl p where
    "on_health_ok byte_text id (reads self_body) [] (demo_ctx [5]) plane_new = (True, pl)"
    "listen_matches (pl_board pl) [self_for byte_text [1]] [6] (\<lambda>topic. True) = [p]" by blast
  then have "p \<in> set (listen_matches (pl_board (fold (plane_step byte_text (\<lambda>t. None) id (reads self_body) silent_keeper)
         [PHealth [] (demo_ctx [5])] plane_new)) [self_for byte_text [1]] [6] (\<lambda>topic. True))" by simp
  with self_discovery_own_workload [OF inj_byte_text this] show ?thesis by blast
qed

theorem health_replaces_presence_witness:
  "\<exists>pl p. on_health_ok byte_text id (reads self_body) [] (demo_ctx [5]) plane_new = (True, pl) \<and>
     board_get (pl_board pl) (self_for byte_text [1]) [5] = Some p \<and> pr_expires_at p = 30000"
proof -
  from self_published [of id] obtain pl p where
    h: "on_health_ok byte_text id (reads self_body) [] (demo_ctx [5]) plane_new = (True, pl)"
    and g: "board_get (pl_board pl) (self_for byte_text [1]) [5] = Some p" by blast
  have "board_ok (reads self_body) (pl_board plane_new)" by (simp add: plane_new_def)
  moreover have "\<not> is_legacy_health (hc_content_type (demo_ctx [5]))"
    by (simp add: demo_ctx_def is_legacy_health_def media_type_hiccup)
  moreover have "board_get (pl_board pl) (self_for byte_text [1]) (hc_attempt_id (demo_ctx [5])) = Some p"
    using g by (simp add: demo_ctx_def)
  ultimately have "pr_expires_at p = sat_add64 0 (presence_ttl_ms 1000)"
    using health_replaces_presence [OF _ h] by (fastforce simp: demo_ctx_def)
  then have "pr_expires_at p = 30000"
    by (simp add: sat_add64_def presence_ttl_ms_def sat_mul64_def presence_interval_mult_def min_presence_ttl_ms_def
        max_presence_ttl_ms_def u64_max_def)
  with g h show ?thesis by blast
qed

end
