(* ===== verification/Text_Bytes.thy ===== *)
theory Text_Bytes
  imports Gump_Prelude
begin

text \<open>
  Bytes and text as the wire formats use them: well-formed UTF-8, the bytes of a string, and
  big-endian integers.
\<close>

section \<open>UTF-8\<close>

text \<open>\<open>str::from_utf8\<close>: the well-formed byte sequences of the Unicode standard.\<close>

definition utf8_cont :: "byte \<Rightarrow> bool" where
  "utf8_cont b \<longleftrightarrow> 0x80 \<le> b \<and> b \<le> 0xBF"

definition utf8_lead3 :: "byte \<Rightarrow> byte \<Rightarrow> bool" where
  "utf8_lead3 a b \<longleftrightarrow>
     (a = 0xE0 \<and> 0xA0 \<le> b \<and> b \<le> 0xBF) \<or> (0xE1 \<le> a \<and> a \<le> 0xEC \<and> utf8_cont b) \<or>
     (a = 0xED \<and> 0x80 \<le> b \<and> b \<le> 0x9F) \<or> (0xEE \<le> a \<and> a \<le> 0xEF \<and> utf8_cont b)"

definition utf8_lead4 :: "byte \<Rightarrow> byte \<Rightarrow> bool" where
  "utf8_lead4 a b \<longleftrightarrow>
     (a = 0xF0 \<and> 0x90 \<le> b \<and> b \<le> 0xBF) \<or> (0xF1 \<le> a \<and> a \<le> 0xF3 \<and> utf8_cont b) \<or>
     (a = 0xF4 \<and> 0x80 \<le> b \<and> b \<le> 0x8F)"

fun utf8_valid :: "bytes \<Rightarrow> bool" where
  "utf8_valid [] = True"
| "utf8_valid (a # r) =
     (if a < 0x80 then utf8_valid r
      else case r of
             [] \<Rightarrow> False
           | b # r1 \<Rightarrow>
               if 0xC2 \<le> a \<and> a \<le> 0xDF then utf8_cont b \<and> utf8_valid r1
               else case r1 of
                      [] \<Rightarrow> False
                    | c # r2 \<Rightarrow>
                        if utf8_lead3 a b then utf8_cont c \<and> utf8_valid r2
                        else case r2 of
                               [] \<Rightarrow> False
                             | d # r3 \<Rightarrow> utf8_lead4 a b \<and> utf8_cont c \<and> utf8_cont d \<and> utf8_valid r3)"

lemma utf8_valid_ascii: "\<forall>b \<in> set bs. b < 0x80 \<Longrightarrow> utf8_valid bs"
  by (induction bs) auto

section \<open>Strings as bytes\<close>

definition bytes_of_string :: "string \<Rightarrow> bytes" where
  "bytes_of_string s = map (\<lambda>c. of_nat (of_char c)) s"

definition string_of_bytes :: "bytes \<Rightarrow> string" where
  "string_of_bytes bs = map (\<lambda>b. char_of (unat b)) bs"

lemma unat_byte_less: "unat (b :: byte) < 256"
  using unsigned_less [of b] by simp

lemma string_of_bytes_of_string [simp]: "string_of_bytes (bytes_of_string s) = s"
proof -
  have "char_of (unat (of_nat (of_char c) :: byte)) = c" for c
    by (simp add: unat_of_nat nat_of_char_less_256)
  then show ?thesis by (simp add: string_of_bytes_def bytes_of_string_def o_def)
qed

lemma bytes_of_string_of_bytes [simp]: "bytes_of_string (string_of_bytes bs) = bs"
proof -
  have "of_nat (of_char (char_of (unat b) :: char)) = b" for b :: byte
    using unat_byte_less [of b] by (simp add: of_char_of)
  then show ?thesis by (simp add: string_of_bytes_def bytes_of_string_def o_def)
qed

lemma length_bytes_of_string [simp]: "length (bytes_of_string s) = length s"
  by (simp add: bytes_of_string_def)

lemma bytes_of_string_append [simp]: "bytes_of_string (s @ t) = bytes_of_string s @ bytes_of_string t"
  by (simp add: bytes_of_string_def)

section \<open>Big-endian integers\<close>

definition be_nat :: "bytes \<Rightarrow> nat" where
  "be_nat bs = foldl (\<lambda>acc b. acc * 256 + unat b) 0 bs"

definition to_be :: "nat \<Rightarrow> nat \<Rightarrow> bytes" where
  "to_be k n = map (\<lambda>i. of_nat (n div 256 ^ i mod 256)) (rev [0 ..< k])"

lemma length_to_be [simp]: "length (to_be k n) = k"
  by (simp add: to_be_def)

lemma be_nat_to_be: "be_nat (to_be k n) = n mod 256 ^ k"
proof -
  have "foldl (\<lambda>acc b. acc * 256 + unat b) m (to_be k n) = m * 256 ^ k + n mod 256 ^ k" for m
  proof (induction k arbitrary: m)
    case (Suc k)
    have d: "n mod 256 ^ Suc k = (n div 256 ^ k mod 256) * 256 ^ k + n mod 256 ^ k"
      by (metis mod_mult2_eq mult.commute power_Suc2 add.commute)
    have "unat (of_nat (n div 256 ^ k mod 256) :: byte) = n div 256 ^ k mod 256"
      by (simp add: unat_of_nat)
    then have "foldl (\<lambda>acc b. acc * 256 + unat b) m (to_be (Suc k) n) =
        foldl (\<lambda>acc b. acc * 256 + unat b) (m * 256 + n div 256 ^ k mod 256) (to_be k n)"
      by (simp add: to_be_def)
    also have "\<dots> = (m * 256 + n div 256 ^ k mod 256) * 256 ^ k + n mod 256 ^ k" by (rule Suc.IH)
    also have "\<dots> = m * 256 ^ Suc k + n mod 256 ^ Suc k" unfolding d by (simp add: algebra_simps)
    finally show ?case .
  qed (simp add: to_be_def)
  from this [of 0] show ?thesis by (simp add: be_nat_def)
qed

lemma be_nat_to_be_exact [simp]: "n < 256 ^ k \<Longrightarrow> be_nat (to_be k n) = n"
  by (simp add: be_nat_to_be)

lemma be_nat_less: "be_nat bs < 256 ^ length bs"
proof -
  have "foldl (\<lambda>acc b. acc * 256 + unat b) m bs < (m + 1) * 256 ^ length bs" for m
  proof (induction bs arbitrary: m)
    case (Cons b bs)
    have "unat b < 256" using unat_byte_less [of b] by simp
    then have "(m * 256 + unat b + 1) * 256 ^ length bs \<le> (m + 1) * 256 * 256 ^ length bs"
      by (intro mult_right_mono) auto
    moreover have "foldl (\<lambda>acc b. acc * 256 + unat b) m (b # bs) < (m * 256 + unat b + 1) * 256 ^ length bs"
      using Cons.IH [of "m * 256 + unat b"] by simp
    ultimately have "foldl (\<lambda>acc b. acc * 256 + unat b) m (b # bs) < (m + 1) * 256 * 256 ^ length bs"
      by (rule less_le_trans [rotated])
    then show ?case by (simp only: length_Cons power_Suc mult.assoc)
  qed simp
  from this [of 0] show ?thesis by (simp add: be_nat_def)
qed

lemma to_be_be_nat: "length bs = k \<Longrightarrow> to_be k (be_nat bs) = bs"
proof (induction bs arbitrary: k rule: rev_induct)
  case (snoc b bs)
  have e: "be_nat (bs @ [b]) = be_nat bs * 256 + unat b" by (simp add: be_nat_def)
  have "unat b < 256" using unat_byte_less [of b] by simp
  then have d: "(be_nat bs * 256 + unat b) div (256 * 256 ^ i) mod 256 = be_nat bs div 256 ^ i mod 256" for i
    by (simp add: div_mult2_eq)
  have m: "unat b mod 256 = unat b" using \<open>unat b < 256\<close> by simp
  have "[0 ..< Suc (length bs)] = 0 # map Suc [0 ..< length bs]"
    by (simp add: map_Suc_upt upt_conv_Cons del: upt_Suc)
  then have r: "rev [0 ..< Suc (length bs)] = map Suc (rev [0 ..< length bs]) @ [0]"
    by (simp add: rev_map del: upt_Suc)
  have "to_be (Suc (length bs)) (be_nat (bs @ [b])) = to_be (length bs) (be_nat bs) @ [b]"
    unfolding to_be_def e r by (simp add: d m o_def)
  then show ?case using snoc by simp
qed (simp add: to_be_def)

end
