(* ===== verification/Agent_Checks.thy ===== *)
theory Agent_Checks
  imports Agent_Lifecycle
begin

text \<open>
  The health probes of the agent (\<open>gump-agent/src/checks.rs\<close>). Name resolution, sockets, child
  processes and the clock are operations of a record \<open>host_net\<close> over a world \<open>'w\<close>; request text,
  response parsing, the read bound and the shared budget are modelled. Durations and instants are
  nanoseconds.
\<close>

section \<open>Text\<close>

text \<open>\<open>str::split_once\<close> with a string pattern.\<close>

fun split_once_str :: "string \<Rightarrow> string \<Rightarrow> (string \<times> string) option" where
  "split_once_str p [] = (if p = [] then Some ([], []) else None)"
| "split_once_str p (x # xs) =
     (if prefix p (x # xs) then Some ([], drop (length p) (x # xs))
      else map_option (\<lambda>(a, b). (x # a, b)) (split_once_str p xs))"

text \<open>\<open>str::lines\<close>: a final line without a newline keeps a carriage return.\<close>

definition strip_cr :: "string \<Rightarrow> string" where
  "strip_cr s = (if s \<noteq> [] \<and> last s = CHR 0x0D then butlast s else s)"

definition str_lines :: "string \<Rightarrow> string list" where
  "str_lines s =
     (let parts = split_char (CHR 0x0A) s
      in map strip_cr (butlast parts) @ (if last parts = [] then [] else [last parts]))"

text \<open>\<open>str::split_whitespace\<close>, with the word read so far.\<close>

function split_words :: "string \<Rightarrow> string \<Rightarrow> string list" where
  "split_words acc s =
     (if s = [] then (if acc = [] then [] else [acc])
      else if white_len s = 0 then split_words (acc @ [hd s]) (tl s)
      else (if acc = [] then [] else [acc]) @ split_words [] (drop (white_len s) s))"
  by auto
termination by (relation "measure (\<lambda>(acc, s). length s)") auto

declare split_words.simps [simp del]

text \<open>\<open>str::parse::<u16>\<close>.\<close>

definition digit_value :: "char \<Rightarrow> nat option" where
  "digit_value c = (if CHR ''0'' \<le> c \<and> c \<le> CHR ''9'' then Some (of_char c - 48) else None)"

fun parse_digits :: "nat \<Rightarrow> string \<Rightarrow> nat option" where
  "parse_digits acc [] = Some acc"
| "parse_digits acc (c # cs) =
     (case digit_value c of
        None \<Rightarrow> None
      | Some d \<Rightarrow> if 10 * acc + d > 65535 then None else parse_digits (10 * acc + d) cs)"

definition parse_u16 :: "string \<Rightarrow> nat option" where
  "parse_u16 s =
     (let digits = (case s of c # cs \<Rightarrow> if c = CHR ''+'' then cs else s | [] \<Rightarrow> [])
      in if digits = [] then None else parse_digits 0 digits)"

lemma parse_digits_bound: "parse_digits acc s = Some n \<Longrightarrow> acc \<le> 65535 \<Longrightarrow> n \<le> 65535"
  by (induction acc s rule: parse_digits.induct) (auto split: option.splits if_splits)

section \<open>Probes\<close>

record check_outcome =
  co_ok :: bool
  co_reason_code :: string
  co_detail :: string
  co_elapsed_ms :: u64

record http_exchange_result =
  hx_ok :: bool
  hx_status :: nat
  hx_content_type :: "string option"
  hx_body :: bytes

datatype http_request_plan = GetOffer | PostPlan string string bytes

datatype read_event = ReadData bytes | ReadWouldBlock | ReadTimedOut | ReadError string

record 'w host_net =
  hn_now :: "'w \<Rightarrow> nat \<times> 'w"
  hn_connect :: "string \<Rightarrow> nat \<Rightarrow> 'w \<Rightarrow> (string + unit) \<times> 'w"
  hn_http :: "string \<Rightarrow> nat \<Rightarrow> bytes list \<Rightarrow> 'w \<Rightarrow> (string + read_event list) \<times> 'w"
  hn_command :: "string list \<Rightarrow> nat \<Rightarrow> 'w \<Rightarrow> (string + bool) \<times> 'w"

text \<open>
  \<open>hn_http\<close> resolves the host, connects, sets the timeouts and writes the buffers; its value is the
  sequence of results the following reads give. A read of zero bytes is the end of the stream.
\<close>

definition millis :: "u64 \<Rightarrow> nat" where "millis ms = ms * 1000000"

definition budget_new :: "('w, 'z) host_net_scheme \<Rightarrow> u64 \<Rightarrow> 'w \<Rightarrow> nat \<times> 'w" where
  "budget_new N max_ms w = (let (t, w1) = hn_now N w in (t + millis (max max_ms 1), w1))"

definition budget_exhausted :: "('w, 'z) host_net_scheme \<Rightarrow> nat \<Rightarrow> 'w \<Rightarrow> bool \<times> 'w" where
  "budget_exhausted N deadline w = (let (t, w1) = hn_now N w in (deadline \<le> t, w1))"

definition budget_remaining :: "('w, 'z) host_net_scheme \<Rightarrow> nat \<Rightarrow> 'w \<Rightarrow> nat \<times> 'w" where
  "budget_remaining N deadline w = (let (t, w1) = hn_now N w in (sat_sub deadline t, w1))"

definition probe_tcp ::
  "('w, 'z) host_net_scheme \<Rightarrow> string option \<Rightarrow> nat \<Rightarrow> 'w \<Rightarrow> (string + bool) \<times> 'w" where
  "probe_tcp N target timeout w =
     (case target of
        None \<Rightarrow> (Inl ''tcp check missing target'', w)
      | Some addr \<Rightarrow>
          (case hn_connect N addr timeout w of
             (Inl e, w1) \<Rightarrow> (Inl e, w1)
           | (Inr _, w1) \<Rightarrow> (Inr True, w1)))"

definition content_type_of :: "string list \<Rightarrow> string option" where
  "content_type_of ls =
     fold (\<lambda>line found.
       case split_once (CHR '':'') line of
         None \<Rightarrow> found
       | Some (k, v) \<Rightarrow> if eq_ignore_ascii_case k ''content-type'' then Some (trim v) else found) ls None"

definition status_of :: "string list \<Rightarrow> nat" where
  "status_of ls =
     (case ls of
        [] \<Rightarrow> 0
      | line # _ \<Rightarrow>
          (case drop 1 (split_words [] line) of
             [] \<Rightarrow> 0
           | word # _ \<Rightarrow> (case parse_u16 word of None \<Rightarrow> 0 | Some n \<Rightarrow> n)))"

definition parse_http_exchange :: "bytes \<Rightarrow> string + http_exchange_result" where
  "parse_http_exchange raw =
     (let txt = (if utf8_valid raw then string_of_bytes raw else []);
          (head, body) = (case split_once_str [CHR 0x0D, CHR 0x0A, CHR 0x0D, CHR 0x0A] txt of
                            Some (h, b) \<Rightarrow> (h, bytes_of_string b)
                          | None \<Rightarrow> (txt, []));
          status = status_of (str_lines head)
      in Inr \<lparr>hx_ok = (200 \<le> status \<and> status < 400), hx_status = status,
              hx_content_type = content_type_of (drop 1 (str_lines head)), hx_body = body\<rparr>)"

fun read_response :: "bytes \<Rightarrow> read_event list \<Rightarrow> string + bytes" where
  "read_response buf [] = Inr buf"
| "read_response buf (ReadData bs # es) =
     (if bs = [] then Inr buf
      else if length (buf @ bs) > 66 * 1024 then Inr (buf @ bs)
      else read_response (buf @ bs) es)"
| "read_response buf (ReadWouldBlock # es) = Inr buf"
| "read_response buf (ReadTimedOut # es) = Inr buf"
| "read_response buf (ReadError e # es) = Inl e"

definition crlf :: string where "crlf = [CHR 0x0D, CHR 0x0A]"

definition request_text :: "string \<Rightarrow> string \<Rightarrow> http_request_plan \<Rightarrow> string" where
  "request_text path host plan =
     (case plan of
        GetOffer \<Rightarrow>
          ''GET '' @ path @ '' HTTP/1.1'' @ crlf @ ''Host: '' @ host @ crlf @ ''Hiccup-Offer: 1'' @ crlf @
          ''Connection: close'' @ crlf @ crlf
      | PostPlan authorization content_type body \<Rightarrow>
          ''POST '' @ path @ '' HTTP/1.1'' @ crlf @ ''Host: '' @ host @ crlf @
          ''Authorization: '' @ authorization @ crlf @ ''Content-Type: '' @ content_type @ crlf @
          ''Content-Length: '' @ show_nat (length body) @ crlf @ ''Connection: close'' @ crlf @ crlf)"

definition http_exchange ::
  "('w, 'z) host_net_scheme \<Rightarrow> string option \<Rightarrow> nat \<Rightarrow> http_request_plan \<Rightarrow> 'w \<Rightarrow>
    (string + http_exchange_result) \<times> 'w" where
  "http_exchange N target timeout plan w =
     (case target of
        None \<Rightarrow> (Inl ''http check missing target'', w)
      | Some raw \<Rightarrow>
          (let url = (case strip_prefix ''http://'' raw of Some u \<Rightarrow> u | None \<Rightarrow> raw);
               (hostport, path) = (case split_once (CHR ''/'') url of
                                     Some (hp, rest) \<Rightarrow> (hp, CHR ''/'' # rest)
                                   | None \<Rightarrow> (url, ''/''));
               host = hd (split_char (CHR '':'') hostport);
               req = bytes_of_string (request_text path host plan);
               buffers = (case plan of GetOffer \<Rightarrow> [req] | PostPlan _ _ body \<Rightarrow> [req, body])
           in case hn_http N hostport timeout buffers w of
                (Inl e, w1) \<Rightarrow> (Inl e, w1)
              | (Inr events, w1) \<Rightarrow>
                  (case read_response [] events of
                     Inl e \<Rightarrow> (Inl e, w1)
                   | Inr buf \<Rightarrow> (parse_http_exchange buf, w1))))"

definition probe_http ::
  "('w, 'z) host_net_scheme \<Rightarrow> string option \<Rightarrow> nat \<Rightarrow> 'w \<Rightarrow> (string + bool) \<times> 'w" where
  "probe_http N target timeout w =
     (case http_exchange N target timeout GetOffer w of
        (Inl e, w1) \<Rightarrow> (Inl e, w1)
      | (Inr x, w1) \<Rightarrow> (Inr (hx_ok x), w1))"

text \<open>\<open>hn_command\<close> spawns the argument vector and waits for it, killing it at the timeout.\<close>

definition probe_command ::
  "('w, 'z) host_net_scheme \<Rightarrow> check_spec \<Rightarrow> nat \<Rightarrow> 'w \<Rightarrow> (string + bool) \<times> 'w" where
  "probe_command N spec timeout w =
     (case cs_command spec of
        None \<Rightarrow> (Inl ''command check missing argv'', w)
      | Some argv \<Rightarrow> if argv = [] then (Inl ''command argv empty'', w) else hn_command N argv timeout w)"

definition skipped_outcome :: check_outcome where
  "skipped_outcome =
     \<lparr>co_ok = False, co_reason_code = reason_check_skipped_budget,
      co_detail = ''check skipped: reconcile budget exhausted'', co_elapsed_ms = 0\<rparr>"

definition ok_outcome :: "u64 \<Rightarrow> check_outcome" where
  "ok_outcome elapsed =
     \<lparr>co_ok = True, co_reason_code = ''lifecycle.check_ok'', co_detail = ''check succeeded'',
      co_elapsed_ms = elapsed\<rparr>"

definition failed_outcome :: "string \<Rightarrow> string \<Rightarrow> u64 \<Rightarrow> check_outcome" where
  "failed_outcome code detail elapsed =
     \<lparr>co_ok = False, co_reason_code = code, co_detail = detail, co_elapsed_ms = elapsed\<rparr>"

text \<open>\<open>Duration::as_millis\<close> as \<open>u64\<close>.\<close>

definition elapsed_since :: "('w, 'z) host_net_scheme \<Rightarrow> nat \<Rightarrow> 'w \<Rightarrow> u64 \<times> 'w" where
  "elapsed_since N start w = (let (t, w1) = hn_now N w in ((t - start) div 1000000 mod 2 ^ 64, w1))"

definition run_check ::
  "('w, 'z) host_net_scheme \<Rightarrow> check_spec \<Rightarrow> bool \<Rightarrow> nat \<Rightarrow> 'w \<Rightarrow> check_outcome \<times> 'w" where
  "run_check N spec process_running deadline w =
     (let (spent, w1) = budget_exhausted N deadline w
      in if spent then (skipped_outcome, w1)
         else
           (let (left, w2) = budget_remaining N deadline w1;
                timeout = min (millis (max (cs_timeout_ms spec) 1)) left;
                (start, w3) = hn_now N w2;
                (result, w4) =
                  (case cs_kind spec of
                     CheckProcess \<Rightarrow> (Inr process_running, w3)
                   | CheckTcp \<Rightarrow> probe_tcp N (cs_target spec) timeout w3
                   | CheckHttp \<Rightarrow> probe_http N (cs_target spec) timeout w3
                   | CheckCommand \<Rightarrow> probe_command N spec timeout w3);
                (elapsed, w5) = elapsed_since N start w4
            in (case result of
                  Inr True \<Rightarrow> ok_outcome elapsed
                | Inr False \<Rightarrow> failed_outcome reason_readiness_failed ''check failed'' elapsed
                | Inl detail \<Rightarrow> failed_outcome reason_check_timeout detail elapsed, w5)))"

text \<open>The buffer never exceeds the bound by more than one read of the 4096-byte window.\<close>

lemma read_response_bound:
  assumes "read_response buf es = Inr out" and "length buf \<le> 66 * 1024"
    and "\<forall>bs. ReadData bs \<in> set es \<longrightarrow> length bs \<le> 4096"
  shows "length out \<le> 66 * 1024 + 4096"
  using assms
proof (induction buf es rule: read_response.induct)
  case (2 buf bs es)
  then have "length bs \<le> 4096" by simp
  with 2 show ?case by (auto split: if_splits)
qed auto

end
