(* ===== verification/Agent_Reconcile.thy ===== *)
theory Agent_Reconcile
  imports Agent_Checks
begin

text \<open>
  The agent's fenced reconcile loop (\<open>gump-agent/src/reconcile.rs\<close>): placements are started through the
  driver, observed, checked, retried and cleaned up.

  The driver, the file system, the clock, the random source and the secret provider are the record
  \<open>agent_env\<close> over a world \<open>'w\<close>; \<open>'h\<close> stands for the driver's handles (\<open>PreparedHandle\<close>,
  \<open>Admission\<close>, \<open>RunningHandle\<close>). An action maps the executor and the world to an error or a value,
  the executor and the world: what was changed before an error stays changed, as in the code.
\<close>

section \<open>Data\<close>

definition default_max_live_attempts :: usize where "default_max_live_attempts = 4096"
definition default_check_budget_ms :: u64 where "default_check_budget_ms = 50"

datatype agent_error =
    AgentFence fence_error
  | AgentDriver string
  | UnverifiedCapsule
  | AttemptRoot string
  | AgentCapacity
  | AgentNotFound

fun agent_error_display :: "agent_error \<Rightarrow> string" where
  "agent_error_display (AgentFence e) = fence_error_display e"
| "agent_error_display (AgentDriver e) = ''driver: '' @ e"
| "agent_error_display UnverifiedCapsule = ''refusing to materialize unverified Capsule''"
| "agent_error_display (AttemptRoot e) = ''attempt root: '' @ e"
| "agent_error_display AgentCapacity = ''live attempt capacity reached''"
| "agent_error_display AgentNotFound = ''attempt not found''"

datatype driver_kind = DriverNative | DriverScript

record runtime_spec =
  rs_kind :: driver_kind
  rs_command :: "string list"
  rs_interpreter :: "string list option"
  rs_workdir :: "string option"

record observation =
  ob_running :: bool
  ob_exit_code :: "int option"

record accepted_placement =
  ap_attempt_id :: attempt_id
  ap_unit_id :: bytes
  ap_placement_fence :: u64
  ap_release_root :: string
  ap_runtime :: runtime_spec
  ap_lifecycle_finite :: bool
  ap_capsule_verified :: bool
  ap_lifecycle :: lifecycle_contract
  ap_hiccup :: "hiccup_placement option"

datatype attempt_phase =
    PhStarting
  | PhRunning
  | PhTerminal "int option"
  | PhAwaitingRestart u64
  | PhPermanentFailure
  | PhStopped

record attempt_report =
  ar_attempt_id :: attempt_id
  ar_unit_id :: bytes
  ar_phase :: attempt_phase
  ar_placement_fence :: u64
  ar_observation :: "observation option"
  ar_stdout_bytes :: usize
  ar_stderr_bytes :: usize
  ar_ready :: "bool option"
  ar_publication_eligible :: "bool option"
  ar_attempt_index :: u32
  ar_terminal_reason :: "terminal_reason option"

record 'h live_attempt =
  la_unit_id :: bytes
  la_placement_fence :: u64
  la_lifecycle_finite :: bool
  la_lifecycle :: lifecycle_contract
  la_release_root :: string
  la_runtime :: runtime_spec
  la_capsule_verified :: bool
  la_attempt_root :: string
  la_running :: "'h option"
  la_phase :: attempt_phase
  la_last_obs :: "observation option"
  la_started_ms :: u64
  la_attempt_index :: u32
  la_readiness :: check_runtime
  la_liveness :: check_runtime
  la_ready :: "bool option"
  la_publication_eligible :: "bool option"
  la_terminal_reason :: "terminal_reason option"
  la_hiccup :: "hiccup_placement option"

record 'h executor =
  ex_attempts_base :: string
  ex_authority :: authority_state
  ex_isolation :: isolation_policy
  ex_live :: "(attempt_id, 'h live_attempt) btree"
  ex_completed :: "attempt_id set"
  ex_completion_events :: "attempt_id set"
  ex_max_live :: usize
  ex_check_budget_ms :: u64
  ex_hiccup :: hiccup_plane

record ('w, 'h) agent_env = "'w host_net" +
  ae_is_dir :: "string \<Rightarrow> 'w \<Rightarrow> bool"
  ae_exists :: "string \<Rightarrow> 'w \<Rightarrow> bool"
  ae_remove_dir_all :: "string \<Rightarrow> 'w \<Rightarrow> (string + unit) \<times> 'w"
  ae_create_dir_all :: "string \<Rightarrow> 'w \<Rightarrow> (string + unit) \<times> 'w"
  ae_prepare :: "string \<Rightarrow> runtime_spec \<Rightarrow> attempt_id \<Rightarrow> string \<Rightarrow> 'w \<Rightarrow> (string + 'h) \<times> 'w"
  ae_secrets :: "(accepted_placement \<Rightarrow> 'w \<Rightarrow> (string + secret_plan) \<times> 'w) option"
  ae_admit :: "'h \<Rightarrow> u32 option \<Rightarrow> secret_plan \<Rightarrow> 'w \<Rightarrow> (string + 'h) \<times> 'w"
  ae_start :: "'h \<Rightarrow> u64 \<Rightarrow> attempt_id \<Rightarrow> 'w \<Rightarrow> (string + 'h) \<times> 'w"
  ae_observe :: "'h \<Rightarrow> 'w \<Rightarrow> (string + observation) \<times> 'h \<times> 'w"
  ae_terminate :: "'h \<Rightarrow> u64 \<Rightarrow> 'w \<Rightarrow> (string + unit) \<times> 'h \<times> 'w"
  ae_kill :: "'h \<Rightarrow> 'w \<Rightarrow> (string + unit) \<times> 'h \<times> 'w"
  ae_into_prepared :: "'h \<Rightarrow> 'w \<Rightarrow> 'h \<times> 'w"
  ae_cleanup :: "'h \<Rightarrow> 'w \<Rightarrow> (string + unit) \<times> 'w"
  ae_captured :: "'h \<Rightarrow> 'w \<Rightarrow> usize \<times> usize"
  ae_random :: "'w \<Rightarrow> bytes \<times> 'w"
  ae_hyph :: hyphenated
  ae_parse_id :: id_parser
  ae_digest :: digest_fun
  ae_json :: json_lib
  ae_keeper :: keeper_lib

type_synonym ('s, 'a) action = "'s \<Rightarrow> (agent_error + 'a) \<times> 's"

text \<open>The question mark operator: continue with the value, or return the error.\<close>

definition act_then :: "('s, 'a) action \<Rightarrow> ('a \<Rightarrow> ('s, 'b) action) \<Rightarrow> ('s, 'b) action" where
  "act_then m f s = (case m s of (Inl e, s1) \<Rightarrow> (Inl e, s1) | (Inr a, s1) \<Rightarrow> f a s1)"

definition act_with :: "(string \<Rightarrow> agent_error) \<Rightarrow> ('s \<Rightarrow> (string + 'a) \<times> 's) \<Rightarrow> ('s, 'a) action" where
  "act_with err m s = (case m s of (Inl e, s1) \<Rightarrow> (Inl (err e), s1) | (Inr a, s1) \<Rightarrow> (Inr a, s1))"

fun for_each :: "('i \<Rightarrow> ('s, unit) action) \<Rightarrow> 'i list \<Rightarrow> ('s, unit) action" where
  "for_each f [] s = (Inr (), s)"
| "for_each f (x # xs) s = act_then (f x) (\<lambda>_. for_each f xs) s"

section \<open>Construction, authority and reports\<close>

definition executor_new :: "string \<Rightarrow> authority_state \<Rightarrow> 'h executor" where
  "executor_new base au =
     \<lparr>ex_attempts_base = base, ex_authority = au, ex_isolation = isolation_policy_default, ex_live = [],
      ex_completed = {}, ex_completion_events = {}, ex_max_live = default_max_live_attempts,
      ex_check_budget_ms = default_check_budget_ms, ex_hiccup = plane_new\<rparr>"

definition with_isolation :: "isolation_policy \<Rightarrow> 'h executor \<Rightarrow> 'h executor" where
  "with_isolation policy ex = ex\<lparr>ex_isolation := policy\<rparr>"

definition with_check_budget_ms :: "u64 \<Rightarrow> 'h executor \<Rightarrow> 'h executor" where
  "with_check_budget_ms ms ex = ex\<lparr>ex_check_budget_ms := max ms 1\<rparr>"

definition set_authority :: "authority_state \<Rightarrow> 'h executor \<Rightarrow> 'h executor" where
  "set_authority au ex = ex\<lparr>ex_authority := au\<rparr>"

definition mark_isolated :: "u64 \<Rightarrow> 'h executor \<Rightarrow> 'h executor" where
  "mark_isolated now ex =
     (if au_isolated_since_ms (ex_authority ex) = None
      then ex\<lparr>ex_authority := (ex_authority ex)\<lparr>au_isolated_since_ms := Some now\<rparr>\<rparr> else ex)"

definition clear_isolation :: "u64 \<Rightarrow> u64 \<Rightarrow> 'h executor \<Rightarrow> 'h executor" where
  "clear_isolation fence epoch ex =
     ex\<lparr>ex_authority := \<lparr>au_controller_epoch = epoch, au_placement_fence = fence, au_isolated_since_ms = None\<rparr>\<rparr>"

definition live_count :: "'h executor \<Rightarrow> usize" where
  "live_count ex = length (ex_live ex)"

definition completed_count :: "'h executor \<Rightarrow> usize" where
  "completed_count ex = card (ex_completed ex)"

definition completion_events :: "'h executor \<Rightarrow> attempt_id list" where
  "completion_events ex = sorted_list_of_set (ex_completion_events ex)"

definition acknowledge_completion :: "attempt_id \<Rightarrow> 'h executor \<Rightarrow> 'h executor" where
  "acknowledge_completion aid ex = ex\<lparr>ex_completion_events := ex_completion_events ex - {aid}\<rparr>"

definition merge_hiccup_cluster_snapshot ::
  "('w, 'h) agent_env \<Rightarrow> string \<Rightarrow> u64 \<Rightarrow> 'h executor \<Rightarrow> (string + usize) \<times> 'h executor" where
  "merge_hiccup_cluster_snapshot E snapshot now ex =
     (let (res, pl) = plane_merge (ae_hyph E) (ae_parse_id E) (ae_digest E) (ae_json E) (ae_keeper E)
                        snapshot now (ex_hiccup ex)
      in (res, ex\<lparr>ex_hiccup := pl\<rparr>))"

definition make_report :: "('w, 'h) agent_env \<Rightarrow> 'w \<Rightarrow> attempt_id \<Rightarrow> 'h live_attempt \<Rightarrow> attempt_report" where
  "make_report E w aid a =
     (let (out, err) = (case la_running a of Some r \<Rightarrow> ae_captured E r w | None \<Rightarrow> (0, 0))
      in \<lparr>ar_attempt_id = aid, ar_unit_id = la_unit_id a, ar_phase = la_phase a,
          ar_placement_fence = la_placement_fence a, ar_observation = la_last_obs a,
          ar_stdout_bytes = out, ar_stderr_bytes = err, ar_ready = la_ready a,
          ar_publication_eligible = la_publication_eligible a, ar_attempt_index = la_attempt_index a,
          ar_terminal_reason = la_terminal_reason a\<rparr>)"

definition agent_report ::
  "('w, 'h) agent_env \<Rightarrow> attempt_id \<Rightarrow> 'h executor \<times> 'w \<Rightarrow> agent_error + attempt_report" where
  "agent_report E aid = (\<lambda>(ex, w).
     case allow_effect (ex_authority ex) (au_placement_fence (ex_authority ex)) EffReport of
       Inl e \<Rightarrow> Inl (AgentFence e)
     | Inr _ \<Rightarrow>
         (case bt_get (ex_live ex) aid of
            None \<Rightarrow> Inl AgentNotFound
          | Some a \<Rightarrow>
              (case require_fence (ex_authority ex) (la_placement_fence a) of
                 Inl e \<Rightarrow> Inl (AgentFence e)
               | Inr _ \<Rightarrow> Inr (make_report E w aid a))))"

section \<open>Starting\<close>

text \<open>\<open>PathBuf::join\<close> for a relative component.\<close>

definition path_join :: "string \<Rightarrow> string \<Rightarrow> string" where
  "path_join base p = (if base = [] then p else if last base = CHR ''/'' then base @ p else base @ ''/'' @ p)"

definition attempt_root_of :: "('w, 'h) agent_env \<Rightarrow> 'h executor \<Rightarrow> attempt_id \<Rightarrow> string" where
  "attempt_root_of E ex aid = path_join (ex_attempts_base ex) (ae_hyph E aid)"

definition attempt_root_exists :: "('w, 'h) agent_env \<Rightarrow> attempt_id \<Rightarrow> 'h executor \<times> 'w \<Rightarrow> bool" where
  "attempt_root_exists E aid = (\<lambda>(ex, w).
     case bt_get (ex_live ex) aid of
       Some a \<Rightarrow> ae_exists E (la_attempt_root a) w
     | None \<Rightarrow> ae_exists E (attempt_root_of E ex aid) w)"

definition fresh_root :: "('w, 'h) agent_env \<Rightarrow> string \<Rightarrow> ('w, unit) action" where
  "fresh_root E root =
     act_then
       (\<lambda>w. if ae_exists E root w
            then act_with (\<lambda>e. AttemptRoot (''clear attempt root: '' @ e)) (ae_remove_dir_all E root) w
            else (Inr (), w))
       (\<lambda>_. act_with (\<lambda>e. AttemptRoot (''create attempt root: '' @ e)) (ae_create_dir_all E root))"

definition attempt_token :: "accepted_placement \<Rightarrow> secret_plan \<Rightarrow> agent_error + bytes option" where
  "attempt_token p secrets =
     (if ap_hiccup p \<noteq> None then
        (case find (\<lambda>v. sv_logical_name v = token_fd_env) (sp_values secrets) of
           None \<Rightarrow> Inl (AgentDriver ''Hiccup placement lacks Gump-generated attempt token'')
         | Some v \<Rightarrow>
             if length (sv_bytes v) \<noteq> token_bytes
             then Inl (AgentDriver ''Hiccup attempt token must be 32 bytes'') else Inr (Some (sv_bytes v)))
      else Inr None)"

definition launch ::
  "('w, 'h) agent_env \<Rightarrow> accepted_placement \<Rightarrow> string \<Rightarrow> ('w, 'h \<times> bytes option) action" where
  "launch E p root =
     act_then (fresh_root E root) (\<lambda>_.
     act_then (act_with AgentDriver (ae_prepare E (ap_release_root p) (ap_runtime p) (ap_attempt_id p) root))
       (\<lambda>prepared.
     act_then (case ae_secrets E of
                 Some provider \<Rightarrow> act_with AgentDriver (provider p)
               | None \<Rightarrow> (\<lambda>w. (Inr plan_deferred, w))) (\<lambda>secrets.
     act_then (\<lambda>w. (attempt_token p secrets, w)) (\<lambda>token.
     act_then (act_with AgentDriver (ae_admit E prepared (Some 64) secrets)) (\<lambda>admission.
     act_then (act_with AgentDriver (ae_start E admission (ap_placement_fence p) (ap_attempt_id p))) (\<lambda>running.
       (\<lambda>w. (Inr (running, token), w))))))))"

definition live_of ::
  "accepted_placement \<Rightarrow> string \<Rightarrow> 'h \<Rightarrow> u64 \<Rightarrow> u32 \<Rightarrow> 'h live_attempt" where
  "live_of p root running now attempt_index =
     \<lparr>la_unit_id = ap_unit_id p, la_placement_fence = ap_placement_fence p,
      la_lifecycle_finite = ap_lifecycle_finite p, la_lifecycle = ap_lifecycle p,
      la_release_root = ap_release_root p, la_runtime = ap_runtime p,
      la_capsule_verified = ap_capsule_verified p, la_attempt_root = root, la_running = Some running,
      la_phase = PhRunning, la_last_obs = None, la_started_ms = now, la_attempt_index = attempt_index,
      la_readiness = check_runtime_default, la_liveness = check_runtime_default,
      la_ready = map_option (\<lambda>_. False) (lc_readiness (ap_lifecycle p)),
      la_publication_eligible = (if lc_declares_publication (ap_lifecycle p) then Some False else None),
      la_terminal_reason = None, la_hiccup = ap_hiccup p\<rparr>"

definition join_plane :: "accepted_placement \<Rightarrow> bytes option \<Rightarrow> hiccup_plane \<Rightarrow> hiccup_plane" where
  "join_plane p token pl =
     (case (ap_hiccup p, token) of
        (Some placement, Some t) \<Rightarrow>
          set_grant (ap_attempt_id p)
            \<lparr>hg_named_publish = hp_named_publish placement, hg_named_listen = hp_named_listen placement\<rparr>
            (install_session (ap_attempt_id p) (hp_workload_id placement) t pl)
      | _ \<Rightarrow> pl)"

definition start_placement ::
  "('w, 'h) agent_env \<Rightarrow> accepted_placement \<Rightarrow> u64 \<Rightarrow> u32 \<Rightarrow> ('h executor \<times> 'w, unit) action" where
  "start_placement E p now attempt_index = (\<lambda>(ex, w).
     case allow_effect (ex_authority ex) (ap_placement_fence p)
            (if attempt_index > 1 then EffRestart else EffStart) of
       Inl e \<Rightarrow> (Inl (AgentFence e), ex, w)
     | Inr _ \<Rightarrow>
         if \<not> ap_capsule_verified p then (Inl UnverifiedCapsule, ex, w)
         else if attempt_index = 1 \<and> ex_max_live ex \<le> length (ex_live ex) then (Inl AgentCapacity, ex, w)
         else if \<not> ae_is_dir E (ap_release_root p) w
           then (Inl (AttemptRoot (''release root missing: '' @ ap_release_root p)), ex, w)
         else
           (let root = attempt_root_of E ex (ap_attempt_id p)
            in case launch E p root w of
                 (Inl e, w1) \<Rightarrow> (Inl e, ex, w1)
               | (Inr (running, token), w1) \<Rightarrow>
                   (Inr (),
                    ex\<lparr>ex_hiccup := join_plane p token (ex_hiccup ex),
                       ex_live := bt_insert (ap_attempt_id p) (live_of p root running now attempt_index) (ex_live ex)\<rparr>,
                    w1)))"

section \<open>Cleaning up and stopping\<close>

definition update_live ::
  "attempt_id \<Rightarrow> ('h live_attempt \<Rightarrow> 'h live_attempt) \<Rightarrow> 'h executor \<Rightarrow> 'h executor" where
  "update_live aid f ex =
     (case bt_get (ex_live ex) aid of
        None \<Rightarrow> ex
      | Some a \<Rightarrow> ex\<lparr>ex_live := bt_insert aid (f a) (ex_live ex)\<rparr>)"

definition remove_attempt_root :: "('w, 'h) agent_env \<Rightarrow> string \<Rightarrow> ('w, unit) action" where
  "remove_attempt_root E root w =
     (if ae_exists E root w
      then act_with (\<lambda>e. AttemptRoot (''cleanup '' @ root @ '': '' @ e)) (ae_remove_dir_all E root) w
      else (Inr (), w))"

definition cleanup_live :: "('w, 'h) agent_env \<Rightarrow> attempt_id \<Rightarrow> ('h executor \<times> 'w, unit) action" where
  "cleanup_live E aid = (\<lambda>(ex, w).
     let ex1 = ex\<lparr>ex_hiccup := plane_remove_attempt (ae_json E) aid (ex_hiccup ex)\<rparr>
     in case bt_get (ex_live ex1) aid of
          None \<Rightarrow> (Inr (), ex1, w)
        | Some a \<Rightarrow>
            (let ex2 = ex1\<lparr>ex_live := bt_remove aid (ex_live ex1)\<rparr>
             in case la_running a of
                  Some running \<Rightarrow>
                    (let (prepared, w1) = ae_into_prepared E running w;
                         (res, w2) = act_with AgentDriver (ae_cleanup E prepared) w1
                     in (res, ex2, w2))
                | None \<Rightarrow>
                    if ae_exists E (la_attempt_root a) w
                    then (let (res, w1) = remove_attempt_root E (la_attempt_root a) w in (res, ex2, w1))
                    else (Inr (), ex2, w)))"

text \<open>\<open>driver.kill\<close> on a running handle; the handle stays in the entry.\<close>

definition kill_running ::
  "('w, 'h) agent_env \<Rightarrow> attempt_id \<Rightarrow> ('h executor \<times> 'w, unit) action" where
  "kill_running E aid = (\<lambda>(ex, w).
     case bt_get (ex_live ex) aid of
       None \<Rightarrow> (Inr (), ex, w)
     | Some a \<Rightarrow>
         (case la_running a of
            None \<Rightarrow> (Inr (), ex, w)
          | Some r \<Rightarrow>
              (let (res, r1, w1) = ae_kill E r w
               in (case res of Inl e \<Rightarrow> Inl (AgentDriver e) | Inr _ \<Rightarrow> Inr (),
                   update_live aid (\<lambda>a. a\<lparr>la_running := Some r1\<rparr>) ex, w1))))"

definition force_stop_cleanup :: "('w, 'h) agent_env \<Rightarrow> attempt_id \<Rightarrow> ('h executor \<times> 'w, unit) action" where
  "force_stop_cleanup E aid s = cleanup_live E aid (snd (kill_running E aid s))"

definition stop_driver ::
  "('w, 'h) agent_env \<Rightarrow> attempt_id \<Rightarrow> u64 \<Rightarrow> ('h executor \<times> 'w, unit) action" where
  "stop_driver E aid grace_ms = (\<lambda>(ex, w).
     case bt_get (ex_live ex) aid of
       None \<Rightarrow> (Inr (), ex, w)
     | Some a \<Rightarrow>
         (case la_running a of
            None \<Rightarrow> (Inr (), ex, w)
          | Some r \<Rightarrow>
              (let (_, r1, w1) = ae_terminate E r (min grace_ms 5000) w;
                   (seen, r2, w2) = ae_observe E r1 w1;
                   ex1 = update_live aid (\<lambda>a. a\<lparr>la_running := Some r2\<rparr>) ex
               in case seen of
                    Inl e \<Rightarrow> (Inl (AgentDriver e), ex1, w2)
                  | Inr obs \<Rightarrow> if ob_running obs then kill_running E aid (ex1, w2) else (Inr (), ex1, w2))))"

definition stopped_reason :: "'h live_attempt \<Rightarrow> 'h live_attempt" where
  "stopped_reason a =
     a\<lparr>la_phase := PhStopped,
       la_terminal_reason :=
         Some \<lparr>tr_code = reason_stop_signal, tr_detail = ''stopped by intent change or cancel'',
               tr_exit_code = None, tr_attempt_index = la_attempt_index a\<rparr>\<rparr>"

definition stop_and_cleanup :: "('w, 'h) agent_env \<Rightarrow> attempt_id \<Rightarrow> ('h executor \<times> 'w, unit) action" where
  "stop_and_cleanup E aid = (\<lambda>(ex, w).
     case bt_get (ex_live ex) aid of
       None \<Rightarrow> (Inl AgentNotFound, ex, w)
     | Some a \<Rightarrow>
         (case allow_effect (ex_authority ex) (la_placement_fence a) EffStop of
            Inl e \<Rightarrow> (Inl (AgentFence e), ex, w)
          | Inr _ \<Rightarrow>
              act_then (stop_driver E aid (max (lc_stop_grace_ms (la_lifecycle a)) 1)) (\<lambda>_.
                (\<lambda>(ex1, w1). cleanup_live E aid (update_live aid stopped_reason ex1, w1))) (ex, w)))"

definition cancel :: "('w, 'h) agent_env \<Rightarrow> attempt_id \<Rightarrow> ('h executor \<times> 'w, unit) action" where
  "cancel E aid = (\<lambda>(ex, w).
     case bt_get (ex_live ex) aid of
       None \<Rightarrow> (Inl AgentNotFound, ex, w)
     | Some a \<Rightarrow>
         (case allow_effect (ex_authority ex) (la_placement_fence a) EffStop of
            Inl e \<Rightarrow> (Inl (AgentFence e), ex, w)
          | Inr _ \<Rightarrow> stop_and_cleanup E aid (ex, w)))"

definition force_kill :: "('w, 'h) agent_env \<Rightarrow> attempt_id \<Rightarrow> ('h executor \<times> 'w, unit) action" where
  "force_kill E aid = (\<lambda>(ex, w).
     case bt_get (ex_live ex) aid of
       None \<Rightarrow> (Inl AgentNotFound, ex, w)
     | Some a \<Rightarrow>
         (case allow_effect (ex_authority ex) (la_placement_fence a) EffStop of
            Inl e \<Rightarrow> (Inl (AgentFence e), ex, w)
          | Inr _ \<Rightarrow> act_then (kill_running E aid) (\<lambda>_. cleanup_live E aid) (ex, w)))"

section \<open>Observation, exit policy and restart\<close>

text \<open>An identifier has 16 bytes; its last one seeds the jitter.\<close>

definition id_byte15 :: "attempt_id \<Rightarrow> nat" where
  "id_byte15 aid = (case drop 15 aid of [] \<Rightarrow> 0 | b # _ \<Rightarrow> unat b)"

definition release_handle ::
  "('w, 'h) agent_env \<Rightarrow> attempt_id \<Rightarrow> 'h live_attempt \<Rightarrow> 'h executor \<times> 'w \<Rightarrow> 'h executor \<times> 'w" where
  "release_handle E aid a = (\<lambda>(ex, w).
     case la_running a of
       None \<Rightarrow> (ex, w)
     | Some r \<Rightarrow>
         (let (prepared, w1) = ae_into_prepared E r w;
              (_, w2) = ae_cleanup E prepared w1
          in (update_live aid (\<lambda>a. a\<lparr>la_running := None\<rparr>) ex, w2)))"

definition schedule_retry :: "attempt_id \<Rightarrow> u64 \<Rightarrow> int option \<Rightarrow> 'h live_attempt \<Rightarrow> 'h live_attempt" where
  "schedule_retry aid now exit a =
     (let i = la_attempt_index a;
          backoff = backoff_ms (lc_retry (la_lifecycle a)) i (sat_add64 (id_byte15 aid) now)
      in a\<lparr>la_phase := PhAwaitingRestart (sat_add64 now backoff),
           la_terminal_reason :=
             Some \<lparr>tr_code = reason_retry_scheduled,
                   tr_detail = ''retry after '' @ show_nat backoff @ ''ms (attempt '' @ show_nat i @ '')'',
                   tr_exit_code = exit, tr_attempt_index = i\<rparr>,
           la_attempt_index := sat_add32 i 1,
           la_ready := (if lc_readiness (la_lifecycle a) \<noteq> None then Some False else None),
           la_publication_eligible :=
             (if lc_declares_publication (la_lifecycle a) then Some False else la_publication_eligible a)\<rparr>)"

definition fail_permanently :: "int option \<Rightarrow> 'h live_attempt \<Rightarrow> 'h live_attempt" where
  "fail_permanently exit a =
     a\<lparr>la_phase := PhPermanentFailure,
       la_terminal_reason :=
         Some (terminal_permanent
           (if la_lifecycle_finite a then ''finite workload failed without remaining retries''
            else ''continuous workload exited; no remaining retries'') exit (la_attempt_index a))\<rparr>"

definition apply_exit_policy ::
  "('w, 'h) agent_env \<Rightarrow> attempt_id \<Rightarrow> observation \<Rightarrow> u64 \<Rightarrow> ('h executor \<times> 'w, unit) action" where
  "apply_exit_policy E aid obs now = (\<lambda>(ex, w).
     case bt_get (ex_live ex) aid of
       None \<Rightarrow> (Inl AgentNotFound, ex, w)
     | Some a \<Rightarrow>
         (let isolated = is_isolated (ex_authority ex);
              exit = ob_exit_code obs;
              retry = lc_retry (la_lifecycle a);
              (ex1, w1) = release_handle E aid a (update_live aid (\<lambda>a. a\<lparr>la_last_obs := Some obs\<rparr>) ex, w)
          in if la_lifecycle_finite a \<and> exit = Some 0 then
               (let ex2 = update_live aid (\<lambda>a. a\<lparr>la_phase := PhTerminal exit,
                                                la_terminal_reason := Some (terminal_completed exit)\<rparr>) ex1
                in if \<not> isolated
                   then cleanup_live E aid
                          (ex2\<lparr>ex_completed := insert aid (ex_completed ex2),
                               ex_completion_events := insert aid (ex_completion_events ex2)\<rparr>, w1)
                   else (Inr (), ex2, w1))
             else if retry_enabled retry \<and> la_attempt_index a < rp_max_attempts retry \<and> \<not> isolated
               then (Inr (), update_live aid (schedule_retry aid now exit) ex1, w1)
             else (Inr (), update_live aid (fail_permanently exit) ex1, w1)))"

definition observed ::
  "('w, 'h) agent_env \<Rightarrow> attempt_id \<Rightarrow> observation \<Rightarrow> u64 \<Rightarrow> ('h executor \<times> 'w, unit) action" where
  "observed E aid obs now s =
     (if ob_running obs
      then (Inr (), update_live aid (\<lambda>a. a\<lparr>la_phase := PhRunning, la_last_obs := Some obs\<rparr>) (fst s), snd s)
      else apply_exit_policy E aid obs now s)"

definition parked :: "attempt_phase \<Rightarrow> bool" where
  "parked ph = (case ph of PhAwaitingRestart _ \<Rightarrow> True | PhPermanentFailure \<Rightarrow> True | _ \<Rightarrow> False)"

definition observe_one ::
  "('w, 'h) agent_env \<Rightarrow> attempt_id \<Rightarrow> u64 \<Rightarrow> ('h executor \<times> 'w, unit) action" where
  "observe_one E aid now = (\<lambda>(ex, w).
     case bt_get (ex_live ex) aid of
       None \<Rightarrow> (Inl AgentNotFound, ex, w)
     | Some a \<Rightarrow>
         (case require_fence (ex_authority ex) (la_placement_fence a) of
            Inl e \<Rightarrow> (Inl (AgentFence e), ex, w)
          | Inr _ \<Rightarrow>
              if parked (la_phase a) then (Inr (), ex, w)
              else (case la_running a of
                      Some r \<Rightarrow>
                        (let (seen, r1, w1) = ae_observe E r w;
                             ex1 = update_live aid (\<lambda>a. a\<lparr>la_running := Some r1\<rparr>) ex
                         in case seen of
                              Inl e \<Rightarrow> (Inl (AgentDriver e), ex1, w1)
                            | Inr obs \<Rightarrow> observed E aid obs now (ex1, w1))
                    | None \<Rightarrow>
                        observed E aid
                          \<lparr>ob_running = False,
                           ob_exit_code = (case la_phase a of PhTerminal ec \<Rightarrow> ec | _ \<Rightarrow> None)\<rparr> now (ex, w))))"

definition placement_of :: "attempt_id \<Rightarrow> 'h live_attempt \<Rightarrow> accepted_placement" where
  "placement_of aid a =
     \<lparr>ap_attempt_id = aid, ap_unit_id = la_unit_id a, ap_placement_fence = la_placement_fence a,
      ap_release_root = la_release_root a, ap_runtime = la_runtime a,
      ap_lifecycle_finite = la_lifecycle_finite a, ap_capsule_verified = la_capsule_verified a,
      ap_lifecycle = la_lifecycle a, ap_hiccup = la_hiccup a\<rparr>"

definition maybe_restart ::
  "('w, 'h) agent_env \<Rightarrow> attempt_id \<Rightarrow> u64 \<Rightarrow> ('h executor \<times> 'w, unit) action" where
  "maybe_restart E aid now = (\<lambda>(ex, w).
     case bt_get (ex_live ex) aid of
       None \<Rightarrow> (Inr (), ex, w)
     | Some a \<Rightarrow>
         (case la_phase a of
            PhAwaitingRestart after \<Rightarrow>
              if now < after then (Inr (), ex, w)
              else start_placement E (placement_of aid a) now (la_attempt_index a)
                     (ex\<lparr>ex_live := bt_remove aid (ex_live ex)\<rparr>, w)
          | _ \<Rightarrow> (Inr (), ex, w)))"

section \<open>Health checks\<close>

definition run_http_with_hiccup ::
  "('w, 'h) agent_env \<Rightarrow> attempt_id \<Rightarrow> check_spec \<Rightarrow> hiccup_placement \<Rightarrow> bytes \<Rightarrow> u64 \<Rightarrow> u64 \<Rightarrow> nat \<Rightarrow>
    'h executor \<times> 'w \<Rightarrow> check_outcome \<times> 'h executor \<times> 'w" where
  "run_http_with_hiccup E aid spec placement unit fence now deadline = (\<lambda>(ex, w).
     let (spent, w1) = budget_exhausted E deadline w
     in if spent then (skipped_outcome, ex, w1)
        else
          (let (left, w2) = budget_remaining E deadline w1;
               timeout = min (millis (max (cs_timeout_ms spec) 1)) left;
               (start, w3) = hn_now E w2;
               plan = (case plane_plan (ae_hyph E) (ae_json E) (ex_hiccup ex) aid of
                         Some (OutPost authorization body content_type) \<Rightarrow>
                           PostPlan authorization content_type body
                       | _ \<Rightarrow> GetOffer)
           in case http_exchange E (cs_target spec) timeout plan w3 of
                (Inl detail, w4) \<Rightarrow>
                  (let (elapsed, w5) = elapsed_since E start w4
                   in (failed_outcome reason_check_timeout detail elapsed, ex, w5))
              | (Inr x, w4) \<Rightarrow>
                  (let (random, w5) =
                         (if hx_ok x \<and> \<not> bt_has (pl_sessions (ex_hiccup ex)) aid then ae_random E w4 else ([], w4));
                       ctx = \<lparr>hc_placement = placement, hc_unit_id = unit, hc_attempt_id = aid,
                              hc_fence = fence, hc_content_type = hx_content_type x, hc_body = hx_body x,
                              hc_health_interval_ms = cs_interval_ms spec, hc_now_ms = now\<rparr>;
                       ex1 = (if hx_ok x
                              then ex\<lparr>ex_hiccup := snd (on_health_ok (ae_hyph E) (ae_digest E) (ae_json E)
                                                        random ctx (ex_hiccup ex))\<rparr>
                              else ex);
                       (elapsed, w6) = elapsed_since E start w5
                   in (if hx_ok x then ok_outcome elapsed
                       else failed_outcome reason_readiness_failed (''http status '' @ show_nat (hx_status x)) elapsed,
                       ex1, w6))))"

definition run_probe ::
  "('w, 'h) agent_env \<Rightarrow> attempt_id \<Rightarrow> bool \<Rightarrow> check_spec \<Rightarrow> 'h live_attempt \<Rightarrow> bool \<Rightarrow> u64 \<Rightarrow> nat \<Rightarrow>
    'h executor \<times> 'w \<Rightarrow> check_outcome \<times> 'h executor \<times> 'w" where
  "run_probe E aid for_liveness spec a process_running now deadline = (\<lambda>(ex, w).
     case (cs_kind spec, la_hiccup a) of
       (CheckHttp, Some bind) \<Rightarrow>
         if hp_bind_liveness bind = for_liveness
         then run_http_with_hiccup E aid spec bind (la_unit_id a) (la_placement_fence a) now deadline (ex, w)
         else (let (out, w1) = run_check E spec process_running deadline w in (out, ex, w1))
     | _ \<Rightarrow> (let (out, w1) = run_check E spec process_running deadline w in (out, ex, w1)))"

definition note_readiness :: "check_outcome \<Rightarrow> check_spec \<Rightarrow> u64 \<Rightarrow> 'h live_attempt \<Rightarrow> 'h live_attempt" where
  "note_readiness out spec now a =
     (let cr = check_record (co_ok out) spec ((la_readiness a)\<lparr>cr_last_run_ms := now\<rparr>)
      in a\<lparr>la_readiness := cr, la_ready := Some (cr_passed cr),
           la_publication_eligible :=
             (if lc_declares_publication (la_lifecycle a) then Some (cr_passed cr) else la_publication_eligible a)\<rparr>)"

definition note_liveness :: "check_outcome \<Rightarrow> check_spec \<Rightarrow> u64 \<Rightarrow> 'h live_attempt \<Rightarrow> 'h live_attempt" where
  "note_liveness out spec now a =
     (let cr = check_record (co_ok out) spec ((la_liveness a)\<lparr>cr_last_run_ms := now\<rparr>)
      in a\<lparr>la_liveness := cr,
           la_terminal_reason :=
             (if max (cs_failure_threshold spec) 1 \<le> cr_consecutive_failure cr
              then Some \<lparr>tr_code = reason_liveness_failed, tr_detail = co_detail out, tr_exit_code = None,
                         tr_attempt_index = la_attempt_index a\<rparr>
              else la_terminal_reason a)\<rparr>)"

definition readiness_tick ::
  "('w, 'h) agent_env \<Rightarrow> attempt_id \<Rightarrow> 'h live_attempt \<Rightarrow> bool \<Rightarrow> u64 \<Rightarrow> nat \<Rightarrow>
    'h executor \<times> 'w \<Rightarrow> 'h executor \<times> 'w" where
  "readiness_tick E aid a process_running now deadline s =
     (case lc_readiness (la_lifecycle a) of
        None \<Rightarrow> s
      | Some spec \<Rightarrow>
          if check_due now (la_started_ms a) spec (la_readiness a)
          then (let (out, ex1, w1) = run_probe E aid False spec a process_running now deadline s
                in (update_live aid (note_readiness out spec now) ex1, w1))
          else s)"

definition liveness_lost :: "'h executor \<Rightarrow> attempt_id \<Rightarrow> bool" where
  "liveness_lost ex aid =
     (case bt_get (ex_live ex) aid of
        None \<Rightarrow> False
      | Some a \<Rightarrow>
          (case la_terminal_reason a of None \<Rightarrow> False | Some t \<Rightarrow> tr_code t = reason_liveness_failed))"

definition liveness_tick ::
  "('w, 'h) agent_env \<Rightarrow> attempt_id \<Rightarrow> 'h live_attempt \<Rightarrow> bool \<Rightarrow> u64 \<Rightarrow> nat \<Rightarrow> ('h executor \<times> 'w, unit) action"
where
  "liveness_tick E aid a process_running now deadline s =
     (case lc_liveness (la_lifecycle a) of
        None \<Rightarrow> (Inr (), s)
      | Some spec \<Rightarrow>
          if check_due now (la_started_ms a) spec (la_liveness a)
          then (let (out, ex1, w1) = run_probe E aid True spec a process_running now deadline s;
                    ex2 = update_live aid (note_liveness out spec now) ex1
                in if liveness_lost ex2 aid
                   then apply_exit_policy E aid \<lparr>ob_running = False, ob_exit_code = None\<rparr> now
                          (snd (kill_running E aid (ex2, w1)))
                   else (Inr (), ex2, w1))
          else (Inr (), s))"

definition tick_checks ::
  "('w, 'h) agent_env \<Rightarrow> attempt_id \<Rightarrow> u64 \<Rightarrow> nat \<Rightarrow> ('h executor \<times> 'w, unit) action" where
  "tick_checks E aid now deadline s =
     (case bt_get (ex_live (fst s)) aid of
        None \<Rightarrow> (Inr (), s)
      | Some a \<Rightarrow>
          if la_phase a \<noteq> PhRunning then (Inr (), s)
          else
            (let process_running = (case la_last_obs a of None \<Rightarrow> True | Some obs \<Rightarrow> ob_running obs)
             in liveness_tick E aid a process_running now deadline
                  (readiness_tick E aid a process_running now deadline s)))"

section \<open>One reconcile pass\<close>

definition reconcile_isolated ::
  "('w, 'h) agent_env \<Rightarrow> u64 \<Rightarrow> ('h executor \<times> 'w, attempt_report list) action" where
  "reconcile_isolated E now = (\<lambda>(ex, w).
     act_then (for_each (\<lambda>aid. observe_one E aid now) (map fst (ex_live ex))) (\<lambda>_ s. (Inr [], s)) (ex, w))"

definition reconcile_expired ::
  "('w, 'h) agent_env \<Rightarrow> ('h executor \<times> 'w, attempt_report list) action" where
  "reconcile_expired E = (\<lambda>(ex, w).
     (Inl (AgentFence GraceExpired),
      fold (\<lambda>aid s. snd (force_stop_cleanup E aid s)) (map fst (ex_live ex)) (ex, w)))"

definition start_desired ::
  "('w, 'h) agent_env \<Rightarrow> u64 \<Rightarrow> accepted_placement \<Rightarrow> ('h executor \<times> 'w, unit) action" where
  "start_desired E now p s =
     (if bt_has (ex_live (fst s)) (ap_attempt_id p) \<or> ap_attempt_id p \<in> ex_completed (fst s) then (Inr (), s)
      else start_placement E p now 1 s)"

definition supervise ::
  "('w, 'h) agent_env \<Rightarrow> u64 \<Rightarrow> nat \<Rightarrow> attempt_id \<Rightarrow> ('h executor \<times> 'w, unit) action" where
  "supervise E now deadline aid =
     act_then (maybe_restart E aid now) (\<lambda>_.
     act_then (observe_one E aid now) (\<lambda>_. tick_checks E aid now deadline))"

definition reconcile_connected ::
  "('w, 'h) agent_env \<Rightarrow> accepted_placement list \<Rightarrow> u64 \<Rightarrow> ('h executor \<times> 'w, attempt_report list) action"
where
  "reconcile_connected E desired now = (\<lambda>(ex, w).
     let ids = set (map ap_attempt_id desired);
         ex1 = ex\<lparr>ex_completed := ex_completed ex \<inter> ids,
                  ex_completion_events := ex_completion_events ex \<inter> ids\<rparr>;
         obsolete = filter (\<lambda>aid. aid \<notin> ids) (map fst (ex_live ex1))
     in act_then (for_each (stop_and_cleanup E) obsolete) (\<lambda>_.
        act_then (for_each (start_desired E now) desired) (\<lambda>_ (ex2, w2).
          let (deadline, w3) = budget_new E (ex_check_budget_ms ex2) w2
          in act_then (for_each (supervise E now deadline) (map fst (ex_live ex2))) (\<lambda>_ (ex4, w4).
               (Inr (map (\<lambda>(aid, a). make_report E w4 aid a) (ex_live ex4)), ex4, w4)) (ex2, w3))) (ex1, w))"

definition reconcile ::
  "('w, 'h) agent_env \<Rightarrow> accepted_placement list \<Rightarrow> u64 \<Rightarrow> ('h executor \<times> 'w, attempt_report list) action"
where
  "reconcile E desired now s =
     (if isolation_grace_expired (ex_authority (fst s)) (ex_isolation (fst s)) now then reconcile_expired E s
      else if is_isolated (ex_authority (fst s)) then reconcile_isolated E now s
      else reconcile_connected E desired now s)"

end
