(* ===== verification/Agent_Invariant.thy ===== *)
theory Agent_Invariant
  imports Agent_Reconcile
begin

text \<open>
  The invariant of the agent: every operation of the executor, whatever the driver, the host and the
  probes answer, keeps the live attempts within their declared policy.
\<close>

section \<open>Actions that keep a predicate\<close>

definition keeps :: "('s \<Rightarrow> bool) \<Rightarrow> ('s, 'a) action \<Rightarrow> bool" where
  "keeps P m \<longleftrightarrow> (\<forall>s. P s \<longrightarrow> P (snd (m s)))"

lemma keepsI: "(\<And>s. P s \<Longrightarrow> P (snd (m s))) \<Longrightarrow> keeps P m"
  by (simp add: keeps_def)

lemma keepsD: "keeps P m \<Longrightarrow> P s \<Longrightarrow> P (snd (m s))"
  by (simp add: keeps_def)

lemma keeps_then:
  assumes "keeps P m" and "\<And>a. keeps P (f a)"
  shows "keeps P (act_then m f)"
proof (rule keepsI)
  fix s
  assume "P s"
  with assms(1) have "P (snd (m s))" by (rule keepsD)
  then show "P (snd (act_then m f s))"
    using assms(2) by (auto simp: act_then_def keeps_def split: prod.splits sum.splits)
qed

lemma keeps_for_each: "(\<And>x. x \<in> set xs \<Longrightarrow> keeps P (f x)) \<Longrightarrow> keeps P (for_each f xs)"
proof (induction xs)
  case (Cons x xs)
  have "keeps P (act_then (f x) (\<lambda>_. for_each f xs))"
    by (rule keeps_then) (use Cons in auto)
  then show ?case by (simp add: keeps_def)
qed (simp add: keeps_def)

section \<open>The invariant of the executor\<close>

definition attempt_ok :: "'h live_attempt \<Rightarrow> bool" where
  "attempt_ok a \<longleftrightarrow>
     la_capsule_verified a \<and> 1 \<le> la_attempt_index a \<and>
     la_attempt_index a \<le> max 1 (rp_max_attempts (lc_retry (la_lifecycle a))) \<and>
     (\<forall>t. la_phase a = PhAwaitingRestart t \<longrightarrow> 2 \<le> la_attempt_index a)"

definition agent_ok :: "attempt_id set \<Rightarrow> 'h executor \<Rightarrow> bool" where
  "agent_ok C ex \<longleftrightarrow>
     bt_ok (ex_live ex) \<and> length (ex_live ex) \<le> ex_max_live ex \<and>
     ex_max_live ex = default_max_live_attempts \<and> C \<subseteq> ex_completed ex \<and>
     ex_completion_events ex \<subseteq> ex_completed ex \<and>
     (\<forall>aid a. bt_get (ex_live ex) aid = Some a \<longrightarrow> attempt_ok a \<and> aid \<notin> ex_completed ex)"

lemma agent_okD:
  assumes "agent_ok C ex"
  shows "bt_ok (ex_live ex)" and "length (ex_live ex) \<le> ex_max_live ex"
    and "ex_completion_events ex \<subseteq> ex_completed ex"
    and "bt_get (ex_live ex) aid = Some a \<Longrightarrow> attempt_ok a"
    and "bt_get (ex_live ex) aid = Some a \<Longrightarrow> aid \<notin> ex_completed ex"
    and "ex_max_live ex = default_max_live_attempts" and "C \<subseteq> ex_completed ex"
  using assms by (auto simp: agent_ok_def)

lemma agent_ok_frame:
  assumes "agent_ok C ex" and "ex_live ex' = ex_live ex" and "ex_max_live ex' = ex_max_live ex"
    and "ex_completed ex' \<subseteq> ex_completed ex" and "C \<subseteq> ex_completed ex'" and "ex_completion_events ex' \<subseteq> ex_completed ex'"
  shows "agent_ok C ex'"
  using assms by (auto simp: agent_ok_def)

lemma agent_ok_live:
  assumes ok: "agent_ok C ex" and m: "bt_ok m" "length m \<le> ex_max_live ex"
    and e: "\<And>aid a. bt_get m aid = Some a \<Longrightarrow> attempt_ok a \<and> aid \<notin> ex_completed ex"
  shows "agent_ok C (ex\<lparr>ex_live := m\<rparr>)"
  using agent_okD(3,6,7) [OF ok] m e by (auto simp: agent_ok_def)

lemma agent_ok_hiccup [simp]: "agent_ok C (ex\<lparr>ex_hiccup := pl\<rparr>) \<longleftrightarrow> agent_ok C ex"
  by (simp add: agent_ok_def)

lemma update_live_ok:
  assumes ok: "agent_ok C ex"
    and f: "\<And>a. bt_get (ex_live ex) aid = Some a \<Longrightarrow> attempt_ok a \<Longrightarrow> attempt_ok (f a)"
  shows "agent_ok C (update_live aid f ex)"
proof (cases "bt_get (ex_live ex) aid")
  case (Some a)
  have "length (bt_insert aid (f a) (ex_live ex)) = length (ex_live ex)"
    using Some bt_length_insert [OF agent_okD(1) [OF ok], of aid "f a"] by (simp add: bt_has_def)
  moreover have "bt_get (bt_insert aid (f a) (ex_live ex)) k = Some b \<Longrightarrow> attempt_ok b \<and> k \<notin> ex_completed ex" for k b
    using Some f [of a] agent_okD(4,5) [OF ok] by (auto simp: bt_simps agent_okD(1) [OF ok] split: if_splits)
  ultimately show ?thesis
    using agent_ok_live [OF ok, of "bt_insert aid (f a) (ex_live ex)"] Some agent_okD(1,2) [OF ok]
    by (simp add: update_live_def bt_intros)
qed (simp add: update_live_def ok)

lemma update_live_frame [simp]:
  "ex_authority (update_live aid f ex) = ex_authority ex"
  "ex_completed (update_live aid f ex) = ex_completed ex"
  "ex_completion_events (update_live aid f ex) = ex_completion_events ex"
  "ex_max_live (update_live aid f ex) = ex_max_live ex"
  "ex_isolation (update_live aid f ex) = ex_isolation ex"
  "ex_hiccup (update_live aid f ex) = ex_hiccup ex"
  "ex_attempts_base (update_live aid f ex) = ex_attempts_base ex"
  "ex_check_budget_ms (update_live aid f ex) = ex_check_budget_ms ex"
  by (simp_all add: update_live_def split: option.splits)

lemma attempt_ok_running [simp]: "attempt_ok (a\<lparr>la_running := h\<rparr>) \<longleftrightarrow> attempt_ok a"
  by (simp add: attempt_ok_def)

lemma attempt_ok_notes:
  "attempt_ok (a\<lparr>la_last_obs := ob\<rparr>) \<longleftrightarrow> attempt_ok a"
  "attempt_ok (note_readiness out spec now a) \<longleftrightarrow> attempt_ok a"
  "attempt_ok (note_liveness out spec now a) \<longleftrightarrow> attempt_ok a"
  "attempt_ok a \<Longrightarrow> attempt_ok (a\<lparr>la_phase := PhRunning\<rparr>)"
  "attempt_ok a \<Longrightarrow> attempt_ok (a\<lparr>la_phase := PhTerminal ec, la_terminal_reason := r\<rparr>)"
  "attempt_ok a \<Longrightarrow> attempt_ok (fail_permanently ec a)"
  "attempt_ok a \<Longrightarrow> attempt_ok (stopped_reason a)"
  by (auto simp: attempt_ok_def note_readiness_def note_liveness_def fail_permanently_def stopped_reason_def Let_def)

lemma schedule_retry_ok:
  assumes "attempt_ok a" and "la_attempt_index a < rp_max_attempts (lc_retry (la_lifecycle a))"
  shows "attempt_ok (schedule_retry aid now ec a)"
  using assms by (auto simp: attempt_ok_def schedule_retry_def Let_def sat_add32_def u32_max_def)

text \<open>Cleaning up removes the entry whatever the driver answers.\<close>

lemma cleanup_live_effect:
  "fst (snd (cleanup_live E aid s)) =
     (fst s)\<lparr>ex_hiccup := plane_remove_attempt (ae_json E) aid (ex_hiccup (fst s)),
             ex_live := bt_remove aid (ex_live (fst s))\<rparr>"
  by (cases s)
    (auto simp: cleanup_live_def Let_def bt_remove_absent split: option.splits prod.splits)

lemma agent_ok_without:
  assumes "bt_ok (ex_live ex)" and "length (ex_live ex) \<le> ex_max_live ex"
    and "ex_max_live ex = default_max_live_attempts" and "C \<subseteq> ex_completed ex"
    and "ex_completion_events ex \<subseteq> ex_completed ex"
    and "\<And>k a. k \<noteq> aid \<Longrightarrow> bt_get (ex_live ex) k = Some a \<Longrightarrow> attempt_ok a \<and> k \<notin> ex_completed ex"
  shows "agent_ok C (ex\<lparr>ex_live := bt_remove aid (ex_live ex)\<rparr>)"
  using assms bt_length_remove_le [of aid "ex_live ex"]
  by (auto simp: agent_ok_def bt_intros bt_simps split: if_splits)

abbreviation keeps_ok :: "attempt_id set \<Rightarrow> ('h executor \<times> 'w, 'a) action \<Rightarrow> bool" where
  "keeps_ok C \<equiv> keeps (\<lambda>s. agent_ok C (fst s))"

lemma cleanup_live_ok: "keeps_ok C (cleanup_live E aid)"
proof (rule keepsI)
  fix s :: "'a executor \<times> 'b"
  assume "agent_ok C (fst s)"
  then have "agent_ok C ((fst s)\<lparr>ex_live := bt_remove aid (ex_live (fst s))\<rparr>)"
    by (intro agent_ok_without) (auto dest: agent_okD)
  then show "agent_ok C (fst (snd (cleanup_live E aid s)))"
    by (simp add: cleanup_live_effect agent_ok_def)
qed

lemma kill_running_ok: "keeps_ok C (kill_running E aid)"
  by (rule keepsI)
    (auto simp: kill_running_def Let_def intro!: update_live_ok split: option.splits prod.splits)

lemma stop_driver_ok: "keeps_ok C (stop_driver E aid grace)"
proof (rule keepsI)
  fix s :: "'a executor \<times> 'b"
  assume ok: "agent_ok C (fst s)"
  have up: "agent_ok C (update_live aid (\<lambda>a. a\<lparr>la_running := Some r\<rparr>) (fst s))" for r
    by (rule update_live_ok) (use ok in auto)
  have "agent_ok C (fst (snd (kill_running E aid (update_live aid (\<lambda>a. a\<lparr>la_running := Some r\<rparr>) (fst s), w))))" for r w
    using keepsD [OF kill_running_ok, where s = "(update_live aid (\<lambda>a. a\<lparr>la_running := Some r\<rparr>) (fst s), w)"] up by simp
  with ok up show "agent_ok C (fst (snd (stop_driver E aid grace s)))"
    by (cases s) (auto simp: stop_driver_def Let_def split: option.splits prod.splits sum.splits)
qed

lemma stop_and_cleanup_ok: "keeps_ok C (stop_and_cleanup E aid)"
proof (rule keepsI)
  fix s :: "'a executor \<times> 'b"
  assume ok: "agent_ok C (fst s)"
  have "keeps_ok C (\<lambda>(ex1, w1). cleanup_live E aid (update_live aid stopped_reason ex1, w1))"
  proof (rule keepsI)
    fix s :: "'a executor \<times> 'b"
    assume "agent_ok C (fst s)"
    then have "agent_ok C (fst (update_live aid stopped_reason (fst s), snd s))"
      by (auto intro: update_live_ok attempt_ok_notes)
    then show "agent_ok C (fst (snd ((\<lambda>(ex1, w1). cleanup_live E aid (update_live aid stopped_reason ex1, w1)) s)))"
      using keepsD [OF cleanup_live_ok, where s = "(update_live aid stopped_reason (fst s), snd s)"] by (cases s) simp
  qed
  then have "keeps_ok C (act_then (stop_driver E aid g) (\<lambda>_. (\<lambda>(ex1, w1).
      cleanup_live E aid (update_live aid stopped_reason ex1, w1))))" for g
    by (intro keeps_then stop_driver_ok)
  from keepsD [OF this, where s = s] ok show "agent_ok C (fst (snd (stop_and_cleanup E aid s)))"
    by (cases s) (auto simp: stop_and_cleanup_def split: option.splits sum.splits)
qed

lemma cancel_ok: "keeps_ok C (cancel E aid)"
proof (rule keepsI)
  fix s :: "'a executor \<times> 'b"
  assume "agent_ok C (fst s)"
  with keepsD [OF stop_and_cleanup_ok, where s = s] show "agent_ok C (fst (snd (cancel E aid s)))"
    by (cases s) (auto simp: cancel_def split: option.splits sum.splits)
qed

lemma force_kill_ok: "keeps_ok C (force_kill E aid)"
proof (rule keepsI)
  fix s :: "'a executor \<times> 'b"
  assume ok: "agent_ok C (fst s)"
  have "keeps_ok C (act_then (kill_running E aid) (\<lambda>_. cleanup_live E aid))"
    by (intro keeps_then kill_running_ok cleanup_live_ok)
  from keepsD [OF this, where s = s] ok show "agent_ok C (fst (snd (force_kill E aid s)))"
    by (cases s) (auto simp: force_kill_def split: option.splits sum.splits)
qed

lemma force_stop_cleanup_ok: "keeps_ok C (force_stop_cleanup E aid)"
  by (rule keepsI) (simp add: force_stop_cleanup_def keepsD [OF cleanup_live_ok] keepsD [OF kill_running_ok])

lemma start_placement_ok:
  assumes ok: "agent_ok C ex" and fresh: "ap_attempt_id p \<notin> ex_completed ex"
    and i: "i = 1 \<or> (2 \<le> i \<and> i \<le> rp_max_attempts (lc_retry (ap_lifecycle p)) \<and> length (ex_live ex) < ex_max_live ex)"
  shows "agent_ok C (fst (snd (start_placement E p now i (ex, w))))"
proof -
  have ins: "agent_ok C (ex\<lparr>ex_live := bt_insert (ap_attempt_id p) (live_of p root r now i) (ex_live ex)\<rparr>)"
    if "ap_capsule_verified p" and "\<not> (i = 1 \<and> ex_max_live ex \<le> length (ex_live ex))" for root r
  proof (rule agent_ok_live [OF ok])
    show "bt_ok (bt_insert (ap_attempt_id p) (live_of p root r now i) (ex_live ex))"
      by (intro bt_intros agent_okD [OF ok])
    show "length (bt_insert (ap_attempt_id p) (live_of p root r now i) (ex_live ex)) \<le> ex_max_live ex"
      using that i by (auto simp: bt_length_insert [OF agent_okD(1) [OF ok]])
    have "attempt_ok (live_of p root r now i)"
      using that i by (auto simp: attempt_ok_def live_of_def)
    then show "attempt_ok a \<and> aid \<notin> ex_completed ex"
      if "bt_get (bt_insert (ap_attempt_id p) (live_of p root r now i) (ex_live ex)) aid = Some a" for aid a
      using that fresh agent_okD(4,5) [OF ok] by (auto simp: bt_simps agent_okD(1) [OF ok] split: if_splits)
  qed
  have "agent_ok C (ex\<lparr>ex_hiccup := pl, ex_live := bt_insert (ap_attempt_id p) (live_of p root r now i) (ex_live ex)\<rparr>)"
    if "ap_capsule_verified p" and "\<not> (i = 1 \<and> ex_max_live ex \<le> length (ex_live ex))" for root r pl
    using ins [OF that, of root r] by (simp add: agent_ok_def)
  with ok show ?thesis
    by (auto simp: start_placement_def Let_def split: sum.splits prod.splits)
qed

lemma release_handle_ok:
  assumes "agent_ok C (fst s)"
  shows "agent_ok C (fst (release_handle E aid a s))"
  using assms
  by (cases s) (auto simp: release_handle_def Let_def intro!: update_live_ok split: option.splits prod.splits)

lemma release_handle_fst:
  "fst (release_handle E aid a s) = (if la_running a = None then fst s else update_live aid (\<lambda>a. a\<lparr>la_running := None\<rparr>) (fst s))"
  by (cases "la_running a") (simp_all add: release_handle_def Let_def case_prod_beta)

lemma release_handle_frame [simp]:
  "ex_completed (fst (release_handle E aid a s)) = ex_completed (fst s)"
  "ex_completion_events (fst (release_handle E aid a s)) = ex_completion_events (fst s)"
  "ex_authority (fst (release_handle E aid a s)) = ex_authority (fst s)"
  unfolding release_handle_fst by simp_all

lemma bt_get_update_live:
  "bt_ok (ex_live ex) \<Longrightarrow> bt_get (ex_live (update_live aid f ex)) k =
     (if k = aid then map_option f (bt_get (ex_live ex) aid) else bt_get (ex_live ex) k)"
  by (auto simp: update_live_def bt_simps split: option.splits)

lemma bt_ok_update_live: "bt_ok (ex_live ex) \<Longrightarrow> bt_ok (ex_live (update_live aid f ex))"
  by (auto simp: update_live_def bt_intros split: option.splits)

lemma release_handle_entry:
  assumes "bt_ok (ex_live (fst s))" and "bt_get (ex_live (fst s)) aid = Some b"
  shows "\<exists>h. bt_get (ex_live (fst (release_handle E aid a s))) aid = Some (b\<lparr>la_running := h\<rparr>)"
proof (cases "la_running a")
  case None
  then show ?thesis using assms
    by (cases s) (auto simp: release_handle_def intro: exI [of _ "la_running b"])
next
  case (Some r)
  then show ?thesis using assms
    by (cases s) (auto simp: release_handle_def Let_def bt_get_update_live split: prod.splits)
qed

lemma apply_exit_policy_ok: "keeps_ok C (apply_exit_policy E aid obs now)"
proof (rule keepsI)
  fix s :: "'a executor \<times> 'b"
  assume ok: "agent_ok C (fst s)"
  obtain ex w where s: "s = (ex, w)" by (cases s)
  show "agent_ok C (fst (snd (apply_exit_policy E aid obs now s)))"
  proof (cases "bt_get (ex_live ex) aid")
    case (Some a)
    define u where "u = (update_live aid (\<lambda>a. a\<lparr>la_last_obs := Some obs\<rparr>) ex, w)"
    obtain ex1 w1 where r: "release_handle E aid a u = (ex1, w1)" by fastforce
    have uok: "agent_ok C (fst u)" using ok s by (auto simp: u_def attempt_ok_notes intro: update_live_ok)
    have ok1: "agent_ok C ex1" using release_handle_ok [OF uok, of E aid a] r by simp
    have "bt_get (ex_live (fst u)) aid = Some (a\<lparr>la_last_obs := Some obs\<rparr>)"
      using Some ok s by (simp add: u_def bt_get_update_live agent_okD(1))
    from release_handle_entry [OF agent_okD(1) [OF uok] this, of E a]
    obtain h where e1: "bt_get (ex_live ex1) aid = Some (a\<lparr>la_last_obs := Some obs, la_running := h\<rparr>)" using r by auto
    have done_ok: "agent_ok C (fst (snd (cleanup_live E aid
        (ex2\<lparr>ex_completed := insert aid S, ex_completion_events := insert aid D\<rparr>, w1))))"
      if "agent_ok C ex2" and "S = ex_completed ex2" and "D = ex_completion_events ex2" for ex2 S D
      using that bt_length_remove_le [of aid "ex_live ex2"]
      by (auto simp: cleanup_live_effect agent_ok_def bt_intros bt_simps split: if_splits)
    have "agent_ok C (update_live aid (\<lambda>a. a\<lparr>la_phase := PhTerminal ec, la_terminal_reason := t\<rparr>) ex1)" for ec t
      by (rule update_live_ok [OF ok1]) (simp add: attempt_ok_notes)
    moreover have "agent_ok C (update_live aid (schedule_retry aid now ec) ex1)"
      if "la_attempt_index a < rp_max_attempts (lc_retry (la_lifecycle a))" for ec
      using that e1 by (intro update_live_ok [OF ok1] schedule_retry_ok) auto
    moreover have "agent_ok C (update_live aid (fail_permanently ec) ex1)" for ec
      by (rule update_live_ok [OF ok1]) (simp add: attempt_ok_notes)
    ultimately show ?thesis
      using Some r by (simp add: s apply_exit_policy_def Let_def done_ok flip: u_def)
  qed (use ok s in \<open>simp add: apply_exit_policy_def\<close>)
qed

lemma observed_ok: "keeps_ok C (observed E aid obs now)"
  by (rule keepsI) (auto simp: observed_def keepsD [OF apply_exit_policy_ok] attempt_ok_notes intro!: update_live_ok)

lemma observe_one_ok: "keeps_ok C (observe_one E aid now)"
proof (rule keepsI)
  fix s :: "'a executor \<times> 'b"
  assume ok: "agent_ok C (fst s)"
  have up: "agent_ok C (update_live aid (\<lambda>a. a\<lparr>la_running := Some r\<rparr>) (fst s))" for r
    by (rule update_live_ok) (use ok in auto)
  have ob: "agent_ok C ex \<Longrightarrow> agent_ok C (fst (snd (observed E aid obs now (ex, w))))" for ex w obs
    using keepsD [OF observed_ok, where s = "(ex, w)"] by simp
  show "agent_ok C (fst (snd (observe_one E aid now s)))"
    using ok up by (cases s) (auto simp: observe_one_def Let_def ob split: option.splits prod.splits sum.splits)
qed

lemma maybe_restart_ok: "keeps_ok C (maybe_restart E aid now)"
proof (rule keepsI)
  fix s :: "'a executor \<times> 'b"
  assume ok: "agent_ok C (fst s)"
  obtain ex w where s: "s = (ex, w)" by (cases s)
  have restart: "agent_ok C (fst (snd (start_placement E (placement_of aid a) now (la_attempt_index a)
      (ex\<lparr>ex_live := bt_remove aid (ex_live ex)\<rparr>, w))))"
    if a: "bt_get (ex_live ex) aid = Some a" and ph: "la_phase a = PhAwaitingRestart t" for a t
  proof (rule start_placement_ok)
    have ex: "agent_ok C ex" using ok s by simp
    note d = agent_okD [OF ex]
    show "agent_ok C (ex\<lparr>ex_live := bt_remove aid (ex_live ex)\<rparr>)"
      by (rule agent_ok_without) (use d in auto)
    show "ap_attempt_id (placement_of aid a) \<notin> ex_completed (ex\<lparr>ex_live := bt_remove aid (ex_live ex)\<rparr>)"
      using d(5) [OF a] by (simp add: placement_of_def)
    have "2 \<le> la_attempt_index a" and "la_attempt_index a \<le> rp_max_attempts (lc_retry (la_lifecycle a))"
      using d(4) [OF a] ph by (auto simp: attempt_ok_def)
    moreover have "length (bt_remove aid (ex_live ex)) < ex_max_live ex"
    proof -
      have "ex_live ex \<noteq> []" using a by auto
      then show ?thesis using d(2) a by (auto simp: bt_length_remove [OF d(1)] bt_has_def neq_Nil_conv)
    qed
    ultimately show "la_attempt_index a = 1 \<or>
        (2 \<le> la_attempt_index a \<and>
         la_attempt_index a \<le> rp_max_attempts (lc_retry (ap_lifecycle (placement_of aid a))) \<and>
         length (ex_live (ex\<lparr>ex_live := bt_remove aid (ex_live ex)\<rparr>))
           < ex_max_live (ex\<lparr>ex_live := bt_remove aid (ex_live ex)\<rparr>))"
      by (simp add: placement_of_def)
  qed
  show "agent_ok C (fst (snd (maybe_restart E aid now s)))"
    using ok s restart by (auto simp: maybe_restart_def split: option.splits attempt_phase.splits)
qed

lemma run_probe_ok: "agent_ok C (fst s) \<Longrightarrow> agent_ok C (fst (snd (run_probe E aid b spec a pr now dl s)))"
  by (cases s)
    (auto simp: run_probe_def run_http_with_hiccup_def Let_def split: option.splits prod.splits sum.splits check_kind.splits)

lemma readiness_tick_ok: "agent_ok C (fst s) \<Longrightarrow> agent_ok C (fst (readiness_tick E aid a pr now dl s))"
proof -
  assume ok: "agent_ok C (fst s)"
  have "agent_ok C (fst (snd (run_probe E aid False spec a pr now dl s)))" for spec
    using ok by (rule run_probe_ok)
  then have "agent_ok C (update_live aid (note_readiness out spec now) (fst (snd (run_probe E aid False spec' a pr now dl s))))"
    for out spec spec'
    by (rule update_live_ok) (simp add: attempt_ok_notes)
  with ok show ?thesis
    by (auto simp: readiness_tick_def Let_def split: option.splits prod.splits) (metis fst_conv snd_conv)
qed

lemma liveness_tick_ok: "keeps_ok C (liveness_tick E aid a pr now dl)"
proof (rule keepsI)
  fix s :: "'a executor \<times> 'b"
  assume ok: "agent_ok C (fst s)"
  have probe: "agent_ok C (update_live aid (note_liveness out spec now) (fst (snd (run_probe E aid True spec a pr now dl s))))"
    for out spec
    by (rule update_live_ok [OF run_probe_ok [OF ok]]) (simp add: attempt_ok_notes)
  have stop: "agent_ok C ex \<Longrightarrow> agent_ok C (fst (snd (apply_exit_policy E aid obs now (snd (kill_running E aid (ex, w))))))"
    for ex w obs
    using keepsD [OF kill_running_ok, where s = "(ex, w)"] by (intro keepsD [OF apply_exit_policy_ok]) simp
  show "agent_ok C (fst (snd (liveness_tick E aid a pr now dl s)))"
  proof (cases "lc_liveness (la_lifecycle a)")
    case (Some spec)
    obtain out ex1 w1 where r: "run_probe E aid True spec a pr now dl s = (out, ex1, w1)"
      by (metis prod.collapse)
    then show ?thesis
      using Some ok probe [of out spec] stop by (simp add: liveness_tick_def Let_def)
  qed (simp add: liveness_tick_def ok)
qed

lemma tick_checks_ok: "keeps_ok C (tick_checks E aid now dl)"
  by (rule keepsI)
    (auto simp: tick_checks_def Let_def keepsD [OF liveness_tick_ok] readiness_tick_ok split: option.splits)

lemma start_desired_ok: "keeps_ok C (start_desired E now p)"
proof (rule keepsI)
  fix s :: "'a executor \<times> 'b"
  assume "agent_ok C (fst s)"
  then show "agent_ok C (fst (snd (start_desired E now p s)))"
    using start_placement_ok [of C "fst s" p 1 E now "snd s"] by (auto simp: start_desired_def)
qed

lemma supervise_ok: "keeps_ok C (supervise E now dl aid)"
  unfolding supervise_def
  by (intro keeps_then maybe_restart_ok observe_one_ok tick_checks_ok)

lemma fold_keeps: "(\<And>x s. P s \<Longrightarrow> P (g x s)) \<Longrightarrow> P s \<Longrightarrow> P (fold g xs s)"
  by (induction xs arbitrary: s) auto

lemma reconcile_ok:
  assumes C: "C \<subseteq> set (map ap_attempt_id desired)"
  shows "keeps_ok C (reconcile E desired now)"
proof -
  have expired: "keeps_ok C (reconcile_expired E)"
    by (rule keepsI)
      (auto simp: reconcile_expired_def intro!: fold_keeps [where P = "\<lambda>s. agent_ok C (fst s)"] keepsD [OF force_stop_cleanup_ok])
  have isolated: "keeps_ok C (reconcile_isolated E now)"
  proof (rule keepsI)
    fix s :: "'a executor \<times> 'b"
    assume ok: "agent_ok C (fst s)"
    have "keeps_ok C (act_then (for_each (\<lambda>aid. observe_one E aid now) (map fst (ex_live (fst s)))) (\<lambda>_ s. (Inr [], s)))"
      by (intro keeps_then keeps_for_each observe_one_ok) (simp add: keeps_def)
    from keepsD [OF this ok] show "agent_ok C (fst (snd (reconcile_isolated E now s)))"
      by (cases s) (simp add: reconcile_isolated_def)
  qed
  have report: "keeps_ok C (\<lambda>(ex4, w4). (Inr (map (\<lambda>(aid, a). make_report E w4 aid a) (ex_live ex4)), ex4, w4))"
    by (auto simp: keeps_def)
  have "keeps_ok C (\<lambda>(ex2, w2). let (deadline, w3) = budget_new E (ex_check_budget_ms ex2) w2
      in act_then (for_each (supervise E now deadline) (map fst (ex_live ex2))) (\<lambda>_ (ex4, w4).
           (Inr (map (\<lambda>(aid, a). make_report E w4 aid a) (ex_live ex4)), ex4, w4)) (ex2, w3))"
  proof (rule keepsI)
    fix s :: "'a executor \<times> 'b"
    assume ok: "agent_ok C (fst s)"
    obtain ex2 w2 dl w3 where s: "s = (ex2, w2)" and b: "budget_new E (ex_check_budget_ms ex2) w2 = (dl, w3)"
      by (metis prod.collapse)
    have "keeps_ok C (act_then (for_each (supervise E now dl) (map fst (ex_live ex2))) (\<lambda>_ (ex4, w4).
           (Inr (map (\<lambda>(aid, a). make_report E w4 aid a) (ex_live ex4)), ex4, w4)))"
      by (intro keeps_then keeps_for_each supervise_ok report)
    from keepsD [OF this, where s = "(ex2, w3)"] ok s b
    show "agent_ok C (fst (snd ((\<lambda>(ex2, w2). let (deadline, w3) = budget_new E (ex_check_budget_ms ex2) w2
      in act_then (for_each (supervise E now deadline) (map fst (ex_live ex2))) (\<lambda>_ (ex4, w4).
           (Inr (map (\<lambda>(aid, a). make_report E w4 aid a) (ex_live ex4)), ex4, w4)) (ex2, w3)) s)))"
      by simp
  qed
  then have body: "keeps_ok C (act_then (for_each (stop_and_cleanup E) obsolete) (\<lambda>_.
      act_then (for_each (start_desired E now) desired) (\<lambda>_ (ex2, w2).
        let (deadline, w3) = budget_new E (ex_check_budget_ms ex2) w2
        in act_then (for_each (supervise E now deadline) (map fst (ex_live ex2))) (\<lambda>_ (ex4, w4).
             (Inr (map (\<lambda>(aid, a). make_report E w4 aid a) (ex_live ex4)), ex4, w4)) (ex2, w3))))" for obsolete
    by (intro keeps_then keeps_for_each stop_and_cleanup_ok start_desired_ok)
  have connected: "keeps_ok C (reconcile_connected E desired now)"
  proof (rule keepsI)
    fix s :: "'a executor \<times> 'b"
    assume ok: "agent_ok C (fst s)"
    define ids where "ids = set (map ap_attempt_id desired)"
    have "agent_ok C ((fst s)\<lparr>ex_completed := ex_completed (fst s) \<inter> ids,
        ex_completion_events := ex_completion_events (fst s) \<inter> ids\<rparr>)"
      by (rule agent_ok_frame [OF ok]) (use agent_okD(3,7) [OF ok] C in \<open>auto simp: ids_def\<close>)
    with keepsD [OF body, where s = "((fst s)\<lparr>ex_completed := ex_completed (fst s) \<inter> ids,
        ex_completion_events := ex_completion_events (fst s) \<inter> ids\<rparr>, snd s)"]
    show "agent_ok C (fst (snd (reconcile_connected E desired now s)))"
      by (cases s) (simp add: reconcile_connected_def Let_def ids_def)
  qed
  show ?thesis
    using keepsD [OF expired] keepsD [OF isolated] keepsD [OF connected]
    by (auto intro!: keepsI simp: reconcile_def)
qed

end
