(* ===== verification/Agent_Properties.thy ===== *)
theory Agent_Properties
  imports Agent_Invariant
begin

text \<open>
  Properties of the agent: the live attempts after any history of operations, what an isolated agent
  may do, finite executions that are not launched twice, and how the retry policy ends. Three further
  theorems describe behaviour of one reconcile pass that callers may not expect.
\<close>

section \<open>Histories of the executor\<close>

datatype agent_command =
    AReconcile "accepted_placement list" u64
  | ACancel attempt_id
  | AForceKill attempt_id
  | ASetAuthority authority_state
  | AMarkIsolated u64
  | AClearIsolation u64 u64
  | AAcknowledge attempt_id
  | AMergeSnapshot string u64

fun agent_step :: "('w, 'h) agent_env \<Rightarrow> agent_command \<Rightarrow> 'h executor \<times> 'w \<Rightarrow> 'h executor \<times> 'w" where
  "agent_step E (AReconcile desired now) s = snd (reconcile E desired now s)"
| "agent_step E (ACancel aid) s = snd (cancel E aid s)"
| "agent_step E (AForceKill aid) s = snd (force_kill E aid s)"
| "agent_step E (ASetAuthority au) s = apfst (set_authority au) s"
| "agent_step E (AMarkIsolated now) s = apfst (mark_isolated now) s"
| "agent_step E (AClearIsolation fence epoch) s = apfst (clear_isolation fence epoch) s"
| "agent_step E (AAcknowledge aid) s = apfst (acknowledge_completion aid) s"
| "agent_step E (AMergeSnapshot snapshot now) s =
     apfst (\<lambda>ex. snd (merge_hiccup_cluster_snapshot E snapshot now ex)) s"

text \<open>A reconcile pass that still desires the given attempts.\<close>

definition desires :: "attempt_id set \<Rightarrow> agent_command \<Rightarrow> bool" where
  "desires C c = (case c of AReconcile desired now \<Rightarrow> C \<subseteq> set (map ap_attempt_id desired) | _ \<Rightarrow> True)"

lemma agent_step_ok:
  assumes ok: "agent_ok C (fst s)" and d: "desires C c"
  shows "agent_ok C (fst (agent_step E c s))"
proof (cases c)
  case (AReconcile desired now)
  then show ?thesis using keepsD [OF reconcile_ok ok, of desired E now] d by (simp add: desires_def)
next
  case (ACancel aid)
  then show ?thesis using keepsD [OF cancel_ok ok] by simp
next
  case (AForceKill aid)
  then show ?thesis using keepsD [OF force_kill_ok ok] by simp
qed (use ok in \<open>auto simp: agent_ok_def set_authority_def mark_isolated_def clear_isolation_def
      acknowledge_completion_def merge_hiccup_cluster_snapshot_def Let_def split: prod.splits\<close>)

interpretation agent: invariant_machine "agent_step E" "\<lambda>s. agent_ok {} (fst s)"
  by unfold_locales (simp add: agent_step_ok desires_def split: agent_command.splits)

lemma executor_new_ok: "agent_ok {} (executor_new base au)"
  by (simp add: agent_ok_def executor_new_def)

lemma desired_run_ok:
  "agent_ok C (fst s) \<Longrightarrow> list_all (desires C) cs \<Longrightarrow> agent_ok C (fst (fold (agent_step E) cs s))"
  by (induction cs arbitrary: s) (simp_all add: agent_step_ok)

lemma agent_run_ok: "agent_ok {} (fst (fold (agent_step E) cs (executor_new base au, w)))"
  by (rule agent.inv_run) (simp add: executor_new_ok)

section \<open>Isolation\<close>

lemma map_fst_update_live:
  "bt_ok (ex_live ex) \<Longrightarrow> map fst (ex_live (update_live aid f ex)) = map fst (ex_live ex)"
proof -
  have "map fst (bt_insert aid v m) = map fst m" if "bt_ok m" "bt_get m aid = Some u" for u v and m :: "(attempt_id, 'a live_attempt) btree"
    using that by (induction m) (auto simp: bt_get_Cons bt_ok_Cons dest!: bt_get_in_set split: if_splits)
  then show "bt_ok (ex_live ex) \<Longrightarrow> map fst (ex_live (update_live aid f ex)) = map fst (ex_live ex)"
    by (auto simp: update_live_def split: option.splits)
qed

definition frozen :: "authority_state \<Rightarrow> attempt_id list \<Rightarrow> attempt_id set \<Rightarrow> 'h executor \<Rightarrow> bool" where
  "frozen au ids C ex \<longleftrightarrow>
     is_isolated au \<and> ex_authority ex = au \<and> bt_ok (ex_live ex) \<and> map fst (ex_live ex) = ids \<and> ex_completed ex = C"

lemma frozen_update_live: "frozen au ids C ex \<Longrightarrow> frozen au ids C (update_live aid f ex)"
  by (simp add: frozen_def map_fst_update_live bt_ok_update_live)

lemma frozen_release: "frozen au ids C (fst s) \<Longrightarrow> frozen au ids C (fst (release_handle E aid a s))"
  by (cases s) (auto simp: release_handle_def Let_def frozen_update_live split: option.splits prod.splits)

lemma observe_one_frozen: "keeps (\<lambda>s. frozen au ids C (fst s)) (observe_one E aid now)"
proof (rule keepsI)
  fix s :: "'a executor \<times> 'b"
  assume fr: "frozen au ids C (fst s)"
  have exit: "frozen au ids C (fst (snd (apply_exit_policy E aid obs now (ex, w))))" if "frozen au ids C ex" for ex w obs
  proof -
    have "frozen au ids C ex1"
      if "release_handle E aid a (update_live aid (\<lambda>a. a\<lparr>la_last_obs := Some obs\<rparr>) ex, w) = (ex1, w1)" for a ex1 w1
      using that frozen_release [of au ids C "(update_live aid (\<lambda>a. a\<lparr>la_last_obs := Some obs\<rparr>) ex, w)" E aid a]
      by (simp add: \<open>frozen au ids C ex\<close> frozen_update_live)
    moreover have "is_isolated (ex_authority ex)" using that by (simp add: frozen_def)
    ultimately show ?thesis
      using that by (auto simp: apply_exit_policy_def Let_def frozen_update_live split: option.splits prod.splits)
  qed
  then have "frozen au ids C (fst (snd (observed E aid obs now (ex, w))))" if "frozen au ids C ex" for ex w obs
    using that by (simp add: observed_def frozen_update_live)
  with fr show "frozen au ids C (fst (snd (observe_one E aid now s)))"
    by (cases s) (auto simp: observe_one_def Let_def frozen_update_live split: option.splits prod.splits sum.splits)
qed

text \<open>
  The environment after the driver's prepare, admit, start, terminate and kill, the secret provider
  and the network probes are replaced by arbitrary others.
\<close>

definition other_effects :: "('w, 'h) agent_env \<Rightarrow> ('w, 'h) agent_env \<Rightarrow> ('w, 'h) agent_env" where
  "other_effects F E =
     E\<lparr>ae_prepare := ae_prepare F, ae_secrets := ae_secrets F, ae_admit := ae_admit F, ae_start := ae_start F,
       ae_terminate := ae_terminate F, ae_kill := ae_kill F, hn_connect := hn_connect F, hn_http := hn_http F,
       hn_command := hn_command F\<rparr>"

lemma other_effects_same:
  "ae_observe (other_effects F E) = ae_observe E" "ae_into_prepared (other_effects F E) = ae_into_prepared E"
  "ae_cleanup (other_effects F E) = ae_cleanup E" "ae_exists (other_effects F E) = ae_exists E"
  "ae_remove_dir_all (other_effects F E) = ae_remove_dir_all E" "ae_json (other_effects F E) = ae_json E"
  by (simp_all add: other_effects_def)

lemma cleanup_live_other: "cleanup_live (other_effects F E) aid = cleanup_live E aid"
  unfolding cleanup_live_def remove_attempt_root_def other_effects_same ..

lemma apply_exit_policy_other: "apply_exit_policy (other_effects F E) aid obs now = apply_exit_policy E aid obs now"
  unfolding apply_exit_policy_def release_handle_def cleanup_live_other other_effects_same ..

lemma observe_one_other: "observe_one (other_effects F E) aid now = observe_one E aid now"
  unfolding observe_one_def observed_def apply_exit_policy_other other_effects_same ..

text \<open>
  C6: While the agent is isolated and its grace has not run out, a reconcile pass depends on neither
  the desired placements nor the driver operations that prepare, admit, start, terminate or kill, nor
  on the secret provider or any network probe: replacing them changes nothing. The set of live
  attempts and the set of completed ones stay as they are, and no report is returned.
\<close>

theorem isolated_agent_inert:
  assumes "agent_ok {} ex" and "is_isolated (ex_authority ex)"
    and "\<not> isolation_grace_expired (ex_authority ex) (ex_isolation ex) now"
  shows "reconcile (other_effects F E) desired' now (ex, w) = reconcile E desired now (ex, w) \<and>
    map fst (ex_live (fst (snd (reconcile E desired now (ex, w))))) = map fst (ex_live ex) \<and>
    ex_completed (fst (snd (reconcile E desired now (ex, w)))) = ex_completed ex \<and>
    (fst (reconcile E desired now (ex, w)) = Inr [] \<or> isl (fst (reconcile E desired now (ex, w))))"
proof -
  let ?run = "act_then (for_each (\<lambda>aid. observe_one E aid now) (map fst (ex_live ex))) (\<lambda>_ s. (Inr ([] :: attempt_report list), s)) (ex, w)"
  have r: "reconcile E' d now (ex, w) = reconcile_isolated E' now (ex, w)" for E' :: "('b, 'a) agent_env" and d
    using assms(2,3) by (simp add: reconcile_def)
  have fr: "frozen (ex_authority ex) (map fst (ex_live ex)) (ex_completed ex) ex"
    using assms(1,2) by (simp add: frozen_def agent_okD(1))
  have "keeps (\<lambda>s. frozen (ex_authority ex) (map fst (ex_live ex)) (ex_completed ex) (fst s))
      (act_then (for_each (\<lambda>aid. observe_one E aid now) (map fst (ex_live ex))) (\<lambda>_ s. (Inr ([] :: attempt_report list), s)))"
    by (intro keeps_then keeps_for_each observe_one_frozen) (simp add: keeps_def)
  from keepsD [OF this, where s = "(ex, w)"] fr
  have "frozen (ex_authority ex) (map fst (ex_live ex)) (ex_completed ex) (fst (snd ?run))" by simp
  moreover have "fst ?run = Inr [] \<or> isl (fst ?run)"
    by (auto simp: act_then_def split: prod.splits sum.splits)
  ultimately show ?thesis
    by (simp add: r reconcile_isolated_def observe_one_other frozen_def)
qed


section \<open>An attempt that always exits\<close>

text \<open>
  The host accepts every start, and every observation of the process reports the exit code \<open>ec\<close>.
\<close>

definition always_exits :: "('w, 'h) agent_env \<Rightarrow> accepted_placement \<Rightarrow> int option \<Rightarrow> bool" where
  "always_exits E p ec \<longleftrightarrow>
     ae_secrets E = None \<and> (\<forall>w. ae_is_dir E (ap_release_root p) w) \<and>
     (\<forall>r w. fst (ae_remove_dir_all E r w) = Inr ()) \<and> (\<forall>r w. fst (ae_create_dir_all E r w) = Inr ()) \<and>
     (\<forall>a b c d w. \<exists>h. fst (ae_prepare E a b c d w) = Inr h) \<and>
     (\<forall>a b c w. \<exists>h. fst (ae_admit E a b c w) = Inr h) \<and>
     (\<forall>a b c w. \<exists>h. fst (ae_start E a b c w) = Inr h) \<and>
     (\<forall>h w. fst (ae_observe E h w) = Inr \<lparr>ob_running = False, ob_exit_code = ec\<rparr>)"

lemma launch_succeeds:
  assumes E: "always_exits E p ec" and h: "ap_hiccup p = None"
  shows "\<exists>r w1. launch E p root w = (Inr (r, None), w1)"
proof -
  have pass: "\<exists>a s1. act_with err m s = (Inr a, s1)" if "\<exists>a. fst (m s) = Inr a" for err m and s :: 'a
    using that by (cases "m s") (auto simp: act_with_def)
  have root: "\<exists>w1. fresh_root E root w = (Inr (), w1)" for w
  proof -
    obtain w0 where "act_with (\<lambda>e. AttemptRoot (''clear attempt root: '' @ e)) (ae_remove_dir_all E root) w = (Inr (), w0)"
      using pass [of "ae_remove_dir_all E root" w "\<lambda>e. AttemptRoot (''clear attempt root: '' @ e)"] E
      by (auto simp: always_exits_def)
    then obtain w1 where "(if ae_exists E root w
        then act_with (\<lambda>e. AttemptRoot (''clear attempt root: '' @ e)) (ae_remove_dir_all E root) w
        else (Inr (), w)) = (Inr (), w1)"
      by (cases "ae_exists E root w") auto
    moreover obtain w2 where "act_with (\<lambda>e. AttemptRoot (''create attempt root: '' @ e)) (ae_create_dir_all E root) w1 = (Inr (), w2)"
      using pass [of "ae_create_dir_all E root" w1 "\<lambda>e. AttemptRoot (''create attempt root: '' @ e)"] E by (auto simp: always_exits_def)
    ultimately show ?thesis by (simp add: fresh_root_def act_then_def)
  qed
  obtain w1 where 1: "fresh_root E root w = (Inr (), w1)" using root by blast
  obtain h2 w2 where 2: "act_with AgentDriver (ae_prepare E (ap_release_root p) (ap_runtime p) (ap_attempt_id p) root) w1 = (Inr h2, w2)"
    using pass [of "ae_prepare E (ap_release_root p) (ap_runtime p) (ap_attempt_id p) root" w1 AgentDriver] E
    by (auto simp: always_exits_def)
  obtain h3 w3 where 3: "act_with AgentDriver (ae_admit E h2 (Some 64) plan_deferred) w2 = (Inr h3, w3)"
    using pass [of "ae_admit E h2 (Some 64) plan_deferred" w2 AgentDriver] E by (auto simp: always_exits_def)
  obtain h4 w4 where 4: "act_with AgentDriver (ae_start E h3 (ap_placement_fence p) (ap_attempt_id p)) w3 = (Inr h4, w4)"
    using pass [of "ae_start E h3 (ap_placement_fence p) (ap_attempt_id p)" w3 AgentDriver] E by (auto simp: always_exits_def)
  have "ae_secrets E = None" using E by (simp add: always_exits_def)
  with 1 2 3 4 h show ?thesis by (simp add: launch_def act_then_def attempt_token_def)
qed

text \<open>The executor may start the placement, and holds nothing else.\<close>

definition standing :: "accepted_placement \<Rightarrow> 'h executor \<Rightarrow> bool" where
  "standing p ex \<longleftrightarrow>
     \<not> is_isolated (ex_authority ex) \<and> au_placement_fence (ex_authority ex) = ap_placement_fence p \<and>
     0 < ex_max_live ex \<and> ap_attempt_id p \<notin> ex_completed ex"

text \<open>The entry after execution number \<open>i\<close> ended at time \<open>now\<close>.\<close>

definition exited :: "accepted_placement \<Rightarrow> u64 \<Rightarrow> nat \<Rightarrow> 'h live_attempt \<Rightarrow> bool" where
  "exited p now i a \<longleftrightarrow>
     placement_of (ap_attempt_id p) a = p \<and> la_running a = None \<and>
     (let rp = lc_retry (ap_lifecycle p)
      in if i < rp_max_attempts rp
         then la_attempt_index a = Suc i \<and> (\<exists>t \<le> now + 2 * rp_max_backoff_ms rp. la_phase a = PhAwaitingRestart t)
         else la_attempt_index a = i \<and> la_phase a = PhPermanentFailure)"

lemma start_standing:
  assumes "always_exits E p ec" and "ap_hiccup p = None" and "ap_capsule_verified p"
    and "standing p ex" and "ex_live ex = []"
  shows "\<exists>root r w1. start_placement E p now i (ex, w) =
    (Inr (), ex\<lparr>ex_live := [(ap_attempt_id p, live_of p root r now i)]\<rparr>, w1)"
proof -
  obtain r w1 where l: "launch E p (attempt_root_of E ex (ap_attempt_id p)) w = (Inr (r, None), w1)"
    using launch_succeeds [OF assms(1,2)] by blast
  have al: "allow_effect (ex_authority ex) (ap_placement_fence p) eff = Inr ()" for eff
    using assms(4) by (simp add: standing_def)
  have "ae_is_dir E (ap_release_root p) w" using assms(1) by (simp add: always_exits_def)
  then have "start_placement E p now i (ex, w) =
      (Inr (), ex\<lparr>ex_hiccup := ex_hiccup ex, ex_live :=
         [(ap_attempt_id p, live_of p (attempt_root_of E ex (ap_attempt_id p)) r now i)]\<rparr>, w1)"
    using assms l by (simp add: start_placement_def Let_def join_plane_def standing_def al)
  then show ?thesis by auto
qed

lemma exit_standing:
  assumes E: "always_exits E p ec" and "ap_capsule_verified p"
    and ok: "\<not> (ap_lifecycle_finite p \<and> ec = Some 0)"
    and st: "standing p ex" and jit: "rp_jitter_pct (lc_retry (ap_lifecycle p)) \<le> 100"
    and i: "1 \<le> i" "i \<le> max 1 (rp_max_attempts (lc_retry (ap_lifecycle p)))"
    and n: "rp_max_attempts (lc_retry (ap_lifecycle p)) \<le> u32_max"
  shows "\<exists>a w1. act_then (observe_one E (ap_attempt_id p) now) (\<lambda>_. tick_checks E (ap_attempt_id p) now dl)
      (ex\<lparr>ex_live := [(ap_attempt_id p, live_of p root r began i)]\<rparr>, w) =
    (Inr (), ex\<lparr>ex_live := [(ap_attempt_id p, a)]\<rparr>, w1) \<and> exited p now i a"
proof -
  let ?aid = "ap_attempt_id p" and ?rp = "lc_retry (ap_lifecycle p)"
  let ?obs = "\<lparr>ob_running = False, ob_exit_code = ec\<rparr>"
  obtain h1 w1 where o: "ae_observe E r w = (Inr ?obs, h1, w1)"
    using E by (auto simp: always_exits_def) (metis prod.collapse)
  obtain pr w2 where ip: "ae_into_prepared E h1 w1 = (pr, w2)" by fastforce
  obtain cl w3 where c: "ae_cleanup E pr w2 = (cl, w3)" by fastforce
  define b where "b = (live_of p root r began i)\<lparr>la_last_obs := Some ?obs, la_running := None\<rparr>"
  define a where "a = (if i < rp_max_attempts ?rp then schedule_retry ?aid now ec b else fail_permanently ec b)"
  have gate: "require_fence (ex_authority ex) (ap_placement_fence p) = Inr ()" "\<not> is_isolated (ex_authority ex)"
    using st by (auto simp: standing_def)
  have fields: "la_phase (live_of p root r began i) = PhRunning" "la_running (live_of p root r began i) = Some r"
    "la_placement_fence (live_of p root r began i) = ap_placement_fence p"
    "la_lifecycle_finite (live_of p root r began i) = ap_lifecycle_finite p"
    "la_lifecycle (live_of p root r began i) = ap_lifecycle p" "la_attempt_index (live_of p root r began i) = i"
    by (simp_all add: live_of_def)
  have exit: "observe_one E ?aid now (ex\<lparr>ex_live := [(?aid, live_of p root r began i)]\<rparr>, w) =
      (Inr (), ex\<lparr>ex_live := [(?aid, a)]\<rparr>, w3)"
    using gate(2) ok i
    by (auto simp: observe_one_def bt_get_Cons gate(1) fields parked_def o update_live_def observed_def
        apply_exit_policy_def Let_def release_handle_def ip c retry_enabled_def a_def b_def)
  have "backoff_ms ?rp i (sat_add64 (id_byte15 ?aid) now) \<le> 2 * rp_max_backoff_ms ?rp"
    using backoff_bound [OF jit] .
  then have bo: "sat_add64 now (backoff_ms ?rp i (sat_add64 (id_byte15 ?aid) now)) \<le> now + 2 * rp_max_backoff_ms ?rp"
    using sat_add64_le [of now "backoff_ms ?rp i (sat_add64 (id_byte15 ?aid) now)"] by linarith
  have "exited p now i a"
    using i n bo
    by (auto simp: exited_def a_def b_def schedule_retry_def fail_permanently_def live_of_def placement_of_def
        Let_def sat_add32_exact)
  moreover have "la_phase a \<noteq> PhRunning"
    by (simp add: a_def schedule_retry_def fail_permanently_def Let_def)
  ultimately show ?thesis
    using exit by (auto simp: act_then_def tick_checks_def bt_get_Cons)
qed


text \<open>One pass over an executor whose only placement is \<open>p\<close>.\<close>

lemma reconcile_single:
  assumes st: "standing p ex" and keys: "ex_live ex = [] \<or> (\<exists>a. ex_live ex = [(ap_attempt_id p, a)])"
  shows "\<exists>ex1. ex_live ex1 = ex_live ex \<and> standing p ex1 \<and>
    (\<forall>ex2 w2. start_desired E now p (ex1, w) = (Inr (), ex2, w2) \<longrightarrow>
       (\<exists>dl w3. fst (snd (reconcile E [p] now (ex, w))) =
          fst (snd (for_each (supervise E now dl) (map fst (ex_live ex2)) (ex2, w3)))))"
proof -
  let ?ids = "set (map ap_attempt_id [p])"
  let ?ex1 = "ex\<lparr>ex_completed := ex_completed ex \<inter> ?ids, ex_completion_events := ex_completion_events ex \<inter> ?ids\<rparr>"
  have obs: "filter (\<lambda>aid. aid \<notin> ?ids) (map fst (ex_live ?ex1)) = []" using keys by auto
  have rc: "reconcile E [p] now (ex, w) = reconcile_connected E [p] now (ex, w)"
    using st by (simp add: standing_def reconcile_def is_isolated_def isolation_grace_expired_def)
  have "\<exists>dl w3. fst (snd (reconcile E [p] now (ex, w))) =
      fst (snd (for_each (supervise E now dl) (map fst (ex_live ex2)) (ex2, w3)))"
    if s: "start_desired E now p (?ex1, w) = (Inr (), ex2, w2)" for ex2 w2
  proof -
    obtain dl w3 where b: "budget_new E (ex_check_budget_ms ex2) w2 = (dl, w3)" by fastforce
    have tail: "fst (snd (act_then m (\<lambda>_ (ex4, w4). (Inr (f ex4 w4), ex4, w4)) s0)) = fst (snd (m s0))"
      for m :: "('a executor \<times> 'b, unit) action" and s0 and f :: "'a executor \<Rightarrow> 'b \<Rightarrow> attempt_report list"
      by (auto simp: act_then_def split: prod.splits sum.splits)
    have "for_each (start_desired E now) [p] (?ex1, w) = (Inr (), ex2, w2)"
      using s by (simp add: act_then_def)
    then show ?thesis
      unfolding rc reconcile_connected_def Let_def prod.case obs
      by (simp add: act_then_def [of "for_each _ _"] b tail [unfolded act_then_def] split: prod.splits sum.splits)
        (metis fst_conv snd_conv)
  qed
  moreover have "standing p ?ex1" using st by (simp add: standing_def)
  ultimately show ?thesis by (intro exI [of _ ?ex1]) simp
qed


lemma supervise_start:
  assumes p: "always_exits E p ec" "ap_hiccup p = None" "ap_capsule_verified p"
    and fin: "\<not> (ap_lifecycle_finite p \<and> ec = Some 0)" and st: "standing p ex"
    and jit: "rp_jitter_pct (lc_retry (ap_lifecycle p)) \<le> 100"
    and n: "rp_max_attempts (lc_retry (ap_lifecycle p)) \<le> u32_max"
    and i: "1 \<le> i" "i \<le> max 1 (rp_max_attempts (lc_retry (ap_lifecycle p)))"
    and r: "maybe_restart E (ap_attempt_id p) now (ex, w) =
        (Inr (), ex0\<lparr>ex_live := [(ap_attempt_id p, live_of p root h began i)]\<rparr>, w1)" and st0: "standing p ex0"
  shows "\<exists>a ex'. fst (snd (for_each (supervise E now dl) [ap_attempt_id p] (ex, w))) = ex' \<and>
    ex_live ex' = [(ap_attempt_id p, a)] \<and> standing p ex' \<and> exited p now i a"
proof -
  from exit_standing [OF p(1,3) fin st0 jit i n, where now = now and dl = dl and root = root and r = h and w = w1 and began = began]
  obtain a w2 where "act_then (observe_one E (ap_attempt_id p) now) (\<lambda>_. tick_checks E (ap_attempt_id p) now dl)
      (ex0\<lparr>ex_live := [(ap_attempt_id p, live_of p root h began i)]\<rparr>, w1) =
    (Inr (), ex0\<lparr>ex_live := [(ap_attempt_id p, a)]\<rparr>, w2)" and a: "exited p now i a" by blast
  then have "supervise E now dl (ap_attempt_id p) (ex, w) = (Inr (), ex0\<lparr>ex_live := [(ap_attempt_id p, a)]\<rparr>, w2)"
    using r by (simp add: supervise_def act_then_def [of "maybe_restart E (ap_attempt_id p) now"])
  then show ?thesis using a st0 by (simp add: act_then_def standing_def)
qed

lemma first_pass:
  assumes p: "always_exits E p ec" "ap_hiccup p = None" "ap_capsule_verified p"
    and fin: "\<not> (ap_lifecycle_finite p \<and> ec = Some 0)" and st: "standing p ex" and live: "ex_live ex = []"
    and jit: "rp_jitter_pct (lc_retry (ap_lifecycle p)) \<le> 100"
    and n: "rp_max_attempts (lc_retry (ap_lifecycle p)) \<le> u32_max"
  shows "\<exists>a ex'. fst (snd (reconcile E [p] now (ex, w))) = ex' \<and>
    ex_live ex' = [(ap_attempt_id p, a)] \<and> standing p ex' \<and> exited p now 1 a"
proof -
  obtain ex1 where ex1: "ex_live ex1 = ex_live ex" "standing p ex1"
    and run: "\<And>ex2 w2. start_desired E now p (ex1, w) = (Inr (), ex2, w2) \<Longrightarrow>
       \<exists>dl w3. fst (snd (reconcile E [p] now (ex, w))) =
          fst (snd (for_each (supervise E now dl) (map fst (ex_live ex2)) (ex2, w3)))"
    using reconcile_single [OF st, of E now w] live by blast
  obtain root h w1 where s: "start_placement E p now 1 (ex1, w) =
      (Inr (), ex1\<lparr>ex_live := [(ap_attempt_id p, live_of p root h now 1)]\<rparr>, w1)"
    using start_standing [OF p ex1(2), where now = now and i = 1 and w = w] ex1(1) live by auto
  let ?ex2 = "ex1\<lparr>ex_live := [(ap_attempt_id p, live_of p root h now 1)]\<rparr>"
  have "start_desired E now p (ex1, w) = (Inr (), ?ex2, w1)"
    using s ex1 live by (simp add: start_desired_def bt_has_def standing_def)
  from run [OF this] obtain dl w3 where
    rc: "fst (snd (reconcile E [p] now (ex, w))) = fst (snd (for_each (supervise E now dl) [ap_attempt_id p] (?ex2, w3)))"
    by auto
  have st2: "standing p ?ex2" using ex1(2) by (simp add: standing_def)
  have "maybe_restart E (ap_attempt_id p) now (?ex2, w3) = (Inr (), ?ex2, w3)"
    by (simp add: maybe_restart_def bt_get_Cons live_of_def)
  from supervise_start [OF p fin st2 jit n _ _ this ex1(2)] show ?thesis unfolding rc by simp
qed

lemma next_pass:
  assumes p: "always_exits E p ec" "ap_hiccup p = None" "ap_capsule_verified p"
    and fin: "\<not> (ap_lifecycle_finite p \<and> ec = Some 0)" and st: "standing p ex"
    and live: "ex_live ex = [(ap_attempt_id p, a)]" and a: "exited p t i a"
    and jit: "rp_jitter_pct (lc_retry (ap_lifecycle p)) \<le> 100"
    and n: "rp_max_attempts (lc_retry (ap_lifecycle p)) \<le> u32_max"
    and now: "t + 2 * rp_max_backoff_ms (lc_retry (ap_lifecycle p)) \<le> now"
  shows "\<exists>b ex'. fst (snd (reconcile E [p] now (ex, w))) = ex' \<and>
    ex_live ex' = [(ap_attempt_id p, b)] \<and> standing p ex' \<and>
    exited p now (if i < rp_max_attempts (lc_retry (ap_lifecycle p)) then Suc i else i) b"
proof -
  let ?aid = "ap_attempt_id p"
  obtain ex1 where ex1: "ex_live ex1 = ex_live ex" "standing p ex1"
    and run: "\<And>ex2 w2. start_desired E now p (ex1, w) = (Inr (), ex2, w2) \<Longrightarrow>
       \<exists>dl w3. fst (snd (reconcile E [p] now (ex, w))) =
          fst (snd (for_each (supervise E now dl) (map fst (ex_live ex2)) (ex2, w3)))"
    using reconcile_single [OF st, of E now w] live by blast
  have "start_desired E now p (ex1, w) = (Inr (), ex1, w)"
    using ex1 live by (simp add: start_desired_def bt_has_def bt_get_Cons)
  from run [OF this] obtain dl w3 where
    rc: "fst (snd (reconcile E [p] now (ex, w))) = fst (snd (for_each (supervise E now dl) [?aid] (ex1, w3)))"
    using ex1(1) live by auto
  have get: "bt_get (ex_live ex1) ?aid = Some a" using ex1(1) live by (simp add: bt_get_Cons)
  show ?thesis
  proof (cases "i < rp_max_attempts (lc_retry (ap_lifecycle p))")
    case True
    then obtain t' where ph: "la_phase a = PhAwaitingRestart t'" "t' \<le> now" "la_attempt_index a = Suc i" "placement_of ?aid a = p"
      using a now by (auto simp: exited_def Let_def)
    let ?ex0 = "ex1\<lparr>ex_live := []\<rparr>"
    have st0: "standing p ?ex0" using ex1(2) by (simp add: standing_def)
    obtain root h w1 where s: "start_placement E p now (Suc i) (?ex0, w3) =
        (Inr (), ?ex0\<lparr>ex_live := [(?aid, live_of p root h now (Suc i))]\<rparr>, w1)"
      using start_standing [OF p st0, where now = now and i = "Suc i" and w = w3] by auto
    have "maybe_restart E ?aid now (ex1, w3) = (Inr (), ?ex0\<lparr>ex_live := [(?aid, live_of p root h now (Suc i))]\<rparr>, w1)"
      using ph s ex1(1) live by (simp add: maybe_restart_def bt_get_Cons bt_remove_def)
    from supervise_start [OF p fin ex1(2) jit n _ _ this st0, where dl = dl] True show ?thesis unfolding rc by simp
  next
    case False
    then have ph: "la_phase a = PhPermanentFailure" using a by (auto simp: exited_def Let_def)
    have "ap_placement_fence (placement_of ?aid a) = la_placement_fence a" by (simp add: placement_of_def)
    then have "la_placement_fence a = ap_placement_fence p" using a by (simp add: exited_def)
    then have "supervise E now dl ?aid (ex1, w3) = (Inr (), ex1, w3)"
      using ex1(2) by (simp add: supervise_def act_then_def maybe_restart_def observe_one_def tick_checks_def get ph parked_def
          require_fence_def standing_def)
    then show ?thesis
      using rc ex1 live a False by (auto simp: act_then_def exited_def)
  qed
qed

text \<open>
  C20: If every execution of a placement ends without finite success, then passes at least two
  maximal backoffs apart reach the permanent failure: after as many passes as attempts were declared,
  and after any more, the only live entry is permanently failed at exactly the declared number of
  executions (one, when no retry is declared).
\<close>

theorem crashing_attempt_gives_up:
  assumes p: "always_exits E p ec" "ap_hiccup p = None" "ap_capsule_verified p"
    and fin: "\<not> (ap_lifecycle_finite p \<and> ec = Some 0)"
    and jit: "rp_jitter_pct (lc_retry (ap_lifecycle p)) \<le> 100"
    and n: "rp_max_attempts (lc_retry (ap_lifecycle p)) \<le> u32_max"
    and spaced: "sorted_wrt (\<lambda>s t. s + 2 * rp_max_backoff_ms (lc_retry (ap_lifecycle p)) \<le> t) ts"
    and enough: "max 1 (rp_max_attempts (lc_retry (ap_lifecycle p))) \<le> length ts"
  shows "\<exists>a. ex_live (fst (fold (\<lambda>t s. snd (reconcile E [p] t s)) ts
        (executor_new base (connected epoch (ap_placement_fence p)), w))) = [(ap_attempt_id p, a)] \<and>
    la_phase a = PhPermanentFailure \<and>
    la_attempt_index a = max 1 (rp_max_attempts (lc_retry (ap_lifecycle p)))"
proof -
  let ?n = "rp_max_attempts (lc_retry (ap_lifecycle p))"
  let ?run = "\<lambda>ts. fst (fold (\<lambda>t s. snd (reconcile E [p] t s)) ts (executor_new base (connected epoch (ap_placement_fence p)), w))"
  have new: "standing p (executor_new base (connected epoch (ap_placement_fence p)))"
    "ex_live (executor_new base (connected epoch (ap_placement_fence p))) = []"
    by (simp_all add: standing_def executor_new_def connected_def is_isolated_def default_max_live_attempts_def)
  have "sorted_wrt (\<lambda>s t. s + 2 * rp_max_backoff_ms (lc_retry (ap_lifecycle p)) \<le> t) us \<Longrightarrow> us \<noteq> [] \<Longrightarrow>
    \<exists>a. ex_live (?run us) = [(ap_attempt_id p, a)] \<and> standing p (?run us) \<and>
      exited p (last us) (min (length us) (max 1 ?n)) a" for us
  proof (induction us rule: rev_induct)
    case (snoc t us)
    obtain ex0 w0 where f: "fold (\<lambda>t s. snd (reconcile E [p] t s)) us
        (executor_new base (connected epoch (ap_placement_fence p)), w) = (ex0, w0)" by fastforce
    show ?case
    proof (cases "us = []")
      case True
      then show ?thesis using first_pass [OF p fin new jit n, of t w] by simp
    next
      case False
      with snoc f obtain a where a: "ex_live ex0 = [(ap_attempt_id p, a)]" "standing p ex0"
        "exited p (last us) (min (length us) (max 1 ?n)) a" by (auto simp: sorted_wrt_append)
      have "last us + 2 * rp_max_backoff_ms (lc_retry (ap_lifecycle p)) \<le> t"
        using snoc.prems False by (simp add: sorted_wrt_append)
      from next_pass [OF p fin a(2,1,3) jit n this, of w0] obtain b where
        b: "ex_live (fst (snd (reconcile E [p] t (ex0, w0)))) = [(ap_attempt_id p, b)]"
          "standing p (fst (snd (reconcile E [p] t (ex0, w0))))"
        and e: "exited p t (if min (length us) (max 1 ?n) < ?n then Suc (min (length us) (max 1 ?n)) else min (length us) (max 1 ?n)) b"
        by blast
      have "length us \<ge> 1" using False by (cases us) auto
      then have "(if min (length us) (max 1 ?n) < ?n then Suc (min (length us) (max 1 ?n)) else min (length us) (max 1 ?n)) =
          min (length (us @ [t])) (max 1 ?n)"
        by (auto simp: min_def max_def)
      then show ?thesis using b e f by auto
    qed
  qed simp
  moreover have "ts \<noteq> []" and "min (length ts) (max 1 ?n) = max 1 ?n" using enough by auto
  ultimately obtain a where "ex_live (?run ts) = [(ap_attempt_id p, a)]" and "exited p (last ts) (max 1 ?n) a"
    using spaced by metis
  then show ?thesis by (auto simp: exited_def Let_def)
qed


text \<open>
  C25: A finite attempt that completed is not launched again: while every reconcile pass still desires
  it, it stays completed and never becomes live, whatever else happens to the agent.
\<close>

theorem completed_never_relaunched:
  assumes "fold (agent_step E) cs (executor_new base au, w0) = (ex, w)" and "aid \<in> ex_completed ex"
    and "list_all (desires {aid}) ds"
  shows "aid \<in> ex_completed (fst (fold (agent_step E) ds (ex, w))) \<and>
    bt_get (ex_live (fst (fold (agent_step E) ds (ex, w)))) aid = None"
proof -
  have "agent_ok {} ex" using agent_run_ok [of E cs base au w0] assms(1) by simp
  then have "agent_ok {aid} (fst (ex, w))" using assms(2) by (simp add: agent_ok_def)
  from agent_okD(5,7) [OF desired_run_ok [OF this assms(3), of E]] show ?thesis
    by (metis insert_subset not_None_eq)
qed


section \<open>Surprises of one pass\<close>

lemma apply_exit_parks:
  assumes ok: "bt_ok (ex_live ex)" and c: "bt_get (ex_live ex) aid = Some c" and obs: "ob_exit_code obs = None"
  shows "\<exists>d. bt_get (ex_live (fst (snd (apply_exit_policy E aid obs now (ex, w))))) aid = Some d \<and>
    parked (la_phase d) \<and> la_running d = None"
proof -
  define u where "u = (update_live aid (\<lambda>a. a\<lparr>la_last_obs := Some obs\<rparr>) ex, w)"
  obtain ex1 w1 where r: "release_handle E aid c u = (ex1, w1)" by fastforce
  have u: "bt_ok (ex_live (fst u))" "bt_get (ex_live (fst u)) aid = Some (c\<lparr>la_last_obs := Some obs\<rparr>)"
    using ok c by (simp_all add: u_def bt_get_update_live bt_ok_update_live)
  have "bt_ok (ex_live ex1)" and "\<exists>b. bt_get (ex_live ex1) aid = Some b \<and> la_running b = None"
  proof -
    show "bt_ok (ex_live ex1)"
      using r u(1) by (cases u) (auto simp: release_handle_def Let_def bt_ok_update_live split: option.splits prod.splits)
    show "\<exists>b. bt_get (ex_live ex1) aid = Some b \<and> la_running b = None"
      using r u by (cases u; cases "la_running c")
        (auto simp: release_handle_def Let_def bt_get_update_live split: prod.splits)
  qed
  then obtain b where ex1: "bt_ok (ex_live ex1)" "bt_get (ex_live ex1) aid = Some b" "la_running b = None" by blast
  have "parked (la_phase (schedule_retry aid now ec b))" "la_running (schedule_retry aid now ec b) = None"
    "parked (la_phase (fail_permanently ec b))" "la_running (fail_permanently ec b) = None" for ec
    using ex1(3) by (simp_all add: schedule_retry_def fail_permanently_def parked_def Let_def)
  then show ?thesis
    using c obs r ex1 by (simp add: apply_exit_policy_def Let_def bt_get_update_live flip: u_def)
qed

text \<open>
  A liveness check that was not run because the pass had used up its budget counts as a failed check:
  with a failure threshold of at most one the attempt is stopped although nothing was probed.
\<close>

theorem skipped_liveness_check_stops_attempt:
  assumes ok: "agent_ok {} ex" and a: "bt_get (ex_live ex) aid = Some a" "la_phase a = PhRunning"
    and spec: "lc_readiness (la_lifecycle a) = None" "lc_liveness (la_lifecycle a) = Some spec"
    and thr: "cs_failure_threshold spec \<le> 1"
    and due: "check_due now (la_started_ms a) spec (la_liveness a)"
    and spent: "\<And>v. dl \<le> fst (hn_now E v)"
  shows "\<exists>b. bt_get (ex_live (fst (snd (tick_checks E aid now dl (ex, w))))) aid = Some b \<and>
    parked (la_phase b) \<and> la_running b = None"
proof -
  let ?pr = "case la_last_obs a of None \<Rightarrow> True | Some obs \<Rightarrow> ob_running obs"
  obtain w1 where bud: "budget_exhausted E dl w = (True, w1)"
    using spent [of w] by (cases "hn_now E w") (auto simp: budget_exhausted_def)
  have probe: "run_probe E aid True spec a ?pr now dl (ex, w) = (skipped_outcome, ex, w1)"
    using bud by (auto simp: run_probe_def run_http_with_hiccup_def run_check_def Let_def split: option.splits check_kind.splits)
  define b where "b = note_liveness skipped_outcome spec now a"
  have lost: "la_terminal_reason b \<noteq> None" "tr_code (the (la_terminal_reason b)) = reason_liveness_failed"
    and same: "la_running b = la_running a" "la_lifecycle b = la_lifecycle a" "la_lifecycle_finite b = la_lifecycle_finite a"
    using thr by (auto simp: b_def note_liveness_def skipped_outcome_def check_record_def Let_def sat_add32_def u32_max_def max_def)
  note bok = agent_okD(1) [OF ok]
  define ex2 where "ex2 = update_live aid (note_liveness skipped_outcome spec now) ex"
  have ex2: "bt_get (ex_live ex2) aid = Some b" "bt_ok (ex_live ex2)"
    using a bok by (simp_all add: ex2_def b_def bt_get_update_live bt_ok_update_live)
  then have ll: "liveness_lost ex2 aid" using lost by (auto simp: liveness_lost_def)
  obtain c ex3 w3 where k: "snd (kill_running E aid (ex2, w1)) = (ex3, w3)" and
    ex3: "bt_get (ex_live ex3) aid = Some c" "bt_ok (ex_live ex3)"
  proof (cases "la_running b")
    case None
    with that [of ex2 w1 b] ex2 show ?thesis by (simp add: kill_running_def)
  next
    case (Some r)
    obtain res r1 w2 where "ae_kill E r w1 = (res, r1, w2)" by (metis prod.collapse)
    with that [of "update_live aid (\<lambda>a. a\<lparr>la_running := Some r1\<rparr>) ex2" w2 "b\<lparr>la_running := Some r1\<rparr>"] ex2 Some
    show ?thesis by (simp add: kill_running_def bt_get_update_live bt_ok_update_live)
  qed
  have exit: "\<exists>d. bt_get (ex_live (fst (snd (apply_exit_policy E aid \<lparr>ob_running = False, ob_exit_code = None\<rparr> now (ex3, w3))))) aid = Some d \<and>
      parked (la_phase d) \<and> la_running d = None"
    using ex3 by (intro apply_exit_parks) simp_all
  have "tick_checks E aid now dl (ex, w) =
      apply_exit_policy E aid \<lparr>ob_running = False, ob_exit_code = None\<rparr> now (ex3, w3)"
    using a spec due probe ll k
    by (simp add: tick_checks_def readiness_tick_def liveness_tick_def Let_def flip: ex2_def)
  with exit show ?thesis by simp
qed

text \<open>
  A desired placement that cannot be started ends the pass with its error: no later placement is
  started and no live attempt is restarted, observed or checked.
\<close>

theorem failed_start_ends_pass:
  assumes "\<not> is_isolated (ex_authority ex)" and "au_placement_fence (ex_authority ex) = ap_placement_fence p"
    and "\<not> ap_capsule_verified p" and "bt_get (ex_live ex) (ap_attempt_id p) = None"
    and "ap_attempt_id p \<notin> ex_completed ex"
    and "\<forall>aid \<in> set (map fst (ex_live ex)). aid \<in> set (map ap_attempt_id ps)"
  shows "fst (reconcile E (p # ps) now (ex, w)) = Inl UnverifiedCapsule \<and>
    ex_live (fst (snd (reconcile E (p # ps) now (ex, w)))) = ex_live ex \<and>
    snd (snd (reconcile E (p # ps) now (ex, w))) = w"
proof -
  let ?ids = "set (map ap_attempt_id (p # ps))"
  let ?ex1 = "ex\<lparr>ex_completed := ex_completed ex \<inter> ?ids, ex_completion_events := ex_completion_events ex \<inter> ?ids\<rparr>"
  have obs: "filter (\<lambda>aid. aid \<notin> ?ids) (map fst (ex_live ?ex1)) = []"
    using assms(6) by (auto simp: filter_empty_conv)
  have s: "start_desired E now p (?ex1, w) = (Inl UnverifiedCapsule, ?ex1, w)"
    using assms by (simp add: start_desired_def bt_has_def start_placement_def allow_effect_def require_fence_def)
  have rc: "reconcile E (p # ps) now (ex, w) = reconcile_connected E (p # ps) now (ex, w)"
    using assms(1) by (simp add: reconcile_def is_isolated_def isolation_grace_expired_def)
  have "reconcile_connected E (p # ps) now (ex, w) = (Inl UnverifiedCapsule, ?ex1, w)"
    unfolding reconcile_connected_def Let_def prod.case obs
    by (simp only: act_then_def for_each.simps prod.case sum.case s)
  then show ?thesis by (simp add: rc)
qed

lemma start_placement_error:
  "fst (start_placement E p now i (ex, w)) = Inl e \<Longrightarrow> fst (snd (start_placement E p now i (ex, w))) = ex"
proof (cases "allow_effect (ex_authority ex) (ap_placement_fence p) (if i > 1 then EffRestart else EffStart)")
  case (Inr u)
  assume "fst (start_placement E p now i (ex, w)) = Inl e"
  then show ?thesis
    unfolding start_placement_def prod.case Inr sum.case Let_def by (auto split: sum.splits prod.splits if_splits)
qed (simp only: start_placement_def prod.case sum.case fst_conv snd_conv)

text \<open>
  A restart that fails forgets the attempt: its entry is gone, so the next pass that desires it
  starts it as execution number one again.
\<close>

theorem failed_restart_forgets_attempt:
  assumes "bt_get (ex_live ex) aid = Some a" and "la_phase a = PhAwaitingRestart t" and "t \<le> now"
    and "fst (maybe_restart E aid now (ex, w)) = Inl e"
  shows "bt_get (ex_live (fst (snd (maybe_restart E aid now (ex, w))))) aid = None"
  using assms start_placement_error [of E "placement_of aid a" now "la_attempt_index a"]
  by (simp add: maybe_restart_def bt_simps)

section \<open>A concrete host\<close>

text \<open>A host on which every start succeeds and every process has exited with the given code.\<close>

definition exit_env :: "int option \<Rightarrow> (unit, unit) agent_env" where
  "exit_env ec =
     \<lparr>hn_now = (\<lambda>w. (0, w)), hn_connect = (\<lambda>_ _ w. (Inr (), w)), hn_http = (\<lambda>_ _ _ w. (Inr [], w)),
      hn_command = (\<lambda>_ _ w. (Inr True, w)), ae_is_dir = (\<lambda>_ _. True), ae_exists = (\<lambda>_ _. False),
      ae_remove_dir_all = (\<lambda>_ w. (Inr (), w)), ae_create_dir_all = (\<lambda>_ w. (Inr (), w)),
      ae_prepare = (\<lambda>_ _ _ _ w. (Inr (), w)), ae_secrets = None, ae_admit = (\<lambda>_ _ _ w. (Inr (), w)),
      ae_start = (\<lambda>_ _ _ w. (Inr (), w)),
      ae_observe = (\<lambda>h w. (Inr \<lparr>ob_running = False, ob_exit_code = ec\<rparr>, h, w)),
      ae_terminate = (\<lambda>h _ w. (Inr (), h, w)), ae_kill = (\<lambda>h w. (Inr (), h, w)),
      ae_into_prepared = (\<lambda>h w. (h, w)), ae_cleanup = (\<lambda>_ w. (Inr (), w)), ae_captured = (\<lambda>_ _. (0, 0)),
      ae_random = (\<lambda>w. ([], w)), ae_hyph = byte_text, ae_parse_id = (\<lambda>_. None), ae_digest = (\<lambda>bs. bs),
      ae_json = reads self_body, ae_keeper = silent_keeper\<rparr>"

definition unit_placement :: "bool \<Rightarrow> accepted_placement" where
  "unit_placement f =
     \<lparr>ap_attempt_id = [5], ap_unit_id = [1], ap_placement_fence = 7, ap_release_root = ''/release'',
      ap_runtime = \<lparr>rs_kind = DriverNative, rs_command = [''run''], rs_interpreter = None, rs_workdir = None\<rparr>,
      ap_lifecycle_finite = f, ap_capsule_verified = True,
      ap_lifecycle = lifecycle_contract_default\<lparr>lc_retry := retry_policy_default\<lparr>rp_max_attempts := 2\<rparr>\<rparr>,
      ap_hiccup = None\<rparr>"

lemma exit_env_exits: "always_exits (exit_env ec) p ec"
  by (simp add: always_exits_def exit_env_def)

lemma unit_placement_fields:
  "ap_hiccup (unit_placement f) = None" "ap_capsule_verified (unit_placement f)" "ap_attempt_id (unit_placement f) = [5]"
  "ap_lifecycle_finite (unit_placement f) = f" "ap_placement_fence (unit_placement f) = 7"
  "rp_jitter_pct (lc_retry (ap_lifecycle (unit_placement f))) = 20"
  "rp_max_attempts (lc_retry (ap_lifecycle (unit_placement f))) = 2"
  "rp_max_backoff_ms (lc_retry (ap_lifecycle (unit_placement f))) = 300000"
  by (simp_all add: unit_placement_def retry_policy_default_def default_jitter_pct_def default_max_backoff_ms_def)


theorem crashing_attempt_gives_up_witness:
  "\<exists>a. ex_live (fst (fold (\<lambda>t s. snd (reconcile (exit_env (Some 1)) [unit_placement True] t s)) [0, 600000, 1200000]
      (executor_new ''/attempts'' (connected 1 (ap_placement_fence (unit_placement True))), ()))) =
      [(ap_attempt_id (unit_placement True), a)] \<and>
    la_phase a = PhPermanentFailure \<and>
    la_attempt_index a = max 1 (rp_max_attempts (lc_retry (ap_lifecycle (unit_placement True))))"
  by (rule crashing_attempt_gives_up [OF exit_env_exits]) (simp_all add: unit_placement_fields u32_max_def)



lemma completed_once:
  "fold (agent_step (exit_env (Some 0))) [AReconcile [unit_placement True] 0]
     (executor_new ''/attempts'' (connected 1 7), ()) =
   ((executor_new ''/attempts'' (connected 1 7))
      \<lparr>ex_completed := {[5]}, ex_completion_events := {[5]},
       ex_hiccup := plane_remove_attempt (reads self_body) [5] plane_new\<rparr>, ())"
  by (simp add: reconcile_def reconcile_connected_def executor_new_def connected_def is_isolated_def
      isolation_grace_expired_def act_then_def start_desired_def bt_has_def unit_placement_fields start_placement_def
      allow_effect_def require_fence_def default_max_live_attempts_def exit_env_def launch_def fresh_root_def act_with_def
      attempt_token_def join_plane_def budget_new_def supervise_def maybe_restart_def bt_get_Cons live_of_def
      observe_one_def parked_def update_live_def observed_def apply_exit_policy_def Let_def release_handle_def
      cleanup_live_def bt_remove_def tick_checks_def remove_attempt_root_def)

theorem completed_never_relaunched_witness:
  "[5] \<in> ex_completed (fst (fold (agent_step (exit_env (Some 0))) [AReconcile [unit_placement True] 0, AReconcile [unit_placement True] 9]
      (executor_new ''/attempts'' (connected 1 7), ()))) \<and>
   bt_get (ex_live (fst (fold (agent_step (exit_env (Some 0))) [AReconcile [unit_placement True] 0, AReconcile [unit_placement True] 9]
      (executor_new ''/attempts'' (connected 1 7), ())))) [5] = None"
proof -
  have "[5] \<in> ex_completed ((executor_new ''/attempts'' (connected 1 7))
      \<lparr>ex_completed := {[5]}, ex_completion_events := {[5]},
       ex_hiccup := plane_remove_attempt (reads self_body) [5] plane_new\<rparr> :: unit executor)"
    and "list_all (desires {[5]}) [AReconcile [unit_placement True] 9]"
    by (simp_all add: desires_def unit_placement_fields)
  from completed_never_relaunched [OF completed_once this] completed_once show ?thesis by simp
qed

definition isolated_executor :: "unit executor" where
  "isolated_executor = (mark_isolated 10 (executor_new ''/attempts'' (connected 1 7)))
     \<lparr>ex_live := [([5], live_of (unit_placement True) ''/attempts/5'' () 0 1)]\<rparr>"

theorem isolated_agent_inert_witness:
  "map fst (ex_live (fst (snd (reconcile (exit_env (Some 1)) [] 20 (isolated_executor, ()))))) = [[5]]"
proof -
  have "agent_ok {} isolated_executor" "is_isolated (ex_authority isolated_executor)"
    "\<not> isolation_grace_expired (ex_authority isolated_executor) (ex_isolation isolated_executor) 20"
    "map fst (ex_live isolated_executor) = [[5]]"
    by (auto simp: isolated_executor_def agent_ok_def mark_isolated_def executor_new_def connected_def is_isolated_def
        isolation_grace_expired_def isolation_policy_default_def effective_grace_ms_def default_isolation_grace_ms_def
        sat_sub_def bt_ok_Cons bt_get_Cons default_max_live_attempts_def attempt_ok_def live_of_def unit_placement_fields
        split: if_splits)
  with isolated_agent_inert [of isolated_executor 20 "exit_env None" "exit_env (Some 1)" "[]" "()" "[]"] show ?thesis by simp
qed

end
