(* ===== verification/Wire_Frames.thy ===== *)
theory Wire_Frames
  imports Text_Bytes
begin

text \<open>
  The framing of control streams (\<open>gump-protocol/src/frame.rs\<close>): a payload behind its length as a
  protobuf varint, with a ceiling per kind of message.
\<close>

definition max_control_frame :: usize where "max_control_frame = 2 ^ 20"
definition max_error_frame :: usize where "max_error_frame = 16 * 2 ^ 10"
definition max_hello_frame :: usize where "max_hello_frame = 64 * 2 ^ 10"

datatype frame_kind = FrameControl | FrameErrorKind | FrameHello

fun frame_max_len :: "frame_kind \<Rightarrow> usize" where
  "frame_max_len FrameControl = max_control_frame"
| "frame_max_len FrameErrorKind = max_error_frame"
| "frame_max_len FrameHello = max_hello_frame"

datatype frame_error = FrameTruncated | VarintOverflow | LengthExceedsCeiling usize usize | EmptyFrame

fun frame_error_display :: "frame_error \<Rightarrow> string" where
  "frame_error_display FrameTruncated = ''truncated frame''"
| "frame_error_display VarintOverflow = ''varint overflow''"
| "frame_error_display (LengthExceedsCeiling n c) =
     ''frame length '' @ show_nat n @ '' exceeds ceiling '' @ show_nat c"
| "frame_error_display EmptyFrame = ''empty frame payload''"

text \<open>
  The loop of \<open>decode_varint\<close> at byte \<open>i\<close>, where \<open>shift\<close> is \<open>7 * i\<close>. The bits of \<open>value\<close> lie below
  the shift, so the bitwise or is a sum; the shift drops what does not fit 64 bits.
\<close>

fun decode_varint_from :: "nat \<Rightarrow> u64 \<Rightarrow> bytes \<Rightarrow> frame_error + (u64 \<times> usize)" where
  "decode_varint_from i value [] = Inl FrameTruncated"
| "decode_varint_from i value (b # bs) =
     (if i \<ge> 10 then Inl VarintOverflow
      else
        (let v = value + (unat b mod 128) * 2 ^ (7 * i) mod 2 ^ 64
         in if unat b < 128 then Inr (v, i + 1)
            else if 7 * i + 7 \<ge> 64 then Inl VarintOverflow
            else decode_varint_from (Suc i) v bs))"

definition decode_varint :: "bytes \<Rightarrow> frame_error + (u64 \<times> usize)" where
  "decode_varint buf = decode_varint_from 0 0 buf"

fun encode_varint :: "u64 \<Rightarrow> bytes" where
  "encode_varint value =
     (if value div 128 \<noteq> 0 then of_nat (value mod 128 + 128) # encode_varint (value div 128)
      else [of_nat (value mod 128)])"

declare encode_varint.simps [simp del]

definition decode_frame_prefix :: "bytes \<Rightarrow> frame_kind \<Rightarrow> frame_error + (usize \<times> usize)" where
  "decode_frame_prefix buf kind =
     (case decode_varint buf of
        Inl e \<Rightarrow> Inl e
      | Inr (len, prefix_len) \<Rightarrow>
          if len = 0 then Inl EmptyFrame
          else if len > frame_max_len kind then Inl (LengthExceedsCeiling len (frame_max_len kind))
          else if prefix_len + len > u64_max then Inl VarintOverflow
          else if length buf < prefix_len + len then Inl FrameTruncated
          else Inr (len, prefix_len))"

definition split_frame :: "bytes \<Rightarrow> frame_kind \<Rightarrow> frame_error + (bytes \<times> usize)" where
  "split_frame buf kind =
     (case decode_frame_prefix buf kind of
        Inl e \<Rightarrow> Inl e
      | Inr (len, prefix_len) \<Rightarrow> Inr (take len (drop prefix_len buf), prefix_len + len))"

definition encode_frame :: "bytes \<Rightarrow> frame_kind \<Rightarrow> frame_error + bytes" where
  "encode_frame payload kind =
     (if payload = [] then Inl EmptyFrame
      else if length payload > frame_max_len kind
        then Inl (LengthExceedsCeiling (length payload) (frame_max_len kind))
      else Inr (encode_varint (length payload) @ payload))"

section \<open>Round trip\<close>

lemma frame_max_len_small: "frame_max_len kind \<le> 2 ^ 20"
  by (cases kind) (simp_all add: max_control_frame_def max_error_frame_def max_hello_frame_def)

lemma decode_encode_varint_from:
  assumes "v * 2 ^ (7 * i) < 2 ^ 64" and "i < 10"
  shows "decode_varint_from i acc (encode_varint v @ rest) = Inr (acc + v * 2 ^ (7 * i), i + length (encode_varint v))"
  using assms
proof (induction v arbitrary: i acc rule: encode_varint.induct)
  case (1 v)
  have low: "(v mod 128) * 2 ^ (7 * i) < 2 ^ 64"
    using 1(2) by (metis le_less_trans mod_less_eq_dividend mult_le_mono1)
  show ?case
  proof (cases "v div 128 = 0")
    case True
    then have v: "v < 128" by simp
    then have "unat (of_nat v :: byte) = v" by (simp add: unat_of_nat)
    with v low 1(3) True show ?thesis by (simp add: encode_varint.simps [of v])
  next
    case False
    then have ge: "128 \<le> v" by simp
    have "v mod 128 < 128" by simp
    then have "unat (of_nat (v mod 128 + 128) :: byte) = v mod 128 + 128"
      by (subst unat_of_nat) (simp add: mod_less)
    then have b: "unat (of_nat (v mod 128) + 128 :: byte) = v mod 128 + 128" by simp
    have "(128::nat) * 2 ^ (7 * i) < 2 ^ 64" using ge 1(2) by (meson le_less_trans mult_le_mono1)
    then have "(2::nat) ^ (7 * i + 7) < 2 ^ 64" by (simp add: power_add)
    then have i: "7 * i + 7 < 64" by (rule power_less_imp_less_exp [rotated]) simp
    have eq: "v * 2 ^ (7 * i) = (v mod 128) * 2 ^ (7 * i) + (v div 128) * 2 ^ (7 * Suc i)"
    proof -
      have gen: "m * k + d * (128 * k) = (d * 128 + m) * k" for m k d :: nat by (simp add: algebra_simps)
      show ?thesis using gen [of "v mod 128" "2 ^ (7 * i)" "v div 128"] by (simp add: power_add)
    qed
    then have "(v div 128) * 2 ^ (7 * Suc i) < 2 ^ 64" using 1(2) by linarith
    moreover have "Suc i < 10" using i by simp
    ultimately have "decode_varint_from (Suc i) (acc + (v mod 128) * 2 ^ (7 * i)) (encode_varint (v div 128) @ rest) =
        Inr (acc + (v mod 128) * 2 ^ (7 * i) + (v div 128) * 2 ^ (7 * Suc i), Suc i + length (encode_varint (v div 128)))"
      using 1(1) [OF False] by blast
    then show ?thesis
      using False low i 1(3) b eq by (simp add: encode_varint.simps [of v])
  qed
qed

lemma decode_encode_varint:
  "v \<le> u64_max \<Longrightarrow> decode_varint (encode_varint v @ rest) = Inr (v, length (encode_varint v))"
  using decode_encode_varint_from [of v 0 0 rest] by (simp add: decode_varint_def u64_max_def)

lemma encode_varint_length: "v < 128 ^ Suc k \<Longrightarrow> length (encode_varint v) \<le> Suc k"
proof (induction k arbitrary: v)
  case (Suc k)
  have "v div 128 < 128 ^ Suc k" using Suc.prems by (intro less_mult_imp_div_less) (simp add: mult.commute)
  from Suc.IH [OF this] show ?case by (simp add: encode_varint.simps [of v])
qed (simp add: encode_varint.simps)

text \<open>
  A payload that encodes is split off again exactly, whatever follows it on the stream, and the
  number of bytes consumed is the length of the frame.
\<close>

theorem frame_roundtrip:
  assumes "encode_frame payload kind = Inr frame"
  shows "split_frame (frame @ rest) kind = Inr (payload, length frame)"
proof -
  have p: "payload \<noteq> []" "length payload \<le> frame_max_len kind"
    and f: "frame = encode_varint (length payload) @ payload"
    using assms by (auto simp: encode_frame_def split: if_splits)
  have small: "length payload \<le> 2 ^ 20" using p(2) frame_max_len_small le_trans by blast
  then have d: "decode_varint (frame @ rest) = Inr (length payload, length (encode_varint (length payload)))"
    unfolding f using decode_encode_varint [of "length payload" "payload @ rest"] by (simp add: u64_max_def)
  have "length (encode_varint (length payload)) \<le> 5" using encode_varint_length [of "length payload" 4] small by simp
  then have "length (encode_varint (length payload)) + length payload \<le> u64_max" using small by (simp add: u64_max_def)
  with p d show ?thesis by (simp add: split_frame_def decode_frame_prefix_def f)
qed

theorem frame_roundtrip_witness:
  "encode_frame [1, 2, 3] FrameControl = Inr [3, 1, 2, 3] \<and>
   split_frame ([3, 1, 2, 3] @ [9, 9]) FrameControl = Inr ([1, 2, 3], 4)"
proof -
  have e: "encode_frame [1, 2, 3] FrameControl = Inr [3, 1, 2, 3]"
    by (simp add: encode_frame_def encode_varint.simps max_control_frame_def)
  from e frame_roundtrip [OF e, of "[9, 9]"] show ?thesis by simp
qed

text \<open>
  A length above the ceiling is refused from the prefix alone, before any byte of the payload.
\<close>

theorem over_ceiling_refused:
  assumes "v \<le> u64_max" and "frame_max_len kind < v"
  shows "decode_frame_prefix (encode_varint v) kind = Inl (LengthExceedsCeiling v (frame_max_len kind))"
  using decode_encode_varint [OF assms(1), of "[]"] assms(2) by (simp add: decode_frame_prefix_def)

text \<open>The tenth byte may carry bits beyond 64: they are dropped, and the length read is another one.\<close>

theorem varint_tenth_byte_truncates:
  "decode_varint [0x80, 0x80, 0x80, 0x80, 0x80, 0x80, 0x80, 0x80, 0x80, 2] = Inr (0, 10)"
  by (simp add: decode_varint_def)

end
