(* ===== verification/Capsule_Header.thy ===== *)
theory Capsule_Header
  imports Text_Bytes
begin

text \<open>
  The deterministic CBOR header of a Capsule (\<open>gump-capsule/src/header.rs\<close>, \<open>error.rs\<close>).

  An error carries its kind and the constant part of its message. \<open>CapPanic\<close> is a panic: the cursor
  adds a length from the input to its position without a check, and a sum beyond 64 bits either
  panics at the addition (debug builds) or wraps below the position, where the slice panics.
\<close>

section \<open>Errors\<close>

datatype capsule_error_kind = CapFraming | CapHeader | CapTable | CapSegment | CapIo | CapLimit

fun capsule_error_kind_display :: "capsule_error_kind \<Rightarrow> string" where
  "capsule_error_kind_display CapFraming = ''framing''"
| "capsule_error_kind_display CapHeader = ''header''"
| "capsule_error_kind_display CapTable = ''table''"
| "capsule_error_kind_display CapSegment = ''segment''"
| "capsule_error_kind_display CapIo = ''io''"
| "capsule_error_kind_display CapLimit = ''limit''"

datatype capsule_fault = CapErr capsule_error_kind string | CapPanic

text \<open>The question mark operator on a parse that carries its position.\<close>

definition and_then :: "'e + 'a \<Rightarrow> ('a \<Rightarrow> 'e + 'b) \<Rightarrow> 'e + 'b" where
  "and_then r f = (case r of Inl e \<Rightarrow> Inl e | Inr a \<Rightarrow> f a)"

lemma and_then_simps [simp]: "and_then (Inl e) f = Inl e" "and_then (Inr a) f = f a"
  by (simp_all add: and_then_def)

lemma and_then_Inr: "and_then r f = Inr b \<longleftrightarrow> (\<exists>a. r = Inr a \<and> f a = Inr b)"
  by (auto simp: and_then_def split: sum.splits)

section \<open>Encoding\<close>

definition dialect :: string where "dialect = ''gump/deployment/1''"
definition payload_layout :: string where "payload_layout = ''gump-segments/1''"

record capsule_header =
  gh_capsule_id :: bytes
  gh_cluster_id :: bytes
  gh_release_signer :: string
  gh_created_unix_ms :: i64

definition encode_len :: "nat \<Rightarrow> usize \<Rightarrow> bytes" where
  "encode_len major len =
     (if len < 24 then [of_nat (major * 32 + len)]
      else if len \<le> 255 then [of_nat (major * 32 + 24), of_nat len]
      else if len \<le> 65535 then of_nat (major * 32 + 25) # to_be 2 len
      else if len \<le> u32_max then of_nat (major * 32 + 26) # to_be 4 len
      else of_nat (major * 32 + 27) # to_be 8 len)"

definition encode_text :: "string \<Rightarrow> bytes" where
  "encode_text s = encode_len 3 (length s) @ bytes_of_string s"

definition encode_bstr16 :: "bytes \<Rightarrow> bytes" where
  "encode_bstr16 bs = encode_len 2 16 @ bs"

definition encode_int :: "i64 \<Rightarrow> bytes" where
  "encode_int v = (if v \<ge> 0 then encode_len 0 (nat v) else encode_len 1 (nat (- 1 - v)))"

definition encode_cbor_bstr :: "bytes \<Rightarrow> bytes" where
  "encode_cbor_bstr inner = encode_len 2 (length inner) @ inner"

definition encode_cbor_bstr_prefix :: "usize \<Rightarrow> bytes" where
  "encode_cbor_bstr_prefix inner_len = encode_len 2 inner_len"

definition lower_hex :: "char \<Rightarrow> bool" where
  "lower_hex c \<longleftrightarrow> (CHR ''0'' \<le> c \<and> c \<le> CHR ''9'') \<or> (CHR ''a'' \<le> c \<and> c \<le> CHR ''f'')"

definition encode_cbor :: "capsule_header \<Rightarrow> capsule_fault + bytes" where
  "encode_cbor h =
     (if gh_release_signer h = [] \<or> length (gh_release_signer h) > 256
      then Inl (CapErr CapHeader ''release_signer length out of range'')
      else if \<not> list_all lower_hex (gh_release_signer h)
      then Inl (CapErr CapHeader ''release_signer must be lowercase hex fingerprint'')
      else Inr ([0xa6] @
        encode_text ''dialect'' @ encode_text dialect @
        encode_text ''capsule_id'' @ encode_bstr16 (gh_capsule_id h) @
        encode_text ''cluster_id'' @ encode_bstr16 (gh_cluster_id h) @
        encode_text ''payload_layout'' @ encode_text payload_layout @
        encode_text ''release_signer'' @ encode_text (gh_release_signer h) @
        encode_text ''created_unix_ms'' @ encode_int (gh_created_unix_ms h)))"

section \<open>The cursor\<close>

type_synonym 'a cursor_read = "bytes \<Rightarrow> usize \<Rightarrow> capsule_fault + 'a \<times> usize"

definition cur_take :: "usize \<Rightarrow> bytes cursor_read" where
  "cur_take n bs pos =
     (let e = wrap_add64 pos n
      in if e > length bs then Inl (CapErr CapHeader ''truncated CBOR'')
         else if e < pos then Inl CapPanic
         else Inr (take n (drop pos bs), e))"

definition read_initial :: "(nat \<times> u64) cursor_read" where
  "read_initial bs pos =
     and_then (cur_take 1 bs pos) (\<lambda>(first, p1).
       let major = unat (hd first) div 32; ai = unat (hd first) mod 32;
           wide = (\<lambda>n. and_then (cur_take n bs p1) (\<lambda>(b, p2). Inr ((major, be_nat b), p2)))
       in if ai \<le> 23 then Inr ((major, ai), p1)
          else if ai = 24 then wide 1
          else if ai = 25 then wide 2
          else if ai = 26 then wide 4
          else if ai = 27 then wide 8
          else Inl (CapErr CapHeader ''non-deterministic or indefinite CBOR length''))"

definition read_map_len :: "usize cursor_read" where
  "read_map_len bs pos =
     and_then (read_initial bs pos) (\<lambda>((major, val), p).
       if major \<noteq> 5 then Inl (CapErr CapHeader ''expected CBOR map'') else Inr (val, p))"

definition read_text :: "string cursor_read" where
  "read_text bs pos =
     and_then (read_initial bs pos) (\<lambda>((major, val), p).
       if major \<noteq> 3 then Inl (CapErr CapHeader ''expected CBOR text'')
       else and_then (cur_take val bs p) (\<lambda>(s, p2).
         if utf8_valid s then Inr (string_of_bytes s, p2)
         else Inl (CapErr CapHeader ''header text not UTF-8'')))"

definition read_bstr :: "bytes cursor_read" where
  "read_bstr bs pos =
     and_then (read_initial bs pos) (\<lambda>((major, val), p).
       if major \<noteq> 2 then Inl (CapErr CapFraming ''expected CBOR byte string'')
       else cur_take val bs p)"

definition read_bstr_exact :: "usize \<Rightarrow> bytes cursor_read" where
  "read_bstr_exact n bs pos =
     and_then (read_bstr bs pos) (\<lambda>(b, p).
       if length b \<noteq> n \<or> n \<noteq> 16 then Inl (CapErr CapHeader ''expected bstr length'') else Inr (b, p))"

definition read_int :: "i64 cursor_read" where
  "read_int bs pos =
     and_then (read_initial bs pos) (\<lambda>((major, val), p).
       if major = 0 then
         (if val < 2 ^ 63 then Inr (int val, p) else Inl (CapErr CapHeader ''integer overflow''))
       else if major = 1 then
         (if val < 2 ^ 63 then Inr (- 1 - int val, p) else Inl (CapErr CapHeader ''integer overflow''))
       else Inl (CapErr CapHeader ''expected CBOR integer''))"

section \<open>Decoding\<close>

record header_fields =
  hf_dialect :: "string option"
  hf_capsule_id :: "bytes option"
  hf_cluster_id :: "bytes option"
  hf_payload_layout :: "string option"
  hf_release_signer :: "string option"
  hf_created_unix_ms :: "i64 option"

definition no_fields :: header_fields where
  "no_fields = \<lparr>hf_dialect = None, hf_capsule_id = None, hf_cluster_id = None, hf_payload_layout = None,
     hf_release_signer = None, hf_created_unix_ms = None\<rparr>"

definition read_field :: "string \<Rightarrow> header_fields \<Rightarrow> header_fields cursor_read" where
  "read_field key f bs p =
     (if key = ''dialect'' then
        and_then (read_text bs p) (\<lambda>(v, q). Inr (f\<lparr>hf_dialect := Some v\<rparr>, q))
      else if key = ''capsule_id'' then
        and_then (read_bstr_exact 16 bs p) (\<lambda>(v, q). Inr (f\<lparr>hf_capsule_id := Some v\<rparr>, q))
      else if key = ''cluster_id'' then
        and_then (read_bstr_exact 16 bs p) (\<lambda>(v, q). Inr (f\<lparr>hf_cluster_id := Some v\<rparr>, q))
      else if key = ''payload_layout'' then
        and_then (read_text bs p) (\<lambda>(v, q). Inr (f\<lparr>hf_payload_layout := Some v\<rparr>, q))
      else if key = ''release_signer'' then
        and_then (read_text bs p) (\<lambda>(v, q). Inr (f\<lparr>hf_release_signer := Some v\<rparr>, q))
      else if key = ''created_unix_ms'' then
        and_then (read_int bs p) (\<lambda>(v, q). Inr (f\<lparr>hf_created_unix_ms := Some v\<rparr>, q))
      else Inl (CapErr CapHeader ''unknown header key''))"

fun read_fields :: "nat \<Rightarrow> bytes \<Rightarrow> header_fields \<Rightarrow> header_fields cursor_read" where
  "read_fields 0 last_key f bs p = Inr (f, p)"
| "read_fields (Suc n) last_key f bs p =
     and_then (read_text bs p) (\<lambda>(key, q).
       let key_enc = take (q - p) (drop p bs)
       in if last_key \<noteq> [] \<and> key_enc \<le> last_key
          then Inl (CapErr CapHeader ''header map keys not in deterministic order'')
          else and_then (read_field key f bs q) (\<lambda>(f', r). read_fields n key_enc f' bs r))"

definition required :: "'a option \<Rightarrow> ('a \<Rightarrow> capsule_fault + 'b) \<Rightarrow> capsule_fault + 'b" where
  "required v f = (case v of None \<Rightarrow> Inl (CapErr CapHeader ''missing header field'') | Some a \<Rightarrow> f a)"

definition finish_header :: "header_fields \<Rightarrow> capsule_fault + capsule_header" where
  "finish_header f =
     required (hf_dialect f) (\<lambda>d.
       if d \<noteq> dialect then Inl (CapErr CapHeader ''unsupported dialect'')
       else required (hf_payload_layout f) (\<lambda>l.
         if l \<noteq> payload_layout then Inl (CapErr CapHeader ''unsupported payload_layout'')
         else required (hf_capsule_id f) (\<lambda>a. required (hf_cluster_id f) (\<lambda>b.
           required (hf_release_signer f) (\<lambda>s. required (hf_created_unix_ms f) (\<lambda>t.
             Inr \<lparr>gh_capsule_id = a, gh_cluster_id = b, gh_release_signer = s, gh_created_unix_ms = t\<rparr>))))))"

definition decode_cbor :: "bytes \<Rightarrow> capsule_fault + capsule_header" where
  "decode_cbor bs =
     and_then (read_map_len bs 0) (\<lambda>(n, p).
       if n \<noteq> 6 then Inl (CapErr CapHeader ''header map must have 6 entries'')
       else and_then (read_fields 6 [] no_fields bs p) (\<lambda>(f, q).
         if q \<noteq> length bs then Inl (CapErr CapHeader ''trailing bytes after header map'')
         else finish_header f))"

definition decode_cbor_bstr :: "bytes \<Rightarrow> capsule_fault + bytes" where
  "decode_cbor_bstr bs =
     and_then (read_bstr bs 0) (\<lambda>(inner, p).
       if p \<noteq> length bs then Inl (CapErr CapFraming ''payload CBOR must be exactly one byte string'')
       else Inr inner)"

section \<open>Round trips\<close>

lemma cur_take_at:
  assumes "length (pre @ xs @ post) \<le> u64_max"
  shows "cur_take (length xs) (pre @ xs @ post) (length pre) = Inr (xs, length pre + length xs)"
  using assms by (simp add: cur_take_def wrap_add64_exact)

lemma length_encode_len: "length (encode_len m n) \<in> {1, 2, 3, 5, 9}"
  by (simp add: encode_len_def)

lemma read_initial_encode:
  assumes fit: "length (pre @ encode_len m n @ post) \<le> u64_max" and n: "n \<le> u64_max" and m: "m < 8"
  shows "read_initial (pre @ encode_len m n @ post) (length pre) = Inr ((m, n), length pre + length (encode_len m n))"
proof -
  have first: "cur_take 1 (pre @ (b # t) @ post) (length pre) = Inr ([b], Suc (length pre))"
    if "length (pre @ (b # t) @ post) \<le> u64_max" for b t
    using cur_take_at [of pre "[b]" "t @ post"] that by simp
  have rest: "cur_take k (pre @ (b # t) @ post) (Suc (length pre)) = Inr (t, Suc (length pre) + k)"
    if "length (pre @ (b # t) @ post) \<le> u64_max" "length t = k" for b t k
    using cur_take_at [of "pre @ [b]" t post] that by simp
  have u: "unat (of_nat (m * 32 + k) :: byte) = m * 32 + k" if "k < 32" for k
    using that m by (subst unat_of_nat) simp
  have dm: "(m * 32 + k) div 32 = m" "(m * 32 + k) mod 32 = k" if "k < 32" for k
    using that by simp_all
  consider "n < 24" | "24 \<le> n" "n \<le> 255" | "255 < n" "n \<le> 65535" | "65535 < n" "n \<le> u32_max" | "u32_max < n"
    by linarith
  then show ?thesis
  proof cases
    case 1
    then have e: "encode_len m n = [of_nat (m * 32 + n)]" by (simp add: encode_len_def)
    show ?thesis using fit 1 first [of "of_nat (m * 32 + n)" "[]"]
      unfolding e read_initial_def by (simp add: u dm Let_def del: of_nat_add of_nat_mult)
  next
    case 2
    then have e: "encode_len m n = [of_nat (m * 32 + 24), of_nat n]" by (simp add: encode_len_def)
    have b: "be_nat [of_nat n] = n" using 2 by (simp add: be_nat_def unat_of_nat)
    show ?thesis using fit 2 b first [of "of_nat (m * 32 + 24)" "[of_nat n]"] rest [of "of_nat (m * 32 + 24)" "[of_nat n]" 1]
      unfolding e read_initial_def by (simp add: u dm Let_def del: of_nat_add of_nat_mult)
  next
    case 3
    then have e: "encode_len m n = of_nat (m * 32 + 25) # to_be 2 n" by (simp add: encode_len_def)
    show ?thesis using fit 3 first [of "of_nat (m * 32 + 25)" "to_be 2 n"] rest [of "of_nat (m * 32 + 25)" "to_be 2 n" 2]
      unfolding e read_initial_def by (simp add: u dm Let_def del: of_nat_add of_nat_mult)
  next
    case 4
    then have e: "encode_len m n = of_nat (m * 32 + 26) # to_be 4 n" by (simp add: encode_len_def)
    show ?thesis using fit 4 first [of "of_nat (m * 32 + 26)" "to_be 4 n"] rest [of "of_nat (m * 32 + 26)" "to_be 4 n" 4]
      unfolding e read_initial_def by (simp add: u dm Let_def u32_max_def del: of_nat_add of_nat_mult)
  next
    case 5
    then have e: "encode_len m n = of_nat (m * 32 + 27) # to_be 8 n" by (simp add: encode_len_def u32_max_def)
    have "n < 256 ^ 8" using n by (simp add: u64_max_def)
    then show ?thesis using fit first [of "of_nat (m * 32 + 27)" "to_be 8 n"] rest [of "of_nat (m * 32 + 27)" "to_be 8 n" 8]
      unfolding e read_initial_def by (simp add: u dm Let_def del: of_nat_add of_nat_mult)
  qed
qed


text \<open>Reading at a position where an encoded item starts.\<close>

lemma split_at_drop:
  assumes "drop p bs = xs @ post" and "p \<le> length bs"
  obtains pre where "bs = pre @ xs @ post" "length pre = p"
  using assms by (metis append_take_drop_id length_take min.absorb2)

lemma cur_take_drop:
  assumes "drop p bs = xs @ post" "p \<le> length bs" "length bs \<le> u64_max"
  shows "cur_take (length xs) bs p = Inr (xs, p + length xs)"
  using assms cur_take_at by (metis split_at_drop)

lemma read_initial_drop:
  assumes "drop p bs = encode_len m n @ post" "p \<le> length bs" "length bs \<le> u64_max" "n \<le> u64_max" "m < 8"
  shows "read_initial bs p = Inr ((m, n), p + length (encode_len m n))"
  using assms read_initial_encode by (metis split_at_drop)

lemma drop_past: "drop p bs = xs @ post \<Longrightarrow> drop (p + length xs) bs = post"
  by (metis add.commute append_eq_conv_conj drop_drop)

lemma drop_within: "drop p bs = xs @ post \<Longrightarrow> p \<le> length bs \<Longrightarrow> p + length xs \<le> length bs"
  by (metis append_eq_append_conv2 le_add1 length_append length_drop nat_add_left_cancel_le ordered_cancel_comm_monoid_diff_class.add_diff_inverse)

lemma read_text_drop:
  assumes d: "drop p bs = encode_text s @ post" and p: "p \<le> length bs" and fit: "length bs \<le> u64_max"
    and u: "utf8_valid (bytes_of_string s)"
  shows "read_text bs p = Inr (s, p + length (encode_text s))"
proof -
  let ?q = "p + length (encode_len 3 (length s))"
  have d1: "drop p bs = encode_len 3 (length s) @ (bytes_of_string s @ post)" using d by (simp add: encode_text_def)
  have q: "?q \<le> length bs" using drop_within [OF d1 p] .
  have d2: "drop ?q bs = bytes_of_string s @ post" using drop_past [OF d1] .
  have len: "length s \<le> u64_max" using drop_within [OF d2 q] fit by simp
  from read_initial_drop [OF d1 p fit len] cur_take_drop [OF d2 q fit] u show ?thesis
    by (simp add: read_text_def encode_text_def)
qed

lemma read_bstr_drop:
  assumes d: "drop p bs = encode_cbor_bstr v @ post" and p: "p \<le> length bs" and fit: "length bs \<le> u64_max"
  shows "read_bstr bs p = Inr (v, p + length (encode_cbor_bstr v))"
proof -
  let ?q = "p + length (encode_len 2 (length v))"
  have d1: "drop p bs = encode_len 2 (length v) @ (v @ post)" using d by (simp add: encode_cbor_bstr_def)
  have q: "?q \<le> length bs" using drop_within [OF d1 p] .
  have d2: "drop ?q bs = v @ post" using drop_past [OF d1] .
  have len: "length v \<le> u64_max" using drop_within [OF d2 q] fit by simp
  from read_initial_drop [OF d1 p fit len] cur_take_drop [OF d2 q fit] show ?thesis
    by (simp add: read_bstr_def encode_cbor_bstr_def)
qed

lemma read_int_drop:
  assumes d: "drop p bs = encode_int v @ post" and p: "p \<le> length bs" and fit: "length bs \<le> u64_max"
    and v: "i64_min \<le> v" "v \<le> i64_max"
  shows "read_int bs p = Inr (v, p + length (encode_int v))"
proof (cases "v \<ge> 0")
  case True
  then have "drop p bs = encode_len 0 (nat v) @ post" using d by (simp add: encode_int_def)
  from read_initial_drop [OF this p fit] v True show ?thesis
    by (simp add: read_int_def encode_int_def i64_max_def u64_max_def nat_less_iff nat_le_iff)
next
  case False
  then have "drop p bs = encode_len 1 (nat (- 1 - v)) @ post" using d by (simp add: encode_int_def)
  from read_initial_drop [OF this p fit] v False show ?thesis
    by (simp add: read_int_def encode_int_def i64_min_def u64_max_def nat_less_iff nat_le_iff)
qed

lemma encode_bstr16_drop: "length v = 16 \<Longrightarrow> encode_bstr16 v = encode_cbor_bstr v"
  by (simp add: encode_bstr16_def encode_cbor_bstr_def)

theorem cbor_bstr_roundtrip:
  assumes "length (encode_cbor_bstr inner) \<le> u64_max"
  shows "decode_cbor_bstr (encode_cbor_bstr inner) = Inr inner"
  using read_bstr_drop [of 0 "encode_cbor_bstr inner" inner "[]"] assms by (simp add: decode_cbor_bstr_def)

text \<open>One entry of the header map.\<close>

lemma read_fields_step:
  assumes d: "drop p bs = encode_text key @ post" and p: "p \<le> length bs" and fit: "length bs \<le> u64_max"
    and u: "utf8_valid (bytes_of_string key)" and o: "last_key = [] \<or> last_key < encode_text key"
    and f: "read_field key f bs (p + length (encode_text key)) = Inr (f', r)"
  shows "read_fields (Suc n) last_key f bs p = read_fields n (encode_text key) f' bs r"
proof -
  have "take (length (encode_text key)) (drop p bs) = encode_text key" using d by simp
  with read_text_drop [OF d p fit u] o f show ?thesis by (auto simp: Let_def)
qed

lemma header_keys:
  "list_all (\<lambda>k. utf8_valid (bytes_of_string k))
     [''dialect'', ''capsule_id'', ''cluster_id'', ''payload_layout'', ''release_signer'', ''created_unix_ms'', dialect, payload_layout]"
  "encode_text ''dialect'' < encode_text ''capsule_id''" "encode_text ''capsule_id'' < encode_text ''cluster_id''"
  "encode_text ''cluster_id'' < encode_text ''payload_layout''" "encode_text ''payload_layout'' < encode_text ''release_signer''"
  "encode_text ''release_signer'' < encode_text ''created_unix_ms''"
  by code_simp+

lemma lower_hex_utf8: "list_all lower_hex s \<Longrightarrow> utf8_valid (bytes_of_string s)"
proof (rule utf8_valid_ascii, safe)
  fix b
  assume s: "list_all lower_hex s" and "b \<in> set (bytes_of_string s)"
  then obtain c where c: "lower_hex c" "b = of_nat (of_char c)" by (auto simp: bytes_of_string_def list_all_iff)
  then have "(of_char c :: nat) < 128" by (auto simp: lower_hex_def less_eq_char_def)
  then have "unat b < 128" using c(2) by (simp add: unat_of_nat)
  then show "b < 0x80" by (simp add: word_less_nat_alt)
qed


text \<open>An entry of the map at a position: key, value, and what follows.\<close>

lemma read_entry:
  assumes d: "drop p bs = encode_text key @ v @ post" and p: "p \<le> length bs" and fit: "length bs \<le> u64_max"
    and u: "utf8_valid (bytes_of_string key)" and o: "last_key = [] \<or> last_key < encode_text key"
    and f: "\<And>q. drop q bs = v @ post \<Longrightarrow> q \<le> length bs \<Longrightarrow> read_field key f bs q = Inr (f', q + length v)"
  shows "\<exists>r. read_fields (Suc n) last_key f bs p = read_fields n (encode_text key) f' bs r \<and>
    drop r bs = post \<and> r \<le> length bs"
proof -
  let ?q = "p + length (encode_text key)"
  have q: "drop ?q bs = v @ post" "?q \<le> length bs" using drop_past [OF d] drop_within [OF d p] by auto
  from read_fields_step [OF d p fit u o f [OF q]] drop_past [OF q(1)] drop_within [OF q] show ?thesis by blast
qed

text \<open>The entries of the map from a position on, each with its effect on the fields read so far.\<close>

lemma read_entries:
  fixes es :: "(string \<times> bytes \<times> (header_fields \<Rightarrow> header_fields)) list"
  assumes fit: "length bs \<le> u64_max"
    and rf: "\<And>key v g q post f. (key, v, g) \<in> set es \<Longrightarrow> drop q bs = v @ post \<Longrightarrow> q \<le> length bs \<Longrightarrow>
       read_field key f bs q = Inr (g f, q + length v)"
    and u: "\<forall>(key, _) \<in> set es. utf8_valid (bytes_of_string key)"
    and o: "sorted_wrt (<) (map (\<lambda>(key, _). encode_text key) es)" "\<forall>(key, _) \<in> set es. last_key < encode_text key"
    and d: "drop p bs = concat (map (\<lambda>(key, v, _). encode_text key @ v) es)" "p \<le> length bs"
  shows "read_fields (length es) last_key f bs p = Inr (fold (\<lambda>(_, _, g). g) es f, length bs)"
  using assms(2-)
proof (induction es arbitrary: last_key f p)
  case (Cons e es)
  obtain key v g where e: "e = (key, v, g)" by (cases e)
  let ?post = "concat (map (\<lambda>(key, v, _). encode_text key @ v) es)"
  have d: "drop p bs = encode_text key @ v @ ?post" using Cons.prems(5) e by simp
  have kv: "(key, v, g) \<in> set (e # es)" by (simp add: e)
  note rk = Cons.prems(1) [OF kv]
  have uk: "utf8_valid (bytes_of_string key)" and lk: "last_key < encode_text key"
    using Cons.prems(2,4) e by simp_all
  have "\<exists>r. read_fields (Suc (length es)) last_key f bs p = read_fields (length es) (encode_text key) (g f) bs r \<and>
      drop r bs = ?post \<and> r \<le> length bs"
    by (rule read_entry [OF d Cons.prems(6) fit]) (use uk rk lk in auto)
  then obtain r where "read_fields (Suc (length es)) last_key f bs p = read_fields (length es) (encode_text key) (g f) bs r"
    and r: "drop r bs = ?post" "r \<le> length bs" by blast
  moreover have "read_fields (length es) (encode_text key) (g f) bs r = Inr (fold (\<lambda>(_, _, g). g) es (g f), length bs)"
  proof (rule Cons.IH)
    show "\<forall>(key', _) \<in> set es. encode_text key < encode_text key'" using Cons.prems(3) e by auto
  qed (use Cons.prems(1) Cons.prems(2) Cons.prems(3) e r in auto)
  ultimately show ?case using e by simp
qed simp

definition header_entries :: "capsule_header \<Rightarrow> (string \<times> bytes \<times> (header_fields \<Rightarrow> header_fields)) list" where
  "header_entries h =
     [(''dialect'', encode_text dialect, hf_dialect_update (\<lambda>_. Some dialect)),
      (''capsule_id'', encode_cbor_bstr (gh_capsule_id h), hf_capsule_id_update (\<lambda>_. Some (gh_capsule_id h))),
      (''cluster_id'', encode_cbor_bstr (gh_cluster_id h), hf_cluster_id_update (\<lambda>_. Some (gh_cluster_id h))),
      (''payload_layout'', encode_text payload_layout, hf_payload_layout_update (\<lambda>_. Some payload_layout)),
      (''release_signer'', encode_text (gh_release_signer h), hf_release_signer_update (\<lambda>_. Some (gh_release_signer h))),
      (''created_unix_ms'', encode_int (gh_created_unix_ms h), hf_created_unix_ms_update (\<lambda>_. Some (gh_created_unix_ms h)))]"

lemma header_entries_order:
  "sorted_wrt (<) (map (\<lambda>(key, _). encode_text key) (header_entries h))"
  "\<forall>(key, _) \<in> set (header_entries h). [] < encode_text key"
  using header_keys(2-) by (auto simp: header_entries_def encode_text_def encode_len_def intro: less_trans)

text \<open>Each entry is read back into its own field.\<close>

lemma read_field_entry:
  assumes e: "(key, v, g) \<in> set (header_entries h)" and d: "drop q bs = v @ post"
    and q: "q \<le> length bs" and fit: "length bs \<le> u64_max"
    and u: "list_all (\<lambda>s. utf8_valid (bytes_of_string s)) [dialect, payload_layout, gh_release_signer h]"
    and ids: "length (gh_capsule_id h) = 16" "length (gh_cluster_id h) = 16"
    and t: "i64_min \<le> gh_created_unix_ms h" "gh_created_unix_ms h \<le> i64_max"
  shows "read_field key f bs q = Inr (g f, q + length v)"
proof -
  have text_read: "read_text bs q = Inr (s, q + length v)" if "v = encode_text s" "utf8_valid (bytes_of_string s)" for s
    using read_text_drop [OF _ q fit] that d by simp
  have id_read: "read_bstr_exact 16 bs q = Inr (b, q + length v)" if "v = encode_cbor_bstr b" "length b = 16" for b
    using read_bstr_drop [OF _ q fit] that d by (simp add: read_bstr_exact_def)
  have int_read: "read_int bs q = Inr (gh_created_unix_ms h, q + length v)" if "v = encode_int (gh_created_unix_ms h)"
    using read_int_drop [OF _ q fit t] that d by simp
  from e show ?thesis
    unfolding header_entries_def list.set insert_iff empty_iff prod.inject
  proof (elim disjE conjE FalseE, goal_cases)
    case 1 with text_read [OF 1(2)] u show ?case by (simp add: read_field_def)
  next
    case 2 with id_read [OF 2(2)] ids show ?case by (simp add: read_field_def)
  next
    case 3 with id_read [OF 3(2)] ids show ?case by (simp add: read_field_def)
  next
    case 4 with text_read [OF 4(2)] u show ?case by (simp add: read_field_def)
  next
    case 5 with text_read [OF 5(2)] u show ?case by (simp add: read_field_def)
  next
    case 6 with int_read [OF 6(2)] show ?case by (simp add: read_field_def)
  qed
qed

text \<open>
  Decoding the header a Capsule was written with gives back every field, for every header that
  encodes: identifiers of 16 bytes, a lower-case hexadecimal signer of at most 256 characters and
  any signed 64-bit time.
\<close>

lemma header_roundtrip:
  assumes e: "encode_cbor h = Inr bs" and ids: "length (gh_capsule_id h) = 16" "length (gh_cluster_id h) = 16"
    and t: "i64_min \<le> gh_created_unix_ms h" "gh_created_unix_ms h \<le> i64_max"
  shows "decode_cbor bs = Inr h"
proof -
  have signer: "list_all lower_hex (gh_release_signer h)" "length (gh_release_signer h) \<le> 256"
    and bs: "bs = [0xa6] @ concat (map (\<lambda>(key, v, _). encode_text key @ v) (header_entries h))"
    using e ids by (auto simp: encode_cbor_def encode_bstr16_drop header_entries_def split: if_splits)
  have lens: "length (encode_len m n) \<le> 9" for m n using length_encode_len [of m n] by auto
  have tl: "length (encode_text x) \<le> 9 + length x" for x using lens by (simp add: encode_text_def)
  have bl: "length (encode_cbor_bstr x) \<le> 9 + length x" for x using lens by (simp add: encode_cbor_bstr_def)
  have il: "length (encode_int v) \<le> 9" for v using lens by (simp add: encode_int_def)
  have "length bs \<le> 1000"
    using tl [of "''dialect''"] tl [of dialect] tl [of "''capsule_id''"] bl [of "gh_capsule_id h"]
      tl [of "''cluster_id''"] bl [of "gh_cluster_id h"] tl [of "''payload_layout''"] tl [of payload_layout]
      tl [of "''release_signer''"] tl [of "gh_release_signer h"] tl [of "''created_unix_ms''"]
      il [of "gh_created_unix_ms h"] signer(2) ids
    by (simp add: bs header_entries_def dialect_def payload_layout_def)
  then have fit: "length bs \<le> u64_max" by (simp add: u64_max_def)
  have hd: "read_map_len bs 0 = Inr (6, 1)"
    using read_initial_drop [of 0 bs 5 6 "tl bs"] fit
    by (simp add: read_map_len_def bs encode_len_def u64_max_def)
  have k: "list_all (\<lambda>s. utf8_valid (bytes_of_string s)) [dialect, payload_layout, gh_release_signer h]"
    and keys: "\<forall>(key, _) \<in> set (header_entries h). utf8_valid (bytes_of_string key)"
    using header_keys(1) lower_hex_utf8 [OF signer(1)] by (simp_all add: header_entries_def)
  have "read_field key f bs q = Inr (g f, q + length v)"
    if "(key, v, g) \<in> set (header_entries h)" "drop q bs = v @ post" "q \<le> length bs" for key v g q post f
    using read_field_entry [OF that fit k ids t] .
  then have "read_fields (length (header_entries h)) [] no_fields bs 1 =
      Inr (fold (\<lambda>(_, _, g). g) (header_entries h) no_fields, length bs)" (is "_ = ?r")
    by (intro read_entries fit header_entries_order keys) (simp_all add: bs)
  moreover have "length (header_entries h) = 6" by (simp add: header_entries_def)
  ultimately have "read_fields 6 [] no_fields bs 1 = ?r" by metis
  with hd show ?thesis by (simp add: decode_cbor_def finish_header_def required_def header_entries_def)
qed

definition sample_header :: capsule_header where
  "sample_header = \<lparr>gh_capsule_id = replicate 16 1, gh_cluster_id = replicate 16 2,
     gh_release_signer = ''00ff'', gh_created_unix_ms = - 5\<rparr>"

theorem header_roundtrip_witness:
  "encode_cbor sample_header = Inr (projr (encode_cbor sample_header)) \<and>
   decode_cbor (projr (encode_cbor sample_header)) = Inr sample_header"
proof -
  have e: "encode_cbor sample_header = Inr (projr (encode_cbor sample_header))" by code_simp
  then have "decode_cbor (projr (encode_cbor sample_header)) = Inr sample_header"
    by (rule header_roundtrip) (simp_all add: sample_header_def i64_min_def i64_max_def)
  with e show ?thesis by (rule conjI)
qed

text \<open>
  A length prefix is not checked against the rest of the input before it is added to the
  position, so a ten byte header with a maximal 64-bit text length overflows the addition instead of
  giving an error.
\<close>

theorem huge_length_panics:
  "decode_cbor [0xa6, 0x7b, 0xff, 0xff, 0xff, 0xff, 0xff, 0xff, 0xff, 0xff] = Inl CapPanic" (is "decode_cbor ?bs = _")
proof -
  have m: "read_map_len ?bs 0 = Inr (6, 1)"
    by (simp add: read_map_len_def read_initial_def cur_take_def wrap_add64_def)
  have "read_initial ?bs 1 = Inr ((3, 18446744073709551615), 10)"
    by (simp add: read_initial_def cur_take_def wrap_add64_def be_nat_def)
  moreover have "cur_take 18446744073709551615 ?bs 10 = Inl CapPanic"
    by (simp add: cur_take_def wrap_add64_def)
  ultimately have "read_text ?bs 1 = Inl CapPanic" by (simp add: read_text_def)
  then have "read_fields (Suc 5) [] no_fields ?bs 1 = Inl CapPanic"
    by (simp only: read_fields.simps and_then_def sum.case)
  with m show ?thesis by (simp add: decode_cbor_def)
qed

text \<open>
  A length or an integer in a form longer than needed is accepted: here the eight byte form of a
  length below 24, and of the integer 7, decode to the same value as the canonical form.
\<close>

theorem long_form_accepted:
  "read_int [0x1b, 0, 0, 0, 0, 0, 0, 0, 7] 0 = Inr (7, 9) \<and> read_int [7] 0 = Inr (7, 1) \<and>
   read_bstr [0x5b, 0, 0, 0, 0, 0, 0, 0, 1, 9] 0 = Inr ([9], 10) \<and> read_bstr [0x41, 9] 0 = Inr ([9], 2)"
  by (simp add: read_int_def read_bstr_def read_initial_def cur_take_def wrap_add64_def be_nat_def)

end
