(* ===== verification/Capsule_Segments.thy ===== *)
theory Capsule_Segments
  imports Capsule_Header
begin

text \<open>
  The GUMPDEP1 segment table of a Capsule (gump-capsule/src/segment.rs): five descriptors of
  contiguous segments, its encoding, and the two parsers, one for the table alone and one that also
  checks the segments behind it. BLAKE3 is the parameter \<open>H\<close>. The table is exact: the parser
  accepts a byte string only if it is the encoding of the table it returns, so no two byte strings
  give the same table.
\<close>

section \<open>Types and constants\<close>

definition table_magic :: bytes where
  "table_magic = bytes_of_string ''GUMPDEP1''"

definition table_version :: nat where "table_version = 1"

definition segment_count :: nat where "segment_count = 5"

definition table_prefix_len :: usize where "table_prefix_len = 16"

definition segment_desc_len :: usize where "segment_desc_len = 64"

definition table_byte_len :: usize where
  "table_byte_len = table_prefix_len + segment_count * segment_desc_len"

datatype segment_type = PublicMetadata | ApplicationArchive | ProtectedConfig | KeyEnvelope | ReleaseSignature

fun segment_from_u16 :: "nat \<Rightarrow> capsule_fault + segment_type" where
  "segment_from_u16 v =
     (if v = 1 then Inr PublicMetadata
      else if v = 2 then Inr ApplicationArchive
      else if v = 3 then Inr ProtectedConfig
      else if v = 4 then Inr KeyEnvelope
      else if v = 5 then Inr ReleaseSignature
      else Inl (CapErr CapTable ''unknown segment type''))"

declare segment_from_u16.simps [simp del]

fun segment_as_u16 :: "segment_type \<Rightarrow> nat" where
  "segment_as_u16 PublicMetadata = 1"
| "segment_as_u16 ApplicationArchive = 2"
| "segment_as_u16 ProtectedConfig = 3"
| "segment_as_u16 KeyEnvelope = 4"
| "segment_as_u16 ReleaseSignature = 5"

record segment_descriptor =
  sd_type :: segment_type
  sd_flags :: nat
  sd_offset :: u64
  sd_stored_length :: u64
  sd_logical_length :: u64
  sd_digest :: bytes

type_synonym segment_table = "segment_descriptor list"

section \<open>Building a table\<close>

fun stored_parts_loop ::
  "(bytes \<Rightarrow> bytes) \<Rightarrow> nat \<Rightarrow> u64 \<Rightarrow> (segment_type \<times> bytes \<times> u64) list \<Rightarrow> capsule_fault + segment_table" where
  "stored_parts_loop H i offset [] = Inr []"
| "stored_parts_loop H i offset ((ty, bs, logical_length) # parts) =
     and_then (segment_from_u16 (i + 1)) (\<lambda>expected.
       if ty \<noteq> expected then Inl (CapErr CapTable ''segments must be types 1..=5 in order'')
       else if offset + length bs > u64_max then Inl (CapErr CapTable ''segment offset overflow'')
       else and_then (stored_parts_loop H (i + 1) (offset + length bs) parts) (\<lambda>ds.
         Inr (\<lparr>sd_type = ty, sd_flags = 0, sd_offset = offset, sd_stored_length = length bs,
                sd_logical_length = logical_length, sd_digest = H bs\<rparr> # ds)))"

definition from_stored_parts ::
  "(bytes \<Rightarrow> bytes) \<Rightarrow> (segment_type \<times> bytes \<times> u64) list \<Rightarrow> capsule_fault + segment_table" where
  "from_stored_parts H parts = stored_parts_loop H 0 table_byte_len parts"

fun hashed_parts_loop ::
  "nat \<Rightarrow> u64 \<Rightarrow> (segment_type \<times> u64 \<times> u64 \<times> bytes) list \<Rightarrow> capsule_fault + segment_table" where
  "hashed_parts_loop i offset [] = Inr []"
| "hashed_parts_loop i offset ((ty, stored_length, logical_length, digest) # parts) =
     and_then (segment_from_u16 (i + 1)) (\<lambda>expected.
       if ty \<noteq> expected then Inl (CapErr CapTable ''segments must be types 1..=5 in order'')
       else if offset + stored_length > u64_max then Inl (CapErr CapTable ''segment offset overflow'')
       else and_then (hashed_parts_loop (i + 1) (offset + stored_length) parts) (\<lambda>ds.
         Inr (\<lparr>sd_type = ty, sd_flags = 0, sd_offset = offset, sd_stored_length = stored_length,
                sd_logical_length = logical_length, sd_digest = digest\<rparr> # ds)))"

definition from_hashed_parts ::
  "(segment_type \<times> u64 \<times> u64 \<times> bytes) list \<Rightarrow> capsule_fault + segment_table" where
  "from_hashed_parts parts = hashed_parts_loop 0 table_byte_len parts"

definition encode_descriptor :: "segment_descriptor \<Rightarrow> bytes" where
  "encode_descriptor d =
     to_be 2 (segment_as_u16 (sd_type d)) @ to_be 2 (sd_flags d) @ to_be 4 0 @
     to_be 8 (sd_offset d) @ to_be 8 (sd_stored_length d) @ to_be 8 (sd_logical_length d) @ sd_digest d"

definition encode_table :: "segment_table \<Rightarrow> bytes" where
  "encode_table t =
     table_magic @ to_be 2 table_version @ to_be 2 segment_count @ to_be 4 table_byte_len @
     concat (map encode_descriptor t)"

section \<open>Parsing\<close>

definition be_at :: "usize \<Rightarrow> usize \<Rightarrow> bytes \<Rightarrow> nat" where
  "be_at i n bs = be_nat (take n (drop i bs))"

definition check_table_prefix :: "bytes \<Rightarrow> capsule_fault + unit" where
  "check_table_prefix table =
     (if take 8 table \<noteq> table_magic then Inl (CapErr CapTable ''bad GUMPDEP1 magic'')
      else if be_at 8 2 table \<noteq> table_version then Inl (CapErr CapTable ''unsupported table version'')
      else if be_at 10 2 table \<noteq> segment_count then Inl (CapErr CapTable ''segment count must be 5'')
      else if be_at 12 4 table \<noteq> table_byte_len then Inl (CapErr CapTable ''table byte length must be 336'')
      else Inr ())"

definition parse_descriptor :: "bytes \<Rightarrow> capsule_fault + segment_descriptor" where
  "parse_descriptor desc =
     and_then (segment_from_u16 (be_at 0 2 desc)) (\<lambda>ty.
       if be_at 2 2 desc \<noteq> 0 \<or> be_at 4 4 desc \<noteq> 0
       then Inl (CapErr CapTable ''v1 segment flags/reserved must be zero'')
       else Inr \<lparr>sd_type = ty, sd_flags = be_at 2 2 desc, sd_offset = be_at 8 8 desc,
                 sd_stored_length = be_at 16 8 desc, sd_logical_length = be_at 24 8 desc,
                 sd_digest = take 32 (drop 32 desc)\<rparr>)"

fun parse_descriptors :: "nat list \<Rightarrow> bytes \<Rightarrow> capsule_fault + segment_table" where
  "parse_descriptors [] table = Inr []"
| "parse_descriptors (i # is) table =
     and_then (parse_descriptor (take segment_desc_len (drop (table_prefix_len + i * segment_desc_len) table))) (\<lambda>d.
       and_then (parse_descriptors is table) (\<lambda>ds. Inr (d # ds)))"

fun check_types :: "nat \<Rightarrow> segment_table \<Rightarrow> capsule_fault + unit" where
  "check_types i [] = Inr ()"
| "check_types i (d # ds) =
     and_then (segment_from_u16 (i + 1)) (\<lambda>expected.
       if sd_type d \<noteq> expected then Inl (CapErr CapTable ''descriptors must be sorted as types 1..=5'')
       else check_types (i + 1) ds)"

fun check_contiguous :: "u64 \<Rightarrow> segment_table \<Rightarrow> capsule_fault + unit" where
  "check_contiguous cursor [] = Inr ()"
| "check_contiguous cursor (d # ds) =
     (if sd_offset d \<noteq> cursor then Inl (CapErr CapTable ''segment offset != expected contiguous'')
      else if sd_offset d + sd_stored_length d > u64_max then Inl (CapErr CapTable ''segment end overflow'')
      else check_contiguous (sd_offset d + sd_stored_length d) ds)"

definition parse_table_bytes :: "bytes \<Rightarrow> capsule_fault + segment_table" where
  "parse_table_bytes table =
     (if length table \<noteq> table_byte_len then Inl (CapErr CapTable ''segment table must be exactly 336 bytes'')
      else and_then (check_table_prefix table) (\<lambda>_.
        and_then (parse_descriptors [0..<segment_count] table) (\<lambda>ds.
        and_then (check_types 0 ds) (\<lambda>_.
        and_then (check_contiguous table_byte_len ds) (\<lambda>_. Inr ds)))))"

fun verify_segments :: "(bytes \<Rightarrow> bytes) \<Rightarrow> bytes \<Rightarrow> u64 \<Rightarrow> segment_table \<Rightarrow> capsule_fault + u64" where
  "verify_segments H inner cursor [] = Inr cursor"
| "verify_segments H inner cursor (d # ds) =
     (let stop = sd_offset d + sd_stored_length d
      in if sd_offset d \<noteq> cursor then Inl (CapErr CapTable ''segment offset != expected contiguous'')
         else if stop > u64_max then Inl (CapErr CapTable ''segment end overflow'')
         else if stop > length inner then Inl (CapErr CapSegment ''segment exceeds payload'')
         else if H (take (sd_stored_length d) (drop (sd_offset d) inner)) \<noteq> sd_digest d
         then Inl (CapErr CapSegment ''segment digest mismatch'')
         else verify_segments H inner stop ds)"

definition parse_and_verify :: "(bytes \<Rightarrow> bytes) \<Rightarrow> bytes \<Rightarrow> capsule_fault + segment_table" where
  "parse_and_verify H inner =
     (if length inner < table_byte_len then Inl (CapErr CapTable ''inner payload shorter than segment table'')
      else and_then (check_table_prefix inner) (\<lambda>_.
        and_then (parse_descriptors [0..<segment_count] inner) (\<lambda>ds.
        and_then (check_types 0 ds) (\<lambda>_.
        and_then (verify_segments H inner table_byte_len ds) (\<lambda>cursor.
          if cursor \<noteq> length inner then Inl (CapErr CapTable ''trailing bytes after final segment'')
          else Inr ds)))))"

definition segment_bytes :: "segment_table \<Rightarrow> bytes \<Rightarrow> segment_type \<Rightarrow> capsule_fault + bytes" where
  "segment_bytes t inner ty =
     (let d = t ! (segment_as_u16 ty - 1)
      in if sd_offset d + sd_stored_length d > length inner then Inl CapPanic
         else Inr (take (sd_stored_length d) (drop (sd_offset d) inner)))"

section \<open>Well-formed tables\<close>

definition wf_descriptor :: "segment_descriptor \<Rightarrow> bool" where
  "wf_descriptor d \<longleftrightarrow> sd_flags d = 0 \<and> length (sd_digest d) = 32 \<and> sd_offset d \<le> u64_max \<and>
     sd_stored_length d \<le> u64_max \<and> sd_logical_length d \<le> u64_max"

definition segment_order :: "segment_type list" where
  "segment_order = [PublicMetadata, ApplicationArchive, ProtectedConfig, KeyEnvelope, ReleaseSignature]"

fun contiguous_from :: "u64 \<Rightarrow> segment_table \<Rightarrow> bool" where
  "contiguous_from c [] \<longleftrightarrow> True"
| "contiguous_from c (d # ds) \<longleftrightarrow> sd_offset d = c \<and> c + sd_stored_length d \<le> u64_max \<and>
     contiguous_from (c + sd_stored_length d) ds"

definition wf_table :: "segment_table \<Rightarrow> bool" where
  "wf_table t \<longleftrightarrow> list_all wf_descriptor t \<and> map sd_type t = segment_order \<and> contiguous_from table_byte_len t"

lemma table_sizes [simp]:
  "table_byte_len = 336" "table_prefix_len = 16" "segment_desc_len = 64" "segment_count = 5" "table_version = 1"
  "length table_magic = 8"
  by (simp_all add: table_byte_len_def table_prefix_len_def segment_desc_len_def segment_count_def
      table_version_def table_magic_def)

lemma segment_u16_roundtrip [simp]: "segment_from_u16 (segment_as_u16 ty) = Inr ty"
  by (cases ty) (simp_all add: segment_from_u16.simps)

lemma segment_from_u16_Inr: "segment_from_u16 v = Inr ty \<longleftrightarrow> v = segment_as_u16 ty"
  by (cases ty) (auto simp: segment_from_u16.simps)

lemma segment_as_u16_less: "segment_as_u16 ty < 65536"
  by (cases ty) simp_all

lemma segment_order_nth: "i < 5 \<Longrightarrow> segment_from_u16 (Suc i) = Inr (segment_order ! i)"
  by (cases i; simp add: segment_order_def segment_from_u16.simps)

section \<open>Descriptors\<close>

lemma be_at_slice: "drop i bs = xs @ post \<Longrightarrow> length xs = n \<Longrightarrow> be_at i n bs = be_nat xs"
  by (simp add: be_at_def)

lemma to_be_be_at: "i + n \<le> length bs \<Longrightarrow> to_be n (be_at i n bs) = take n (drop i bs)"
  by (simp add: be_at_def to_be_be_nat)

lemma be_at_less: "be_at i n bs < 256 ^ n"
proof -
  have "be_nat (take n (drop i bs)) < 256 ^ length (take n (drop i bs))" by (rule be_nat_less)
  also have "\<dots> \<le> 256 ^ n" by (rule power_increasing) simp_all
  finally show ?thesis by (simp add: be_at_def)
qed

lemma length_encode_descriptor: "wf_descriptor d \<Longrightarrow> length (encode_descriptor d) = 64"
  by (simp add: encode_descriptor_def wf_descriptor_def)

lemma parse_encode_descriptor:
  assumes "wf_descriptor d"
  shows "parse_descriptor (encode_descriptor d) = Inr d"
proof -
  let ?bs = "encode_descriptor d"
  have "be_at 0 2 ?bs = segment_as_u16 (sd_type d)" "be_at 2 2 ?bs = 0" "be_at 4 4 ?bs = 0"
    "be_at 8 8 ?bs = sd_offset d" "be_at 16 8 ?bs = sd_stored_length d" "be_at 24 8 ?bs = sd_logical_length d"
    "take 32 (drop 32 ?bs) = sd_digest d"
    using assms segment_as_u16_less [of "sd_type d"]
    by (simp_all add: be_at_def encode_descriptor_def wf_descriptor_def u64_max_def)
  then show ?thesis using assms by (simp add: parse_descriptor_def wf_descriptor_def)
qed

lemma take_step: "take m (drop i bs) @ drop (i + m) bs = drop i bs"
  by (metis add.commute append_take_drop_id drop_drop)

lemma slices_64:
  assumes "length bs = 64"
  shows "take 2 bs @ take 2 (drop 2 bs) @ take 4 (drop 4 bs) @ take 8 (drop 8 bs) @ take 8 (drop 16 bs) @
      take 8 (drop 24 bs) @ take 32 (drop 32 bs) = bs"
  using take_step [of 2 0 bs] take_step [of 2 2 bs] take_step [of 4 4 bs] take_step [of 8 8 bs] take_step [of 8 16 bs]
    take_step [of 8 24 bs] assms by simp

lemma parse_descriptor_exact:
  assumes "parse_descriptor bs = Inr d" and l: "length bs = 64"
  shows "wf_descriptor d \<and> encode_descriptor d = bs"
proof -
  from assms have z: "be_at 2 2 bs = 0" "be_at 4 4 bs = 0" and ty: "be_at 0 2 bs = segment_as_u16 (sd_type d)"
    and d: "d = \<lparr>sd_type = sd_type d, sd_flags = be_at 2 2 bs, sd_offset = be_at 8 8 bs,
                 sd_stored_length = be_at 16 8 bs, sd_logical_length = be_at 24 8 bs, sd_digest = take 32 (drop 32 bs)\<rparr>"
    by (auto simp: parse_descriptor_def and_then_Inr segment_from_u16_Inr split: if_splits)
  have "encode_descriptor d =
      to_be 2 (be_at 0 2 bs) @ to_be 2 (be_at 2 2 bs) @ to_be 4 (be_at 4 4 bs) @
      to_be 8 (be_at 8 8 bs) @ to_be 8 (be_at 16 8 bs) @ to_be 8 (be_at 24 8 bs) @ take 32 (drop 32 bs)"
    by (subst d) (simp add: encode_descriptor_def ty z)
  also have "\<dots> = take 2 bs @ take 2 (drop 2 bs) @ take 4 (drop 4 bs) @ take 8 (drop 8 bs) @ take 8 (drop 16 bs) @
      take 8 (drop 24 bs) @ take 32 (drop 32 bs)"
    by (simp add: to_be_be_at l)
  also have "\<dots> = bs"
    by (rule slices_64 [OF l])
  finally have e: "encode_descriptor d = bs" .
  have "be_at i 8 bs \<le> u64_max" for i using be_at_less [of i 8 bs] by (simp add: u64_max_def)
  then have "wf_descriptor d" by (subst d) (simp add: wf_descriptor_def z l)
  with e show ?thesis by simp
qed

section \<open>The whole table\<close>

lemma parse_encode_descriptors:
  assumes "list_all wf_descriptor t" and "length pre = 16 + i * 64"
  shows "parse_descriptors [i..<i + length t] (pre @ concat (map encode_descriptor t) @ post) = Inr t"
  using assms
proof (induction t arbitrary: i pre)
  case (Cons d t)
  have wf: "wf_descriptor d" using Cons.prems by simp
  have "parse_descriptors [Suc i..<Suc i + length t]
      ((pre @ encode_descriptor d) @ concat (map encode_descriptor t) @ post) = Inr t"
    by (rule Cons.IH) (use Cons.prems length_encode_descriptor [OF wf] in simp_all)
  moreover have "[i..<i + length (d # t)] = i # [Suc i..<Suc i + length t]"
    using upt_conv_Cons [of i "i + length (d # t)"] by (simp del: upt_Suc)
  ultimately show ?case
    using parse_encode_descriptor [OF wf] length_encode_descriptor [OF wf] Cons.prems(2) by simp
qed simp

lemma parse_descriptors_exact:
  assumes "parse_descriptors [i..<n] table = Inr ds" and "i \<le> n" and "16 + n * 64 \<le> length table"
  shows "list_all wf_descriptor ds \<and> length ds = n - i \<and>
    concat (map encode_descriptor ds) = take ((n - i) * 64) (drop (16 + i * 64) table)"
  using assms(2,1,3)
proof (induction i arbitrary: ds rule: inc_induct)
  case (step k)
  have u: "[k..<n] = k # [Suc k..<n]" using step.hyps by (simp add: upt_conv_Cons)
  obtain d ds' where d: "parse_descriptor (take 64 (drop (16 + k * 64) table)) = Inr d"
    and ds': "parse_descriptors [Suc k..<n] table = Inr ds'" and ds: "ds = d # ds'"
    using step.prems(1) unfolding u by (auto simp: and_then_Inr)
  have "Suc k * 64 \<le> n * 64" using step.hyps by (intro mult_le_mono1) simp
  then have "length (take 64 (drop (16 + k * 64) table)) = 64" using step.prems(2) by simp
  note exact = parse_descriptor_exact [OF d this]
  have "(n - k) * 64 = 64 + (n - Suc k) * 64" using step.hyps by (simp add: Suc_diff_Suc flip: mult_Suc)
  then have "take ((n - k) * 64) (drop (16 + k * 64) table) =
      take 64 (drop (16 + k * 64) table) @ take ((n - Suc k) * 64) (drop (16 + Suc k * 64) table)"
    by (simp add: take_add add.commute add.left_commute)
  with exact step.IH [OF ds' step.prems(2)] ds step.hyps show ?case by simp
qed simp

lemma check_types_order:
  "i + length ds = 5 \<Longrightarrow> check_types i ds = Inr () \<longleftrightarrow> map sd_type ds = drop i segment_order"
proof (induction ds arbitrary: i)
  case (Cons d ds)
  have i: "i < 5" using Cons.prems by simp
  then have "drop i segment_order = segment_order ! i # drop (Suc i) segment_order"
    by (intro Cons_nth_drop_Suc [symmetric]) (simp add: segment_order_def)
  then show ?case using Cons i by (auto simp: segment_order_nth)
qed (simp add: segment_order_def)

lemma check_contiguous_iff: "check_contiguous c ds = Inr () \<longleftrightarrow> contiguous_from c ds"
  by (induction c ds rule: check_contiguous.induct) auto

lemma check_table_prefix_iff:
  assumes "16 \<le> length bs"
  shows "check_table_prefix bs = Inr () \<longleftrightarrow>
    take 16 bs = table_magic @ to_be 2 table_version @ to_be 2 segment_count @ to_be 4 table_byte_len"
    (is "?l \<longleftrightarrow> take 16 bs = ?p")
proof
  assume ?l
  then have "take 8 bs = table_magic" "be_at 8 2 bs = 1" "be_at 10 2 bs = 5" "be_at 12 4 bs = 336"
    by (auto simp: check_table_prefix_def split: if_splits)
  moreover have "take 16 bs = take 8 bs @ to_be 2 (be_at 8 2 bs) @ to_be 2 (be_at 10 2 bs) @ to_be 4 (be_at 12 4 bs)"
    using assms take_step [of 8 0 "take 16 bs"] take_step [of 2 8 "take 16 bs"] take_step [of 2 10 "take 16 bs"]
    by (simp add: to_be_be_at take_drop)
  ultimately show "take 16 bs = ?p" by simp
next
  assume p: "take 16 bs = ?p"
  have at: "be_at i n bs = be_at i n (take 16 bs)" if "i + n \<le> 16" for i n
    using that by (simp add: be_at_def drop_take min_def)
  have "take 8 bs = take 8 (take 16 bs)" by simp
  then show ?l by (simp add: check_table_prefix_def at p) (simp add: be_at_def)
qed

lemma segment_order_length: "map sd_type t = segment_order \<Longrightarrow> length t = 5"
  by (drule arg_cong [where f = length]) (simp add: segment_order_def)

lemma wf_table_length: "wf_table t \<Longrightarrow> length t = 5"
  by (simp add: wf_table_def segment_order_length)

lemma length_encode_table:
  assumes "wf_table t"
  shows "length (encode_table t) = 336"
proof -
  have "list_all wf_descriptor ds \<Longrightarrow> length (concat (map encode_descriptor ds)) = length ds * 64" for ds
    by (induction ds) (simp_all add: length_encode_descriptor)
  then show ?thesis using assms wf_table_length [OF assms] by (simp add: encode_table_def wf_table_def)
qed

text \<open>What both parsers have read once prefix, descriptors and order are accepted.\<close>

lemma table_front:
  assumes "336 \<le> length bs"
  shows "check_table_prefix bs = Inr () \<and> parse_descriptors [0..<5] bs = Inr t \<and> check_types 0 t = Inr () \<longleftrightarrow>
    list_all wf_descriptor t \<and> map sd_type t = segment_order \<and> take 336 bs = encode_table t" (is "?l \<longleftrightarrow> ?r")
proof
  assume ?l
  then have pre: "take 16 bs = table_magic @ to_be 2 table_version @ to_be 2 segment_count @ to_be 4 table_byte_len"
    and ds: "parse_descriptors [0..<5] bs = Inr t" and ty: "check_types 0 t = Inr ()"
    using assms check_table_prefix_iff [of bs] by auto
  have ex: "list_all wf_descriptor t" "length t = 5" "concat (map encode_descriptor t) = take 320 (drop 16 bs)"
    using parse_descriptors_exact [OF ds] assms by auto
  have "take 336 bs = take 16 bs @ take 320 (drop 16 bs)" using take_add [of 16 320 bs] by simp
  then have "take 336 bs = encode_table t" using pre ex(3) by (simp add: encode_table_def)
  with ex ty check_types_order [of 0 t] show ?r by simp
next
  assume r: ?r
  then have len: "length t = 5" by (simp add: segment_order_length)
  have bs: "bs = (table_magic @ to_be 2 table_version @ to_be 2 segment_count @ to_be 4 table_byte_len) @
      concat (map encode_descriptor t) @ drop 336 bs" (is "bs = ?p @ _")
    using append_take_drop_id [of 336 bs] r by (simp add: encode_table_def)
  have "length ?p = 16" by simp
  then have "take 16 bs = ?p" by (subst bs) (simp del: append_assoc)
  moreover have "parse_descriptors [0..<0 + length t] bs = Inr t"
    by (subst bs, rule parse_encode_descriptors) (use r in simp_all)
  ultimately show ?l using check_table_prefix_iff [of bs] assms check_types_order [of 0 t] r len by simp
qed

text \<open>
  The table parser accepts exactly the encodings of well-formed tables: a byte string parses to a
  table if and only if it is the encoding of that table, with five segments of the fixed types in
  order, each starting where the one before it ends, zero flags and no 64-bit overflow.
\<close>

lemma table_parse_exact: "parse_table_bytes bs = Inr t \<longleftrightarrow> wf_table t \<and> bs = encode_table t"
proof (cases "length bs = 336")
  case True
  then show ?thesis
    using table_front [of bs t]
    by (auto simp: parse_table_bytes_def and_then_Inr check_contiguous_iff wf_table_def)
next
  case False
  then show ?thesis using length_encode_table [of t] by (auto simp: parse_table_bytes_def)
qed

section \<open>The segments behind the table\<close>

definition segment_matches :: "(bytes \<Rightarrow> bytes) \<Rightarrow> segment_descriptor \<Rightarrow> bytes \<Rightarrow> bool" where
  "segment_matches H d seg \<longleftrightarrow> sd_stored_length d = length seg \<and> sd_digest d = H seg"

lemma verify_segments_exact:
  assumes "c \<le> length inner"
  shows "verify_segments H inner c ds = Inr (length inner) \<longleftrightarrow>
    contiguous_from c ds \<and> (\<exists>segs. drop c inner = concat segs \<and> list_all2 (segment_matches H) ds segs)"
  using assms
proof (induction ds arbitrary: c)
  case Nil
  then show ?case by auto
next
  case (Cons d ds)
  let ?n = "sd_stored_length d"
  let ?seg = "take ?n (drop c inner)"
  show ?case
  proof (cases "sd_offset d = c \<and> c + ?n \<le> u64_max \<and> c + ?n \<le> length inner \<and> H ?seg = sd_digest d")
    case True
    then have m: "segment_matches H d ?seg" by (auto simp: segment_matches_def)
    have uniq: "seg = ?seg \<and> drop (c + ?n) inner = concat segs"
      if "drop c inner = seg @ concat segs" "segment_matches H d seg" for seg segs
      using that by (metis append_eq_conv_conj drop_drop add.commute segment_matches_def)
    have split: "drop c inner = ?seg @ drop (c + ?n) inner" by (metis take_step)
    have "(\<exists>segs. drop c inner = concat segs \<and> list_all2 (segment_matches H) (d # ds) segs) \<longleftrightarrow>
        (\<exists>segs. drop (c + ?n) inner = concat segs \<and> list_all2 (segment_matches H) ds segs)" (is "?l \<longleftrightarrow> ?r")
    proof
      assume ?l
      then show ?r using uniq by (auto simp: list_all2_Cons1)
    next
      assume ?r
      then obtain segs where "drop (c + ?n) inner = concat segs" "list_all2 (segment_matches H) ds segs" by blast
      then show ?l using split m by (intro exI [of _ "?seg # segs"]) simp
    qed
    then show ?thesis using True Cons.IH [of "c + ?n"] by simp
  next
    case False
    have "\<not> (\<exists>segs. drop c inner = concat segs \<and> list_all2 (segment_matches H) (d # ds) segs)"
      if "sd_offset d = c" "c + ?n \<le> u64_max"
    proof (clarsimp simp: list_all2_Cons1)
      fix seg segs
      assume d: "drop c inner = seg @ concat segs" and m: "segment_matches H d seg"
      then have "?seg = seg" "length seg = ?n" by (simp_all add: segment_matches_def)
      moreover have "c + ?n \<le> length inner" using arg_cong [OF d, of length] calculation Cons.prems by simp
      ultimately show False using False that m by (simp add: segment_matches_def)
    qed
    moreover have "verify_segments H inner c (d # ds) \<noteq> Inr (length inner)"
      using False by (auto simp: Let_def)
    ultimately show ?thesis by auto
  qed
qed

text \<open>
  The full parser accepts a payload exactly when it is the encoding of a well-formed table
  followed by five byte strings, nothing else, each with the length and the BLAKE3 digest its
  descriptor states.
\<close>

lemma parse_and_verify_exact:
  "parse_and_verify H inner = Inr t \<longleftrightarrow>
     wf_table t \<and> (\<exists>segs. inner = encode_table t @ concat segs \<and> list_all2 (segment_matches H) t segs)"
proof (cases "336 \<le> length inner")
  case True
  have "parse_and_verify H inner = Inr t \<longleftrightarrow>
      (check_table_prefix inner = Inr () \<and> parse_descriptors [0..<5] inner = Inr t \<and> check_types 0 t = Inr ()) \<and>
      verify_segments H inner 336 t = Inr (length inner)"
    using True by (auto simp: parse_and_verify_def and_then_Inr split: if_splits)
  also have "\<dots> \<longleftrightarrow> wf_table t \<and> take 336 inner = encode_table t \<and>
      (\<exists>segs. drop 336 inner = concat segs \<and> list_all2 (segment_matches H) t segs)"
    using table_front [OF True, of t] verify_segments_exact [OF True, of H t] by (auto simp: wf_table_def)
  also have "\<dots> \<longleftrightarrow> wf_table t \<and> (\<exists>segs. inner = encode_table t @ concat segs \<and> list_all2 (segment_matches H) t segs)"
    using length_encode_table [of t] by (metis append_eq_conv_conj append_take_drop_id)
  finally show ?thesis .
next
  case False
  then show ?thesis using length_encode_table [of t] by (auto simp: parse_and_verify_def)
qed

section \<open>Tables built by the writers\<close>

definition descriptor_part :: "segment_descriptor \<Rightarrow> segment_type \<times> u64 \<times> u64 \<times> bytes" where
  "descriptor_part d = (sd_type d, sd_stored_length d, sd_logical_length d, sd_digest d)"

lemma hashed_parts_loop_wf:
  assumes "hashed_parts_loop i off parts = Inr t" and "i + length parts = 5"
    and "\<forall>(_, _, logical_length, digest) \<in> set parts. logical_length \<le> u64_max \<and> length digest = 32"
  shows "list_all wf_descriptor t \<and> map sd_type t = drop i segment_order \<and> contiguous_from off t \<and>
    map descriptor_part t = parts"
  using assms
proof (induction i off parts arbitrary: t rule: hashed_parts_loop.induct)
  case (2 i offset ty stored logical digest parts)
  have i: "i < 5" using "2.prems"(2) by simp
  obtain ds where ds: "hashed_parts_loop (Suc i) (offset + stored) parts = Inr ds"
    and fit: "offset + stored \<le> u64_max" and ty: "ty = segment_order ! i"
    and t: "t = \<lparr>sd_type = ty, sd_flags = 0, sd_offset = offset, sd_stored_length = stored,
      sd_logical_length = logical, sd_digest = digest\<rparr> # ds"
    using "2.prems"(1) segment_order_nth [OF i] by (auto simp: and_then_Inr split: if_splits)
  have "list_all wf_descriptor ds \<and> map sd_type ds = drop (i + 1) segment_order \<and>
      contiguous_from (offset + stored) ds \<and> map descriptor_part ds = parts"
    using "2.IH" [of "segment_order ! i" ds] segment_order_nth [OF i] ty fit ds "2.prems"(2,3) by simp
  moreover have "drop i segment_order = segment_order ! i # drop (Suc i) segment_order"
    using i by (intro Cons_nth_drop_Suc [symmetric]) (simp add: segment_order_def)
  moreover have "wf_descriptor (hd t)" "descriptor_part (hd t) = (ty, stored, logical, digest)"
    using t fit "2.prems"(3) by (simp_all add: wf_descriptor_def descriptor_part_def)
  ultimately show ?case using t ty fit by simp
qed (simp add: segment_order_def)

lemma from_hashed_parts_wf:
  assumes "from_hashed_parts parts = Inr t" and "length parts = 5"
    and "\<forall>(_, _, logical_length, digest) \<in> set parts. logical_length \<le> u64_max \<and> length digest = 32"
  shows "wf_table t \<and> map descriptor_part t = parts"
  using hashed_parts_loop_wf [of 0 336 parts t] assms by (simp add: from_hashed_parts_def wf_table_def)

lemma from_stored_parts_hashed:
  "from_stored_parts H parts = from_hashed_parts (map (\<lambda>(ty, bs, l). (ty, length bs, l, H bs)) parts)"
proof -
  have "stored_parts_loop H i off parts = hashed_parts_loop i off (map (\<lambda>(ty, bs, l). (ty, length bs, l, H bs)) parts)"
    for i off by (induction parts arbitrary: i off) (auto simp: and_then_def split: sum.splits)
  then show ?thesis by (simp add: from_stored_parts_def from_hashed_parts_def)
qed

lemma contiguous_offset:
  "contiguous_from c t \<Longrightarrow> list_all2 (segment_matches H) t segs \<Longrightarrow> i < length t \<Longrightarrow>
   sd_offset (t ! i) = c + length (concat (take i segs))"
proof (induction t arbitrary: c segs i)
  case (Cons d t)
  then obtain seg segs' where "segs = seg # segs'" "segment_matches H d seg" "list_all2 (segment_matches H) t segs'"
    by (auto simp: list_all2_Cons1)
  moreover from this(2) have "sd_stored_length d = length seg" by (simp add: segment_matches_def)
  ultimately show ?case using Cons by (cases i) auto
qed simp

text \<open>Every segment of a verified payload is read back without a panic, in place.\<close>

lemma segment_bytes_verified:
  assumes wf: "wf_table t" and m: "list_all2 (segment_matches H) t segs"
  shows "segment_bytes t (encode_table t @ concat segs) ty = Inr (segs ! (segment_as_u16 ty - 1))"
proof -
  let ?i = "segment_as_u16 ty - 1"
  have len: "length t = 5" "length segs = 5" using wf_table_length [OF wf] list_all2_lengthD [OF m] by simp_all
  have i: "?i < 5" by (cases ty) simp_all
  have c: "concat segs = concat (take ?i segs) @ segs ! ?i @ concat (drop (Suc ?i) segs)"
    by (subst id_take_nth_drop [of ?i segs]) (use i len in simp_all)
  have o: "sd_offset (t ! ?i) = 336 + length (concat (take ?i segs))"
    using contiguous_offset [of 336 t H segs ?i] wf m i len by (simp add: wf_table_def)
  have s: "sd_stored_length (t ! ?i) = length (segs ! ?i)"
    using list_all2_nthD [OF m, of ?i] i len by (simp add: segment_matches_def)
  show ?thesis using length_encode_table [OF wf] c o s by (simp add: segment_bytes_def)
qed

end
