(* ===== verification/Capsule_Stream.thy ===== *)
theory Capsule_Stream
  imports Capsule_Segments
begin

text \<open>
  Reading and writing whole Capsules (gump-capsule/src/stream.rs). The streaming reader is a
  function of the bytes its source gives before end of file; the running CRC32 and BLAKE3 hashers are
  the bytes they have been given, finished by the parameters \<open>crc\<close> and \<open>H\<close>. The capsule-lib package
  is the parameter record \<open>capsule_lib\<close>. A spill file is the sequence of results its reads give, an
  empty read being end of file; the streaming writer opens each file twice, once to hash and once
  to copy, so the two passes have their own view of the file system. The seekable writer is a buffer
  with a position.

  Streaming verification is exact: it accepts a byte string if and only if it is a well-formed
  Capsule whose CRC, table and digests all match, whatever the chunk size.
\<close>

section \<open>Views\<close>

definition default_stream_chunk_bytes :: usize where
  "default_stream_chunk_bytes = 64 * 1024"

definition max_signature_segment_bytes :: usize where
  "max_signature_segment_bytes = 256 * 1024"

record gump_capsule_view =
  gv_header :: capsule_header
  gv_table :: segment_table
  gv_inner :: bytes
  gv_capsule_bytes :: bytes

definition view_segment :: "gump_capsule_view \<Rightarrow> segment_type \<Rightarrow> capsule_fault + bytes" where
  "view_segment v ty = segment_bytes (gv_table v) (gv_inner v) ty"

record gump_capsule_meta =
  gm_header :: capsule_header
  gm_table :: segment_table
  gm_signature_segment :: bytes
  gm_peak_buffer_bytes :: usize
  gm_inner_file_offset :: u64

section \<open>Whole buffers\<close>

record parsed_capsule =
  pc_encoding :: char
  pc_version :: nat
  pc_header :: bytes
  pc_payload :: bytes

record 'c capsule_lib =
  cl_from_decoded :: "bytes \<Rightarrow> bytes \<Rightarrow> capsule_fault + 'c"
  cl_to_bytes :: "'c \<Rightarrow> capsule_fault + bytes"
  cl_parse :: "bytes \<Rightarrow> capsule_fault + parsed_capsule"

definition write_gump_capsule ::
  "'c capsule_lib \<Rightarrow> (bytes \<Rightarrow> bytes) \<Rightarrow> capsule_header \<Rightarrow> bytes list \<Rightarrow> u64 list \<Rightarrow>
   capsule_fault + gump_capsule_view \<times> bytes" where
  "write_gump_capsule lib H header segments logical_lengths =
     and_then (from_stored_parts H
       [(PublicMetadata, segments ! 0, logical_lengths ! 0),
        (ApplicationArchive, segments ! 1, logical_lengths ! 1),
        (ProtectedConfig, segments ! 2, logical_lengths ! 2),
        (KeyEnvelope, segments ! 3, logical_lengths ! 3),
        (ReleaseSignature, segments ! 4, logical_lengths ! 4)]) (\<lambda>table0.
     let inner = encode_table table0 @ concat segments
     in and_then (parse_and_verify H inner) (\<lambda>table.
        and_then (encode_cbor header) (\<lambda>header_cbor.
        and_then (cl_from_decoded lib header_cbor (encode_cbor_bstr inner)) (\<lambda>capsule.
        and_then (cl_to_bytes lib capsule) (\<lambda>capsule_bytes.
          Inr (\<lparr>gv_header = header, gv_table = table, gv_inner = inner, gv_capsule_bytes = capsule_bytes\<rparr>,
               capsule_bytes))))))"

definition read_gump_capsule ::
  "'c capsule_lib \<Rightarrow> (bytes \<Rightarrow> bytes) \<Rightarrow> bytes \<Rightarrow> capsule_fault + gump_capsule_view" where
  "read_gump_capsule lib H bs =
     and_then (cl_parse lib bs) (\<lambda>decoded.
       if pc_encoding decoded \<noteq> CHR ''C'' then Inl (CapErr CapFraming ''gump/deployment/1 requires Encoding C'')
       else if pc_version decoded \<noteq> 1 then Inl (CapErr CapFraming ''unsupported Capsule version'')
       else and_then (decode_cbor (pc_header decoded)) (\<lambda>header.
            and_then (decode_cbor_bstr (pc_payload decoded)) (\<lambda>inner.
            and_then (parse_and_verify H inner) (\<lambda>table.
              Inr \<lparr>gv_header = header, gv_table = table, gv_inner = inner, gv_capsule_bytes = bs\<rparr>))))"

section \<open>The streaming reader\<close>

record streaming_reader =
  sr_inner :: bytes
  sr_chunk_bytes :: usize

definition reader_new :: "bytes \<Rightarrow> streaming_reader" where
  "reader_new inner = \<lparr>sr_inner = inner, sr_chunk_bytes = default_stream_chunk_bytes\<rparr>"

definition with_chunk_bytes :: "bytes \<Rightarrow> usize \<Rightarrow> streaming_reader" where
  "with_chunk_bytes inner chunk_bytes = \<lparr>sr_inner = inner, sr_chunk_bytes = max chunk_bytes 1\<rparr>"

definition read_all :: "'c capsule_lib \<Rightarrow> (bytes \<Rightarrow> bytes) \<Rightarrow> streaming_reader \<Rightarrow> capsule_fault + gump_capsule_view" where
  "read_all lib H r = read_gump_capsule lib H (sr_inner r)"

definition read_exact :: "usize \<Rightarrow> bytes \<Rightarrow> capsule_fault + bytes \<times> bytes" where
  "read_exact n input =
     (if length input < n then Inl (CapErr CapIo ''failed to fill whole buffer'')
      else Inr (take n input, drop n input))"

definition upper_hex_digit :: "byte \<Rightarrow> nat option" where
  "upper_hex_digit b =
     (if 0x30 \<le> b \<and> b \<le> 0x39 then Some (unat b - 0x30)
      else if 0x41 \<le> b \<and> b \<le> 0x46 then Some (unat b - 0x41 + 10)
      else None)"

fun parse_hex_loop :: "nat \<Rightarrow> nat \<Rightarrow> bytes \<Rightarrow> nat option" where
  "parse_hex_loop w v [] = Some v"
| "parse_hex_loop w v (b # bs) =
     (case upper_hex_digit b of None \<Rightarrow> None | Some d \<Rightarrow> parse_hex_loop w (v * 16 mod 2 ^ w + d) bs)"

definition parse_hex_u16 :: "bytes \<Rightarrow> nat option" where
  "parse_hex_u16 bs = (if length bs \<noteq> 4 then None else parse_hex_loop 16 0 bs)"

definition parse_hex_u32 :: "bytes \<Rightarrow> nat option" where
  "parse_hex_u32 bs = (if length bs \<noteq> 8 then None else parse_hex_loop 32 0 bs)"

definition read_cbor_bstr_prefix :: "bytes \<Rightarrow> capsule_fault + (bytes \<times> u64) \<times> bytes" where
  "read_cbor_bstr_prefix input =
     and_then (read_exact 1 input) (\<lambda>(first, in1).
       let major = unat (hd first) div 32; ai = unat (hd first) mod 32;
           wide = (\<lambda>n. and_then (read_exact n in1) (\<lambda>(b, in2). Inr ((first @ b, be_nat b), in2)))
       in if major \<noteq> 2 then Inl (CapErr CapFraming ''payload CBOR must be a byte string'')
          else if ai \<le> 23 then Inr ((first, ai), in1)
          else if ai = 24 then wide 1
          else if ai = 25 then wide 2
          else if ai = 26 then wide 4
          else if ai = 27 then wide 8
          else Inl (CapErr CapFraming ''non-deterministic or indefinite CBOR bstr length''))"

definition parse_prelude :: "bytes \<Rightarrow> capsule_fault + usize \<times> u32" where
  "parse_prelude prelude =
     (if take 7 prelude \<noteq> bytes_of_string ''CAPSULE'' then Inl (CapErr CapFraming ''invalid Capsule magic'')
      else case parse_hex_u16 (take 4 (drop 7 prelude)) of
        None \<Rightarrow> Inl (CapErr CapFraming ''bad version field'')
      | Some version \<Rightarrow>
        if version \<noteq> 1 then Inl (CapErr CapFraming ''unsupported Capsule version'')
        else if prelude ! 11 \<noteq> 0x43 then Inl (CapErr CapFraming ''gump/deployment/1 requires Encoding C'')
        else case parse_hex_u16 (take 4 (drop 12 prelude)) of
          None \<Rightarrow> Inl (CapErr CapFraming ''bad header length'')
        | Some header_len \<Rightarrow>
          case parse_hex_u32 (take 8 (drop 16 prelude)) of
            None \<Rightarrow> Inl (CapErr CapFraming ''bad body CRC field'')
          | Some body_crc \<Rightarrow> Inr (header_len, body_crc))"

text \<open>
  The state of the segment loop: the input left, the bytes given to the CRC, the bytes given to
  the hasher of the current segment, and the signature segment kept so far. The chunk is at least
  one byte by both constructors; the test for zero only makes the recursion well-founded.
\<close>

function read_segment ::
  "usize \<Rightarrow> bool \<Rightarrow> u64 \<Rightarrow> bytes \<times> bytes \<times> bytes \<times> bytes \<Rightarrow> capsule_fault + bytes \<times> bytes \<times> bytes \<times> bytes" where
  "read_segment chunk keep_sig remaining (input, crcd, hashed, sig) =
     (if remaining = 0 \<or> chunk = 0 then Inr (input, crcd, hashed, sig)
      else let n = min remaining chunk
           in and_then (read_exact n input) (\<lambda>(scratch, input').
                read_segment chunk keep_sig (remaining - n)
                  (input', crcd @ scratch, hashed @ scratch, if keep_sig then sig @ scratch else sig)))"
  by pat_completeness auto
termination
  by (relation "measure (\<lambda>(_, _, remaining, _). remaining)") auto

declare read_segment.simps [simp del]

fun stream_segments ::
  "(bytes \<Rightarrow> bytes) \<Rightarrow> usize \<Rightarrow> segment_table \<Rightarrow> bytes \<times> bytes \<times> bytes \<Rightarrow> capsule_fault + bytes \<times> bytes \<times> bytes" where
  "stream_segments H chunk [] (input, crcd, sig) = Inr (input, crcd, sig)"
| "stream_segments H chunk (d # ds) (input, crcd, sig) =
     (let keep_sig = (sd_type d = ReleaseSignature)
      in if keep_sig \<and> sd_stored_length d > max_signature_segment_bytes
         then Inl (CapErr CapSegment ''release signature segment exceeds memory bound'')
         else and_then (read_segment chunk keep_sig (sd_stored_length d) (input, crcd, [], sig))
           (\<lambda>(input', crcd', hashed, sig').
             if H hashed \<noteq> sd_digest d then Inl (CapErr CapSegment ''segment digest mismatch'')
             else stream_segments H chunk ds (input', crcd', sig')))"

definition verify_payload ::
  "(bytes \<Rightarrow> u32) \<Rightarrow> (bytes \<Rightarrow> bytes) \<Rightarrow> usize \<Rightarrow> bytes \<Rightarrow> bytes \<Rightarrow> u64 \<Rightarrow> u32 \<Rightarrow> bytes \<Rightarrow>
   capsule_fault + capsule_header \<times> segment_table \<times> bytes" where
  "verify_payload crc H chunk header_encoded bstr_prefix inner_len body_crc in3 =
     (if inner_len < table_byte_len then Inl (CapErr CapTable ''inner payload shorter than segment table'')
      else
      and_then (read_exact table_byte_len in3) (\<lambda>(table_bytes, in4).
      and_then (parse_table_bytes table_bytes) (\<lambda>table.
      let expected_inner_end =
            (if table = [] then table_byte_len
             else sat_add64 (sd_offset (last table)) (sd_stored_length (last table)))
      in if expected_inner_end \<noteq> inner_len then Inl (CapErr CapTable ''inner length != contiguous end'')
      else
      and_then (stream_segments H chunk table (in4, header_encoded @ bstr_prefix @ table_bytes, []))
        (\<lambda>(in5, crcd, signature_segment).
      if in5 \<noteq> [] then Inl (CapErr CapFraming ''trailing bytes after Capsule payload'')
      else if crc crcd \<noteq> body_crc then Inl (CapErr CapFraming ''CRC mismatch'')
      else and_then (decode_cbor header_encoded) (\<lambda>header. Inr (header, table, signature_segment))))))"

definition stream_verify ::
  "(bytes \<Rightarrow> u32) \<Rightarrow> (bytes \<Rightarrow> bytes) \<Rightarrow> streaming_reader \<Rightarrow> capsule_fault + gump_capsule_meta" where
  "stream_verify crc H r =
     and_then (read_exact 24 (sr_inner r)) (\<lambda>(prelude, in1).
     and_then (parse_prelude prelude) (\<lambda>(header_len, body_crc).
     and_then (read_exact header_len in1) (\<lambda>(header_encoded, in2).
     and_then (read_cbor_bstr_prefix in2) (\<lambda>((bstr_prefix, inner_len), in3).
     and_then (verify_payload crc H (sr_chunk_bytes r) header_encoded bstr_prefix inner_len body_crc in3)
       (\<lambda>(header, table, signature_segment).
       Inr \<lparr>gm_header = header, gm_table = table, gm_signature_segment = signature_segment,
            gm_peak_buffer_bytes =
              max (max (max (max (max 0 24) header_len) (length bstr_prefix)) table_byte_len) (sr_chunk_bytes r),
            gm_inner_file_offset = sat_add64 (sat_add64 24 header_len) (length bstr_prefix)\<rparr>)))))"

section \<open>The streaming writer\<close>

datatype segment_source = SourceBytes bytes | SourcePath string

text \<open>What opening a path gives: None if it cannot be opened, and otherwise the results of its reads.\<close>

type_synonym file_reads = "string \<Rightarrow> (unit + bytes) list option"

record capsule_write_report =
  wr_header :: capsule_header
  wr_table :: segment_table
  wr_peak_buffer_bytes :: usize
  wr_bytes_written :: u64

record seek_writer =
  sw_buf :: bytes
  sw_pos :: usize

definition write_all :: "bytes \<Rightarrow> seek_writer \<Rightarrow> seek_writer" where
  "write_all b w = w\<lparr>sw_buf := take (sw_pos w) (sw_buf w) @ b @ drop (sw_pos w + length b) (sw_buf w),
                     sw_pos := sw_pos w + length b\<rparr>"

definition seek_start :: "usize \<Rightarrow> seek_writer \<Rightarrow> seek_writer" where
  "seek_start p w = w\<lparr>sw_pos := p\<rparr>"

definition map_io :: "string \<Rightarrow> capsule_fault" where
  "map_io m = CapErr CapIo m"

fun hash_reads :: "(unit + bytes) list \<Rightarrow> u64 \<Rightarrow> bytes \<Rightarrow> capsule_fault + u64 \<times> bytes" where
  "hash_reads [] tot hashed = Inr (tot, hashed)"
| "hash_reads (Inl _ # _) tot hashed = Inl (map_io ''read'')"
| "hash_reads (Inr b # rs) tot hashed =
     (if b = [] then Inr (tot, hashed) else hash_reads rs (tot + length b) (hashed @ b))"

fun hash_source ::
  "(bytes \<Rightarrow> bytes) \<Rightarrow> file_reads \<Rightarrow> segment_source \<Rightarrow> usize \<Rightarrow> capsule_fault + (u64 \<times> bytes) \<times> usize" where
  "hash_source H fs (SourceBytes b) peak =
     Inr ((length b, H b), max peak (min (length b) default_stream_chunk_bytes))"
| "hash_source H fs (SourcePath path) peak =
     (case fs path of
        None \<Rightarrow> Inl (map_io ''open'')
      | Some rs \<Rightarrow> and_then (hash_reads rs 0 []) (\<lambda>(tot, hashed).
          Inr ((tot, H hashed), max peak default_stream_chunk_bytes)))"

fun hash_sources ::
  "(bytes \<Rightarrow> bytes) \<Rightarrow> file_reads \<Rightarrow> (segment_type \<times> segment_source \<times> u64) list \<Rightarrow> usize \<Rightarrow>
   capsule_fault + (segment_type \<times> u64 \<times> u64 \<times> bytes) list \<times> usize" where
  "hash_sources H fs [] peak = Inr ([], peak)"
| "hash_sources H fs ((ty, src, logical) # srcs) peak =
     and_then (hash_source H fs src peak) (\<lambda>((stored, digest), peak1).
       and_then (hash_sources H fs srcs peak1) (\<lambda>(hashed, peak2).
         Inr ((ty, stored, logical, digest) # hashed, peak2)))"

fun copy_reads :: "(unit + bytes) list \<Rightarrow> seek_writer \<times> bytes \<Rightarrow> (capsule_fault + unit) \<times> (seek_writer \<times> bytes)" where
  "copy_reads [] (w, crcd) = (Inr (), (w, crcd))"
| "copy_reads (Inl _ # _) (w, crcd) = (Inl (map_io ''read''), (w, crcd))"
| "copy_reads (Inr b # rs) (w, crcd) =
     (if b = [] then (Inr (), (w, crcd)) else copy_reads rs (write_all b w, crcd @ b))"

fun copy_source_crc ::
  "file_reads \<Rightarrow> segment_source \<Rightarrow> seek_writer \<times> bytes \<Rightarrow> (capsule_fault + unit) \<times> (seek_writer \<times> bytes)" where
  "copy_source_crc fs (SourceBytes b) (w, crcd) = (Inr (), (write_all b w, crcd @ b))"
| "copy_source_crc fs (SourcePath path) (w, crcd) =
     (case fs path of
        None \<Rightarrow> (Inl (map_io ''open''), (w, crcd))
      | Some rs \<Rightarrow> copy_reads rs (w, crcd))"

fun copy_sources ::
  "file_reads \<Rightarrow> segment_source list \<Rightarrow> seek_writer \<times> bytes \<Rightarrow> (capsule_fault + unit) \<times> (seek_writer \<times> bytes)" where
  "copy_sources fs [] st = (Inr (), st)"
| "copy_sources fs (src # srcs) st =
     (case copy_source_crc fs src st of
        (Inl e, st') \<Rightarrow> (Inl e, st')
      | (Inr _, st') \<Rightarrow> copy_sources fs srcs st')"

definition upper_hex_char :: "nat \<Rightarrow> byte" where
  "upper_hex_char d = (if d < 10 then of_nat (0x30 + d) else of_nat (0x41 + (d - 10)))"

fun upper_hex :: "nat \<Rightarrow> bytes" where
  "upper_hex n = (if n < 16 then [upper_hex_char n] else upper_hex (n div 16) @ [upper_hex_char (n mod 16)])"

declare upper_hex.simps [simp del]

definition format_upper_hex :: "nat \<Rightarrow> nat \<Rightarrow> bytes" where
  "format_upper_hex width n = replicate (width - length (upper_hex n)) 0x30 @ upper_hex n"

text \<open>The frame: prelude with a blank CRC, header, payload prefix, table, segments, and then the CRC.\<close>

definition write_framed ::
  "(bytes \<Rightarrow> u32) \<Rightarrow> file_reads \<Rightarrow> bytes \<Rightarrow> bytes \<Rightarrow> bytes \<Rightarrow> segment_source list \<Rightarrow> seek_writer \<Rightarrow>
   (capsule_fault + u64) \<times> seek_writer" where
  "write_framed crc fs_copy header_cbor bstr_prefix table_bytes sources w0 =
     (let start = sw_pos w0;
          w1 = write_all (bytes_of_string ''C'') (write_all (bytes_of_string ''0001'')
                 (write_all (bytes_of_string ''CAPSULE'') w0));
          header_len = length header_cbor
      in if header_len > 65535 then (Inl (CapErr CapFraming ''header too large''), w1)
      else
      let w2 = write_all (format_upper_hex 4 header_len) w1;
          crc_pos = sw_pos w2;
          w3 = write_all (bytes_of_string ''00000000'') w2;
          w4 = write_all table_bytes (write_all bstr_prefix (write_all header_cbor w3))
      in case copy_sources fs_copy sources (w4, header_cbor @ bstr_prefix @ table_bytes) of
        (Inl e, (w5, _)) \<Rightarrow> (Inl e, w5)
      | (Inr _, (w5, crcd)) \<Rightarrow>
        let crc_val = crc crcd;
            stop = sw_pos w5
        in (Inr (sat_sub stop start),
            seek_start stop (write_all (format_upper_hex 8 crc_val) (seek_start crc_pos w5))))"

definition write_gump_capsule_streaming ::
  "'c capsule_lib \<Rightarrow> (bytes \<Rightarrow> u32) \<Rightarrow> (bytes \<Rightarrow> bytes) \<Rightarrow> file_reads \<Rightarrow> file_reads \<Rightarrow> capsule_header \<Rightarrow>
   segment_source list \<Rightarrow> u64 list \<Rightarrow> seek_writer \<Rightarrow> (capsule_fault + capsule_write_report) \<times> seek_writer" where
  "write_gump_capsule_streaming lib crc H fs_hash fs_copy header sources logical_lengths w0 =
     (case hash_sources H fs_hash (zip segment_order (zip sources logical_lengths)) default_stream_chunk_bytes of
        Inl e \<Rightarrow> (Inl e, w0)
      | Inr (hashed, peak) \<Rightarrow>
     (case from_hashed_parts hashed of
        Inl e \<Rightarrow> (Inl e, w0)
      | Inr table \<Rightarrow>
     (case encode_cbor header of
        Inl e \<Rightarrow> (Inl e, w0)
      | Inr header_cbor \<Rightarrow>
     (case cl_from_decoded lib header_cbor (encode_cbor_bstr []) of
        Inl e \<Rightarrow> (Inl e, w0)
      | Inr _ \<Rightarrow>
     (let inner_len = table_byte_len + sum_list (map (\<lambda>(_, s, _, _). s) hashed);
          table_bytes = encode_table table;
          bstr_prefix = encode_cbor_bstr_prefix inner_len
      in case write_framed crc fs_copy header_cbor bstr_prefix table_bytes sources w0 of
           (Inl e, w) \<Rightarrow> (Inl e, w)
         | (Inr bytes_written, w) \<Rightarrow>
             (Inr \<lparr>wr_header = header, wr_table = table,
                   wr_peak_buffer_bytes = max (max (max peak (length table_bytes)) (length header_cbor)) (length bstr_prefix),
                   wr_bytes_written = bytes_written\<rparr>, w))))))"

datatype owned_segment = OwnedEmpty | OwnedBytes bytes | OwnedPath string

record streaming_writer =
  stw_header :: capsule_header
  stw_segments :: "owned_segment list"
  stw_logical_lengths :: "u64 list"

definition writer_new :: "capsule_header \<Rightarrow> streaming_writer" where
  "writer_new header = \<lparr>stw_header = header, stw_segments = replicate 5 OwnedEmpty, stw_logical_lengths = replicate 5 0\<rparr>"

definition set_segment :: "segment_type \<Rightarrow> bytes \<Rightarrow> u64 \<Rightarrow> streaming_writer \<Rightarrow> streaming_writer" where
  "set_segment ty bs logical_length w =
     (let idx = segment_as_u16 ty - 1
      in w\<lparr>stw_segments := (stw_segments w)[idx := OwnedBytes bs],
           stw_logical_lengths := (stw_logical_lengths w)[idx := logical_length]\<rparr>)"

definition set_segment_path :: "segment_type \<Rightarrow> string \<Rightarrow> u64 \<Rightarrow> streaming_writer \<Rightarrow> streaming_writer" where
  "set_segment_path ty path logical_length w =
     (let idx = segment_as_u16 ty - 1
      in w\<lparr>stw_segments := (stw_segments w)[idx := OwnedPath path],
           stw_logical_lengths := (stw_logical_lengths w)[idx := logical_length]\<rparr>)"

fun owned_bytes :: "owned_segment \<Rightarrow> bytes" where
  "owned_bytes (OwnedBytes b) = b"
| "owned_bytes OwnedEmpty = []"
| "owned_bytes (OwnedPath _) = []"

fun owned_source :: "owned_segment \<Rightarrow> segment_source" where
  "owned_source OwnedEmpty = SourceBytes []"
| "owned_source (OwnedBytes b) = SourceBytes b"
| "owned_source (OwnedPath p) = SourcePath p"

definition writer_finish ::
  "'c capsule_lib \<Rightarrow> (bytes \<Rightarrow> bytes) \<Rightarrow> streaming_writer \<Rightarrow> capsule_fault + gump_capsule_view \<times> bytes" where
  "writer_finish lib H w =
     (if \<exists>s \<in> set (stw_segments w). (case s of OwnedPath _ \<Rightarrow> True | _ \<Rightarrow> False)
      then Inl (CapErr CapFraming ''StreamingCapsuleWriter::finish cannot load Path segments; use finish_streaming'')
      else write_gump_capsule lib H (stw_header w) (map owned_bytes (stw_segments w)) (stw_logical_lengths w))"

definition finish_streaming ::
  "'c capsule_lib \<Rightarrow> (bytes \<Rightarrow> u32) \<Rightarrow> (bytes \<Rightarrow> bytes) \<Rightarrow> file_reads \<Rightarrow> file_reads \<Rightarrow> streaming_writer \<Rightarrow>
   seek_writer \<Rightarrow> (capsule_fault + capsule_write_report) \<times> seek_writer" where
  "finish_streaming lib crc H fs_hash fs_copy w out =
     write_gump_capsule_streaming lib crc H fs_hash fs_copy (stw_header w)
       (map owned_source (stw_segments w)) (stw_logical_lengths w) out"

end
