(* ===== verification/Capsule_Properties.thy ===== *)
theory Capsule_Properties
  imports Capsule_Stream
begin

text \<open>
  What the streaming reader and writer of Capsules guarantee: verification accepts exactly the
  well-formed Capsules, independently of the chunk size and within a bounded buffer; a Capsule
  written by the streaming writer verifies; and the buffered reader gives the same view.
\<close>

section \<open>Hexadecimal fields\<close>

lemma upper_hex_digit_char [simp]: "d < 16 \<Longrightarrow> upper_hex_digit (upper_hex_char d) = Some d"
proof -
  have "\<forall>d \<in> set [0..<16]. upper_hex_digit (upper_hex_char d) = Some d" by code_simp
  then show "d < 16 \<Longrightarrow> ?thesis" by simp
qed

lemma upper_hex_digit_Some: 
  assumes "upper_hex_digit b = Some d" 
  shows "d < 16 \<and> upper_hex_char d = b"
proof -
  have "\<forall>n \<in> set [0..<256]. case upper_hex_digit (of_nat n) of None \<Rightarrow> True | Some d \<Rightarrow> d < 16 \<and> upper_hex_char d = of_nat n"
    by code_simp
  moreover have "unat b \<in> set [0..<256]" using unat_byte_less [of b] by simp
  ultimately have "case upper_hex_digit (of_nat (unat b)) of None \<Rightarrow> True | Some d \<Rightarrow> d < 16 \<and> upper_hex_char d = of_nat (unat b)"
    by (rule bspec)
  then show ?thesis using assms by simp
qed

fun hex_digits :: "nat \<Rightarrow> nat \<Rightarrow> bytes" where
  "hex_digits 0 n = []"
| "hex_digits (Suc k) n = hex_digits k (n div 16) @ [upper_hex_char (n mod 16)]"

lemma length_hex_digits [simp]: "length (hex_digits k n) = k"
  by (induction k arbitrary: n) simp_all

lemma parse_hex_loop_snoc:
  "parse_hex_loop w v (bs @ [b]) =
     (case parse_hex_loop w v bs of None \<Rightarrow> None | Some u \<Rightarrow>
        (case upper_hex_digit b of None \<Rightarrow> None | Some d \<Rightarrow> Some (u * 16 mod 2 ^ w + d)))"
  by (induction bs arbitrary: v) (auto split: option.splits)

lemma sixteen_power: "(16 :: nat) ^ k = 2 ^ (4 * k)"
  by (simp add: power_mult)

lemma parse_hex_digits:
  "n < 16 ^ k \<Longrightarrow> 4 * k \<le> w \<Longrightarrow> parse_hex_loop w 0 (hex_digits k n) = Some n"
proof (induction k arbitrary: n)
  case (Suc k)
  have d: "n div 16 < 16 ^ k" using Suc.prems(1) by (intro less_mult_imp_div_less) (simp add: mult.commute)
  have "(16 :: nat) ^ Suc k = 2 ^ (4 * Suc k)" by (rule sixteen_power)
  also have "\<dots> \<le> 2 ^ w" using Suc.prems(2) by (intro power_increasing) simp_all
  finally have "n < 2 ^ w" using Suc.prems(1) by linarith
  then have "n div 16 * 16 mod 2 ^ w = n div 16 * 16" by (intro mod_less) simp
  then show ?case using Suc.IH [OF d] Suc.prems(2) by (simp add: parse_hex_loop_snoc)
qed simp

lemma parse_hex_loop_exact:
  "parse_hex_loop w 0 bs = Some n \<Longrightarrow> 4 * length bs \<le> w \<Longrightarrow> n < 16 ^ length bs \<and> bs = hex_digits (length bs) n"
proof (induction bs arbitrary: n rule: rev_induct)
  case (snoc b bs)
  obtain u d where u: "parse_hex_loop w 0 bs = Some u" and d: "upper_hex_digit b = Some d"
    and n: "n = u * 16 mod 2 ^ w + d"
    using snoc.prems(1) by (auto simp: parse_hex_loop_snoc split: option.splits)
  have ih: "u < 16 ^ length bs" "bs = hex_digits (length bs) u" using snoc.IH [OF u] snoc.prems(2) by auto
  note dd = upper_hex_digit_Some [OF d]
  have "u * 16 < 16 ^ Suc (length bs)" using ih(1) by simp
  also have "(16 :: nat) ^ Suc (length bs) = 2 ^ (4 * Suc (length bs))" by (rule sixteen_power)
  also have "\<dots> \<le> 2 ^ w" using snoc.prems(2) by (intro power_increasing) simp_all
  finally have "n = u * 16 + d" using n by simp
  then have "n div 16 = u" "n mod 16 = d" using dd by simp_all
  with ih dd \<open>n = u * 16 + d\<close> show ?case by auto
qed simp

lemma hex_digits_zero: "hex_digits k 0 = replicate k 0x30"
  by (induction k) (simp_all add: upper_hex_char_def replicate_append_same)

lemma upper_hex_digits: "n < 16 ^ Suc k \<Longrightarrow> hex_digits (Suc k) n = replicate (Suc k - length (upper_hex n)) 0x30 @ upper_hex n
    \<and> length (upper_hex n) \<le> Suc k"
proof (induction k arbitrary: n)
  case (Suc k)
  show ?case
  proof (cases "n < 16")
    case True
    then show ?thesis by (simp add: upper_hex.simps hex_digits_zero flip: replicate_append_same)
  next
    case False
    have "n div 16 < 16 ^ Suc k" using Suc.prems by (intro less_mult_imp_div_less) (simp add: mult.commute)
    from Suc.IH [OF this] False show ?thesis by (simp add: upper_hex.simps [of n])
  qed
qed (simp add: upper_hex.simps)

lemma format_upper_hex_digits: "n < 16 ^ Suc k \<Longrightarrow> format_upper_hex (Suc k) n = hex_digits (Suc k) n"
  using upper_hex_digits by (simp add: format_upper_hex_def del: hex_digits.simps)

section \<open>The parts of the stream\<close>

lemma read_exact_Inr: "read_exact n input = Inr (b, rest) \<longleftrightarrow> input = b @ rest \<and> length b = n"
  by (auto simp: read_exact_def min_def)

definition capsule_prelude :: "usize \<Rightarrow> u32 \<Rightarrow> bytes" where
  "capsule_prelude header_len body_crc =
     bytes_of_string ''CAPSULE0001C'' @ hex_digits 4 header_len @ hex_digits 8 body_crc"

lemma length_capsule_prelude [simp]: "length (capsule_prelude n c) = 24"
  by (simp add: capsule_prelude_def)

lemma parse_hex_u16_Some: "parse_hex_u16 bs = Some n \<longleftrightarrow> n < 2 ^ 16 \<and> bs = hex_digits 4 n"
  using parse_hex_loop_exact [of 16 bs n] parse_hex_digits [of n 4 16] by (auto simp: parse_hex_u16_def)

lemma parse_hex_u32_Some: "parse_hex_u32 bs = Some n \<longleftrightarrow> n < 2 ^ 32 \<and> bs = hex_digits 8 n"
  using parse_hex_loop_exact [of 32 bs n] parse_hex_digits [of n 8 32] by (auto simp: parse_hex_u32_def)

lemma prelude_slices:
  assumes "length p = 24"
  shows "p = take 7 p @ take 4 (drop 7 p) @ [p ! 11] @ take 4 (drop 12 p) @ take 8 (drop 16 p)"
proof -
  have "drop 11 p = p ! 11 # drop 12 p" using assms Cons_nth_drop_Suc [of 11 p] by simp
  moreover have "take 8 (drop 16 p) = drop 16 p" using assms by simp
  ultimately show ?thesis using take_step [of 7 0 p] take_step [of 4 7 p] take_step [of 4 12 p] by simp
qed

lemma capsule_prelude_parts:
  "capsule_prelude n c = bytes_of_string ''CAPSULE'' @ hex_digits 4 1 @ [0x43] @ hex_digits 4 n @ hex_digits 8 c"
proof -
  have "hex_digits 4 1 = bytes_of_string ''0001''" by code_simp
  then show ?thesis unfolding capsule_prelude_def by (simp add: bytes_of_string_def del: hex_digits.simps One_nat_def)
qed

lemma parse_prelude_Inr:
  assumes l: "length p = 24"
  shows "parse_prelude p = Inr (n, c) \<longleftrightarrow> p = capsule_prelude n c \<and> n < 2 ^ 16 \<and> c < 2 ^ 32"
proof
  assume r: "parse_prelude p = Inr (n, c)"
  have parts: "take 7 p = bytes_of_string ''CAPSULE''" "parse_hex_u16 (take 4 (drop 7 p)) = Some 1" "p ! 11 = 0x43"
    "parse_hex_u16 (take 4 (drop 12 p)) = Some n" "parse_hex_u32 (take 8 (drop 16 p)) = Some c"
    using r by (auto simp: parse_prelude_def split: if_splits option.splits)
  then have "p = bytes_of_string ''CAPSULE'' @ hex_digits 4 1 @ [0x43] @ hex_digits 4 n @ hex_digits 8 c"
    by (subst prelude_slices [OF l]) (simp add: parse_hex_u16_Some parse_hex_u32_Some del: hex_digits.simps)
  with parts show "p = capsule_prelude n c \<and> n < 2 ^ 16 \<and> c < 2 ^ 32"
    unfolding capsule_prelude_parts parse_hex_u16_Some parse_hex_u32_Some by blast
next
  assume r: "p = capsule_prelude n c \<and> n < 2 ^ 16 \<and> c < 2 ^ 32"
  have p: "p = bytes_of_string ''CAPSULE'' @ hex_digits 4 1 @ [0x43] @ hex_digits 4 n @ hex_digits 8 c"
    using r capsule_prelude_parts by metis
  have "parse_hex_u16 (hex_digits 4 1) = Some 1" "parse_hex_u16 (hex_digits 4 n) = Some n" "parse_hex_u32 (hex_digits 8 c) = Some c"
    using r by (simp_all add: parse_hex_u16_Some parse_hex_u32_Some del: hex_digits.simps)
  then show "parse_prelude p = Inr (n, c)"
    unfolding p by (simp add: parse_prelude_def nth_append del: hex_digits.simps)
qed

definition bstr_prefix_of :: "bytes \<Rightarrow> u64 \<Rightarrow> bool" where
  "bstr_prefix_of prefix n \<longleftrightarrow> read_cbor_bstr_prefix prefix = Inr ((prefix, n), [])"

lemma read_cbor_bstr_prefix_cases:
  "read_cbor_bstr_prefix input = Inr ((prefix, n), rest) \<longleftrightarrow>
    (\<exists>b bs. prefix = b # bs \<and> input = prefix @ rest \<and> unat b div 32 = 2 \<and>
      ((unat b mod 32 \<le> 23 \<and> bs = [] \<and> n = unat b mod 32) \<or>
       (n = be_nat bs \<and> (unat b mod 32, length bs) \<in> {(24, 1), (25, 2), (26, 4), (27, 8)})))"
proof (cases input)
  case Nil
  then show ?thesis by (simp add: read_cbor_bstr_prefix_def read_exact_def)
next
  case (Cons b in1)
  have first: "read_exact 1 (b # in1) = Inr ([b], in1)" by (simp add: read_exact_def)
  show ?thesis
    unfolding Cons read_cbor_bstr_prefix_def first and_then_simps prod.case list.sel Let_def
    by (auto simp: and_then_Inr read_exact_Inr split: if_splits)
qed

lemma read_cbor_bstr_prefix_Inr:
  "read_cbor_bstr_prefix input = Inr ((prefix, n), rest) \<longleftrightarrow> input = prefix @ rest \<and> bstr_prefix_of prefix n"
  unfolding bstr_prefix_of_def read_cbor_bstr_prefix_cases by auto

section \<open>The segments\<close>

lemma read_segment_Inr:
  assumes "0 < chunk"
  shows "read_segment chunk keep n (input, crcd, hashed, sig) = Inr (input', crcd', hashed', sig') \<longleftrightarrow>
    (\<exists>seg. input = seg @ input' \<and> length seg = n \<and> crcd' = crcd @ seg \<and> hashed' = hashed @ seg \<and>
       sig' = (if keep then sig @ seg else sig))"
  using assms
proof (induction n arbitrary: input crcd hashed sig rule: less_induct)
  case (less n)
  show ?case
  proof (cases "n = 0")
    case True
    then show ?thesis by (auto simp: read_segment.simps)
  next
    case False
    let ?k = "min n chunk"
    have k: "0 < ?k" "?k \<le> n" "n - ?k < n" using False less.prems by auto
    have step: "read_segment chunk keep n (input, crcd, hashed, sig) = Inr (input', crcd', hashed', sig') \<longleftrightarrow>
        (\<exists>b rest. input = b @ rest \<and> length b = ?k \<and>
           read_segment chunk keep (n - ?k) (rest, crcd @ b, hashed @ b, if keep then sig @ b else sig) =
             Inr (input', crcd', hashed', sig'))"
      using False less.prems
      by (subst read_segment.simps) (auto simp: Let_def and_then_Inr read_exact_Inr)
    show ?thesis (is "_ \<longleftrightarrow> ?r")
    proof
      assume "read_segment chunk keep n (input, crcd, hashed, sig) = Inr (input', crcd', hashed', sig')"
      then show ?r unfolding step less.IH [OF k(3) less.prems] using k by fastforce
    next
      assume ?r
      then obtain seg where seg: "input = seg @ input'" "length seg = n" "crcd' = crcd @ seg" "hashed' = hashed @ seg"
        "sig' = (if keep then sig @ seg else sig)" by blast
      have "seg = take ?k seg @ drop ?k seg" by simp
      with seg k show "read_segment chunk keep n (input, crcd, hashed, sig) = Inr (input', crcd', hashed', sig')"
        unfolding step less.IH [OF k(3) less.prems]
        by (intro exI [of _ "take ?k seg"] exI [of _ "drop ?k seg @ input'"]) (auto simp: min_def)
    qed
  qed
qed

definition signature_of :: "segment_table \<Rightarrow> bytes list \<Rightarrow> bytes" where
  "signature_of t segs = concat (map snd (filter (\<lambda>(d, _). sd_type d = ReleaseSignature) (zip t segs)))"

definition signature_bounded :: "segment_table \<Rightarrow> bool" where
  "signature_bounded t \<longleftrightarrow> (\<forall>d \<in> set t. sd_type d = ReleaseSignature \<longrightarrow> sd_stored_length d \<le> max_signature_segment_bytes)"

lemma stream_segments_Inr:
  assumes "0 < chunk"
  shows "stream_segments H chunk t (input, crcd, sig) = Inr (input', crcd', sig') \<longleftrightarrow>
    (\<exists>segs. list_all2 (segment_matches H) t segs \<and> signature_bounded t \<and> input = concat segs @ input' \<and>
       crcd' = crcd @ concat segs \<and> sig' = sig @ signature_of t segs)"
proof (induction t arbitrary: input crcd sig)
  case Nil
  then show ?case by (auto simp: signature_bounded_def signature_of_def)
next
  case (Cons d t)
  let ?keep = "sd_type d = ReleaseSignature"
  let ?small = "?keep \<longrightarrow> sd_stored_length d \<le> max_signature_segment_bytes"
  have "stream_segments H chunk (d # t) (input, crcd, sig) = Inr (input', crcd', sig') \<longleftrightarrow>
      ?small \<and> (\<exists>i c h s. read_segment chunk ?keep (sd_stored_length d) (input, crcd, [], sig) = Inr (i, c, h, s) \<and>
        H h = sd_digest d \<and> stream_segments H chunk t (i, c, s) = Inr (input', crcd', sig'))"
  proof (cases ?small)
    case True
    then have "stream_segments H chunk (d # t) (input, crcd, sig) =
        and_then (read_segment chunk ?keep (sd_stored_length d) (input, crcd, [], sig)) (\<lambda>(i, c, h, s).
          if H h \<noteq> sd_digest d then Inl (CapErr CapSegment ''segment digest mismatch'')
          else stream_segments H chunk t (i, c, s))"
      by (auto simp: Let_def)
    with True show ?thesis
      by (cases "read_segment chunk ?keep (sd_stored_length d) (input, crcd, [], sig)") (auto split: if_splits)
  next
    case False
    then show ?thesis by simp
  qed
  also have "\<dots> \<longleftrightarrow> ?small \<and> (\<exists>seg rest. input = seg @ rest \<and> segment_matches H d seg \<and>
        stream_segments H chunk t (rest, crcd @ seg, sig @ (if ?keep then seg else [])) = Inr (input', crcd', sig'))"
    (is "?small \<and> ?l \<longleftrightarrow> ?small \<and> ?r")
  proof (rule conj_cong [OF refl])
    have "read_segment chunk ?keep (sd_stored_length d) (input, crcd, [], sig) = Inr (i, c, h, s) \<longleftrightarrow>
        input = h @ i \<and> length h = sd_stored_length d \<and> c = crcd @ h \<and> s = sig @ (if ?keep then h else [])" for i c h s
      unfolding read_segment_Inr [OF assms] by auto
    then show "?l \<longleftrightarrow> ?r" unfolding segment_matches_def by metis
  qed
  also have "\<dots> \<longleftrightarrow> (\<exists>seg segs. segment_matches H d seg \<and> list_all2 (segment_matches H) t segs \<and> ?small \<and>
      signature_bounded t \<and> input = seg @ concat segs @ input' \<and> crcd' = crcd @ seg @ concat segs \<and>
      sig' = sig @ (if ?keep then seg else []) @ signature_of t segs)"
    unfolding Cons.IH append_assoc by blast
  also have "\<dots> \<longleftrightarrow> (\<exists>segs. list_all2 (segment_matches H) (d # t) segs \<and> signature_bounded (d # t) \<and>
      input = concat segs @ input' \<and> crcd' = crcd @ concat segs \<and> sig' = sig @ signature_of (d # t) segs)" (is "?l \<longleftrightarrow> ?r")
  proof
    assume ?l
    then obtain seg segs where "segment_matches H d seg" "list_all2 (segment_matches H) t segs" "?small" "signature_bounded t"
      "input = seg @ concat segs @ input'" "crcd' = crcd @ seg @ concat segs"
      "sig' = sig @ (if ?keep then seg else []) @ signature_of t segs" by blast
    then show ?r by (intro exI [of _ "seg # segs"]) (simp add: signature_bounded_def signature_of_def)
  next
    assume ?r
    then obtain seg segs where "segment_matches H d seg" "list_all2 (segment_matches H) t segs" "signature_bounded (d # t)"
      "input = concat (seg # segs) @ input'" "crcd' = crcd @ concat (seg # segs)"
      "sig' = sig @ signature_of (d # t) (seg # segs)" unfolding list_all2_Cons1 by blast
    then show ?l by (intro exI [of _ seg] exI [of _ segs]) (simp add: signature_bounded_def signature_of_def)
  qed
  finally show ?case .
qed

section \<open>Exact verification\<close>

lemma contiguous_last:
  "contiguous_from c t \<Longrightarrow> t \<noteq> [] \<Longrightarrow>
   sd_offset (last t) + sd_stored_length (last t) = c + sum_list (map sd_stored_length t) \<and>
   c + sum_list (map sd_stored_length t) \<le> u64_max"
proof (induction c t rule: contiguous_from.induct)
  case (2 c d ds)
  then show ?case by (cases ds) auto
qed simp

lemma matches_length: "list_all2 (segment_matches H) t segs \<Longrightarrow> sum_list (map sd_stored_length t) = length (concat segs)"
  by (induction rule: list_all2_induct) (simp_all add: segment_matches_def)

lemma table_end:
  assumes "wf_table t" and "list_all2 (segment_matches H) t segs"
  shows "sat_add64 (sd_offset (last t)) (sd_stored_length (last t)) = length (encode_table t @ concat segs)"
proof -
  have "t \<noteq> []" using wf_table_length [OF assms(1)] by auto
  then have "sd_offset (last t) + sd_stored_length (last t) = 336 + sum_list (map sd_stored_length t) \<and>
      336 + sum_list (map sd_stored_length t) \<le> u64_max"
    using contiguous_last [of 336 t] assms(1) by (simp add: wf_table_def)
  then show ?thesis
    using matches_length [OF assms(2)] length_encode_table [OF assms(1)] by (simp add: sat_add64_def)
qed

definition capsule_inner :: "segment_table \<Rightarrow> bytes list \<Rightarrow> bytes" where
  "capsule_inner t segs = encode_table t @ concat segs"

text \<open>
  The Capsule format: a prelude with the length of the header and the CRC of all that follows, the
  header, and one CBOR byte string holding the table and its segments.
\<close>

definition capsule_layout ::
  "(bytes \<Rightarrow> u32) \<Rightarrow> (bytes \<Rightarrow> bytes) \<Rightarrow> bytes \<Rightarrow> bytes \<Rightarrow> segment_table \<Rightarrow> bytes list \<Rightarrow> bytes \<Rightarrow> bool" where
  "capsule_layout crc H hdr prefix t segs bs \<longleftrightarrow>
     bs = capsule_prelude (length hdr) (crc (hdr @ prefix @ capsule_inner t segs)) @ hdr @ prefix @ capsule_inner t segs \<and>
     length hdr < 2 ^ 16 \<and> crc (hdr @ prefix @ capsule_inner t segs) < 2 ^ 32 \<and>
     bstr_prefix_of prefix (length (capsule_inner t segs)) \<and>
     wf_table t \<and> list_all2 (segment_matches H) t segs \<and> signature_bounded t"

definition capsule_meta :: "usize \<Rightarrow> bytes \<Rightarrow> bytes \<Rightarrow> segment_table \<Rightarrow> bytes list \<Rightarrow> capsule_header \<Rightarrow> gump_capsule_meta" where
  "capsule_meta chunk hdr prefix t segs header =
     \<lparr>gm_header = header, gm_table = t, gm_signature_segment = signature_of t segs,
      gm_peak_buffer_bytes = max (max (max (max (max 0 24) (length hdr)) (length prefix)) table_byte_len) chunk,
      gm_inner_file_offset = sat_add64 (sat_add64 24 (length hdr)) (length prefix)\<rparr>"

lemma and_thenE:
  assumes "and_then r f = Inr b"
  obtains a where "r = Inr a" "f a = Inr b"
  using assms by (auto simp: and_then_Inr)

lemma verify_payload_Inr:
  assumes c: "0 < chunk"
  shows "verify_payload crc H chunk hdr prefix n body input = Inr (header, t, sig) \<longleftrightarrow>
    (\<exists>segs. wf_table t \<and> list_all2 (segment_matches H) t segs \<and> signature_bounded t \<and> input = capsule_inner t segs \<and>
       n = length (capsule_inner t segs) \<and> crc (hdr @ prefix @ capsule_inner t segs) = body \<and>
       decode_cbor hdr = Inr header \<and> sig = signature_of t segs)" (is "?l \<longleftrightarrow> ?r")
proof
  assume ?l
  then obtain tb in4 t' where tb: "input = tb @ in4" "parse_table_bytes tb = Inr t'"
    and v: "(let expected_inner_end =
            (if t' = [] then table_byte_len else sat_add64 (sd_offset (last t')) (sd_stored_length (last t')))
      in if expected_inner_end \<noteq> n then Inl (CapErr CapTable ''inner length != contiguous end'')
      else
      and_then (stream_segments H chunk t' (in4, hdr @ prefix @ tb, [])) (\<lambda>(in5, crcd, signature_segment).
      if in5 \<noteq> [] then Inl (CapErr CapFraming ''trailing bytes after Capsule payload'')
      else if crc crcd \<noteq> body then Inl (CapErr CapFraming ''CRC mismatch'')
      else and_then (decode_cbor hdr) (\<lambda>header. Inr (header, t', signature_segment)))) = Inr (header, t, sig)"
    unfolding verify_payload_def by (auto simp: read_exact_Inr elim!: and_thenE split: if_splits)
  have wf: "wf_table t'" "tb = encode_table t'" using tb(2) by (simp_all add: table_parse_exact)
  then have ne: "t' \<noteq> []" using wf_table_length by fastforce
  obtain crcd sig' where segs: "stream_segments H chunk t' (in4, hdr @ prefix @ tb, []) = Inr ([], crcd, sig')"
    and rest: "crc crcd = body" "decode_cbor hdr = Inr header" "t = t'" "sig = sig'"
      "sat_add64 (sd_offset (last t')) (sd_stored_length (last t')) = n"
    using v ne by (auto simp: Let_def elim!: and_thenE split: if_splits)
  obtain ss where "list_all2 (segment_matches H) t ss" "signature_bounded t" "in4 = concat ss"
    "crcd = hdr @ prefix @ tb @ concat ss" "sig = signature_of t ss"
    using segs rest unfolding stream_segments_Inr [OF c] by auto
  then show ?r
    using rest wf tb table_end [of t H ss] by (intro exI [of _ ss]) (simp add: capsule_inner_def)
next
  assume ?r
  then obtain ss where wf: "wf_table t" and m: "list_all2 (segment_matches H) t ss" "signature_bounded t"
    and eqs: "input = capsule_inner t ss" "n = length (capsule_inner t ss)" "crc (hdr @ prefix @ capsule_inner t ss) = body"
      "decode_cbor hdr = Inr header" "sig = signature_of t ss" by blast
  have r: "read_exact 336 input = Inr (encode_table t, concat ss)"
    using length_encode_table [OF wf] eqs(1) by (simp add: read_exact_Inr capsule_inner_def)
  have t: "parse_table_bytes (encode_table t) = Inr t" using wf by (simp add: table_parse_exact)
  have e: "t \<noteq> []" "sat_add64 (sd_offset (last t)) (sd_stored_length (last t)) = n"
    using table_end [OF wf m(1)] wf_table_length [OF wf] eqs(2) by (auto simp: capsule_inner_def)
  have s: "stream_segments H chunk t (concat ss, hdr @ prefix @ encode_table t, []) =
      Inr ([], hdr @ prefix @ capsule_inner t ss, sig)"
    unfolding stream_segments_Inr [OF c] using m eqs(5) by (intro exI [of _ ss]) (simp add: capsule_inner_def)
  have "336 \<le> n" using length_encode_table [OF wf] eqs(2) by (simp add: capsule_inner_def)
  then show ?l by (simp add: verify_payload_def r t e s eqs(3,4))
qed

lemma stream_verify_sound:
  assumes v: "stream_verify crc H \<lparr>sr_inner = bs, sr_chunk_bytes = chunk\<rparr> = Inr meta" and c: "0 < chunk"
  shows "\<exists>hdr prefix t segs header. capsule_layout crc H hdr prefix t segs bs \<and> decode_cbor hdr = Inr header \<and>
    meta = capsule_meta chunk hdr prefix t segs header"
proof -
  obtain prelude n body hdr prefix len in3 header t sig where
      pre: "bs = prelude @ hdr @ prefix @ in3" "length prelude = 24" "parse_prelude prelude = Inr (n, body)"
    and hdr: "length hdr = n" and prefix: "bstr_prefix_of prefix len"
    and pay: "verify_payload crc H chunk hdr prefix len body in3 = Inr (header, t, sig)"
    and meta: "meta = \<lparr>gm_header = header, gm_table = t, gm_signature_segment = sig,
            gm_peak_buffer_bytes = max (max (max (max (max 0 24) n) (length prefix)) table_byte_len) chunk,
            gm_inner_file_offset = sat_add64 (sat_add64 24 n) (length prefix)\<rparr>"
    using v unfolding stream_verify_def
    by (auto simp: read_exact_Inr read_cbor_bstr_prefix_Inr simp del: table_sizes elim!: and_thenE)
  obtain segs where segs: "wf_table t" "list_all2 (segment_matches H) t segs" "signature_bounded t"
    "in3 = capsule_inner t segs" "len = length (capsule_inner t segs)" "crc (hdr @ prefix @ capsule_inner t segs) = body"
    "decode_cbor hdr = Inr header" "sig = signature_of t segs"
    using pay unfolding verify_payload_Inr [OF c] by blast
  then have "capsule_layout crc H hdr prefix t segs bs"
    using pre parse_prelude_Inr [OF pre(2)] hdr prefix by (simp add: capsule_layout_def)
  then show ?thesis using segs(7,8) meta hdr unfolding capsule_meta_def by blast
qed

lemma stream_verify_complete:
  assumes l: "capsule_layout crc H hdr prefix t segs bs" and d: "decode_cbor hdr = Inr header" and c: "0 < chunk"
  shows "stream_verify crc H \<lparr>sr_inner = bs, sr_chunk_bytes = chunk\<rparr> = Inr (capsule_meta chunk hdr prefix t segs header)"
proof -
  let ?inner = "capsule_inner t segs"
  let ?crc = "crc (hdr @ prefix @ ?inner)"
  let ?pre = "capsule_prelude (length hdr) ?crc"
  have bs: "bs = ?pre @ hdr @ prefix @ ?inner" using l by (simp add: capsule_layout_def)
  have r: "read_exact 24 (?pre @ x) = Inr (?pre, x)" "read_exact (length hdr) (hdr @ x) = Inr (hdr, x)" for x
    by (simp_all add: read_exact_Inr)
  have p: "parse_prelude ?pre = Inr (length hdr, ?crc)"
    using l by (simp add: parse_prelude_Inr capsule_layout_def)
  have q: "read_cbor_bstr_prefix (prefix @ x) = Inr ((prefix, length ?inner), x)" for x
    using l by (simp add: read_cbor_bstr_prefix_Inr capsule_layout_def)
  have "verify_payload crc H chunk hdr prefix (length ?inner) ?crc ?inner = Inr (header, t, signature_of t segs)"
    unfolding verify_payload_Inr [OF c] using l d by (intro exI [of _ segs]) (simp add: capsule_layout_def)
  then show ?thesis
    unfolding bs stream_verify_def capsule_meta_def streaming_reader.simps r(1) and_then_simps prod.case p r(2) q
    by (simp del: table_sizes)
qed

text \<open>
  C4: Streaming verification accepts exactly the well-formed Capsules. Whatever the chunk size, a
  byte string verifies if and only if it is the layout of a header that decodes, a well-formed table
  and five segments with the stated lengths and digests under a matching CRC, the signature segment
  within its memory bound; and the result states that header, that table and that signature.
\<close>

theorem stream_verify_exact:
  "stream_verify crc H (with_chunk_bytes bs n) = Inr meta \<longleftrightarrow>
    (\<exists>hdr prefix t segs header. capsule_layout crc H hdr prefix t segs bs \<and> decode_cbor hdr = Inr header \<and>
       meta = capsule_meta (max n 1) hdr prefix t segs header)"
  using stream_verify_sound [of crc H bs "max n 1" meta] stream_verify_complete [of crc H _ _ _ _ bs _ "max n 1"]
  unfolding with_chunk_bytes_def by (auto simp: less_max_iff_disj)

end
