(* ===== verification/Capsule_Writing.thy ===== *)
theory Capsule_Writing
  imports Capsule_Properties
begin

text \<open>
  The streaming writer of Capsules against the streaming verifier: what is written verifies, with
  the header and the table the writer reported, whether a segment comes from memory or from a spill
  file read in chunks.
\<close>

section \<open>Sources\<close>

fun reads_content :: "(unit + bytes) list \<Rightarrow> bytes option" where
  "reads_content [] = Some []"
| "reads_content (Inl _ # _) = None"
| "reads_content (Inr b # rs) = (if b = [] then Some [] else map_option ((@) b) (reads_content rs))"

fun source_content :: "file_reads \<Rightarrow> segment_source \<Rightarrow> bytes option" where
  "source_content fs (SourceBytes b) = Some b"
| "source_content fs (SourcePath path) = (case fs path of None \<Rightarrow> None | Some rs \<Rightarrow> reads_content rs)"

definition append_writer :: "bytes \<Rightarrow> seek_writer \<Rightarrow> seek_writer" where
  "append_writer b w = \<lparr>sw_buf = sw_buf w @ b, sw_pos = sw_pos w + length b\<rparr>"

lemma write_all_end:
  "sw_pos w = length (sw_buf w) \<Longrightarrow> write_all b w = append_writer b w"
  by (simp add: write_all_def append_writer_def)

lemma append_writer_simps [simp]:
  "sw_buf (append_writer b w) = sw_buf w @ b" "sw_pos (append_writer b w) = sw_pos w + length b"
  "append_writer b (append_writer a w) = append_writer (a @ b) w"
  by (simp_all add: append_writer_def)

lemma append_writer_Nil [simp]: "append_writer [] w = w"
  by (simp add: append_writer_def)

lemma hash_reads_content:
  "hash_reads rs n h = Inr (n', h') \<longleftrightarrow> (\<exists>b. reads_content rs = Some b \<and> n' = n + length b \<and> h' = h @ b)"
  by (induction rs n h rule: hash_reads.induct) auto

lemma hash_source_content:
  "hash_source H fs src peak = Inr ((n, dg), peak') \<Longrightarrow>
   \<exists>b. source_content fs src = Some b \<and> n = length b \<and> dg = H b"
  by (cases src) (auto simp: hash_reads_content and_then_Inr split: option.splits)

lemma copy_reads_content:
  "sw_pos w = length (sw_buf w) \<Longrightarrow> reads_content rs = Some b \<Longrightarrow>
   copy_reads rs (w, crcd) = (Inr (), (append_writer b w, crcd @ b))"
  by (induction rs "(w, crcd)" arbitrary: w crcd b rule: copy_reads.induct)
    (auto simp: write_all_end split: if_splits)

lemma copy_source_content:
  "sw_pos w = length (sw_buf w) \<Longrightarrow> source_content fs src = Some b \<Longrightarrow>
   copy_source_crc fs src (w, crcd) = (Inr (), (append_writer b w, crcd @ b))"
  by (cases src) (auto simp: write_all_end copy_reads_content split: option.splits)

lemma copy_sources_content:
  "sw_pos w = length (sw_buf w) \<Longrightarrow> map (source_content fs) srcs = map Some segs \<Longrightarrow>
   copy_sources fs srcs (w, crcd) = (Inr (), (append_writer (concat segs) w, crcd @ concat segs))"
proof (induction srcs arbitrary: w crcd segs)
  case (Cons src srcs)
  then obtain b segs' where segs: "segs = b # segs'" "source_content fs src = Some b" "map (source_content fs) srcs = map Some segs'"
    by (auto simp: map_eq_Cons_conv)
  have "copy_sources fs srcs (append_writer b w, crcd @ b) =
      (Inr (), (append_writer (concat segs') (append_writer b w), (crcd @ b) @ concat segs'))"
    by (rule Cons.IH) (use Cons.prems segs in simp_all)
  then show ?case using copy_source_content [OF Cons.prems(1) segs(2), of crcd] segs by simp
qed simp

lemma hash_sources_content:
  "hash_sources H fs items peak = Inr (hashed, peak') \<Longrightarrow>
   \<exists>segs. map (\<lambda>(_, src, _). source_content fs src) items = map Some segs \<and>
     hashed = map (\<lambda>((ty, _, logical), seg). (ty, length seg, logical, H seg)) (zip items segs)"
proof (induction items arbitrary: hashed peak)
  case (Cons item items)
  obtain ty src logical where i: "item = (ty, src, logical)" by (cases item)
  obtain n dg peak1 hashed' where h: "hash_source H fs src peak = Inr ((n, dg), peak1)"
    "hash_sources H fs items peak1 = Inr (hashed', peak')" "hashed = (ty, n, logical, dg) # hashed'"
    using Cons.prems i by (auto simp: and_then_Inr)
  obtain b where "source_content fs src = Some b" "n = length b" "dg = H b" using hash_source_content [OF h(1)] by blast
  moreover obtain segs where "map (\<lambda>(_, src, _). source_content fs src) items = map Some segs"
      "hashed' = map (\<lambda>((ty, _, logical), seg). (ty, length seg, logical, H seg)) (zip items segs)"
    using Cons.IH [OF h(2)] by blast
  ultimately show ?case using i h(3) by (intro exI [of _ "b # segs"]) simp
qed simp

section \<open>The frame around the payload\<close>

lemma encode_len_prefix:
  assumes "n \<le> u64_max"
  shows "bstr_prefix_of (encode_cbor_bstr_prefix n) n"
proof -
  have first: "unat (of_nat (64 + k) :: byte) div 32 = 2 \<and> unat (of_nat (64 + k) :: byte) mod 32 = k" if "k < 32" for k
  proof -
    have "unat (of_nat (64 + k) :: byte) = 64 + k" using that by (simp add: unat_of_nat del: of_nat_add)
    moreover have "(64 + k) div 32 = 2" "(64 + k) mod 32 = k" 
      using that div_mult_self1 [of 32 k 2] mod_mult_self1 [of k 2 32] by (simp_all add: add.commute)
    ultimately show ?thesis by simp
  qed
  have one: "be_nat [of_nat n :: byte] = n" if "n \<le> 255" using that by (simp add: be_nat_def unat_of_nat)
  consider "n < 24" | "24 \<le> n" "n \<le> 255" | "255 < n" "n \<le> 65535" | "65535 < n" "n \<le> u32_max" | "u32_max < n" by linarith
  then show ?thesis
    unfolding bstr_prefix_of_def read_cbor_bstr_prefix_cases encode_cbor_bstr_prefix_def encode_len_def
    using assms first [of n] first [of 24] first [of 25] first [of 26] first [of 27] one
    by cases (simp_all add: u32_max_def u64_max_def)
qed

text \<open>Filling in the CRC after the body has been written.\<close>

lemma patch_crc:
  assumes "sw_pos w0 = length (sw_buf w0)" and "n < 2 ^ 16" and "c < 2 ^ 32"
  shows "sw_buf (write_all (format_upper_hex 8 c) (seek_start (sw_pos w0 + 16)
      (append_writer (bytes_of_string ''CAPSULE0001C'' @ format_upper_hex 4 n @ bytes_of_string ''00000000'' @ body) w0))) =
    sw_buf w0 @ capsule_prelude n c @ body"
proof -
  have h: "format_upper_hex 4 n = hex_digits 4 n" "format_upper_hex 8 c = hex_digits 8 c"
    using format_upper_hex_digits [of n 3] format_upper_hex_digits [of c 7] assms(2,3) by (simp_all del: hex_digits.simps)
  show ?thesis unfolding h using assms(1) by (simp add: write_all_def seek_start_def capsule_prelude_def)
qed

lemma prelude_writes:
  assumes "sw_pos w0 = length (sw_buf w0)"
  shows "write_all (bytes_of_string ''C'') (write_all (bytes_of_string ''0001'') (write_all (bytes_of_string ''CAPSULE'') w0)) =
    append_writer (bytes_of_string ''CAPSULE0001C'') w0"
  using assms by (simp add: write_all_end flip: bytes_of_string_append)

text \<open>The table built from the hashed sources describes the contents of the sources.\<close>

lemma hashed_table:
  assumes h: "hash_sources H fs (zip segment_order (zip sources logical)) peak = Inr (hashed, peak')"
    and t: "from_hashed_parts hashed = Inr t"
    and len: "length sources = 5" "length logical = 5" and fit: "\<forall>l \<in> set logical. l \<le> u64_max" and H: "\<forall>x. length (H x) = 32"
  obtains segs where "map (source_content fs) sources = map Some segs" "wf_table t" "list_all2 (segment_matches H) t segs"
    "table_byte_len + sum_list (map (\<lambda>(_, s, _, _). s) hashed) = length (capsule_inner t segs)"
proof -
  obtain segs where segs: "map (\<lambda>(_, src, _). source_content fs src) (zip segment_order (zip sources logical)) = map Some segs"
    and hashed: "hashed = map (\<lambda>((ty, _, logical), seg). (ty, length seg, logical, H seg))
      (zip (zip segment_order (zip sources logical)) segs)"
    using hash_sources_content [OF h] by blast
  have five: "length segment_order = 5" by (simp add: segment_order_def)
  have "map (\<lambda>(_, src, _). source_content fs src) (zip segment_order (zip sources logical)) = map (source_content fs) sources"
    using len five by (intro nth_equalityI) simp_all
  with segs have src: "map (source_content fs) sources = map Some segs" by simp
  then have l5: "length segs = 5" using len(1) by (metis length_map)
  have hl: "length hashed = 5" using hashed len five l5 by simp
  have hn: "hashed ! i = (segment_order ! i, length (segs ! i), logical ! i, H (segs ! i))" if "i < 5" for i
    unfolding hashed using that len five l5 by (simp add: nth_map nth_zip)
  have "case part of (_, _, logical_length, digest) \<Rightarrow> logical_length \<le> u64_max \<and> length digest = 32"
    if part: "part \<in> set hashed" for part
  proof -
    obtain i where "i < 5" "part = hashed ! i" using part hl by (auto simp: in_set_conv_nth)
    then have "part = (segment_order ! i, length (segs ! i), logical ! i, H (segs ! i))" "logical ! i \<in> set logical"
      using hn len(2) by simp_all
    then show ?thesis using fit H by simp
  qed
  note wf = from_hashed_parts_wf [OF t hl ballI [OF this]]
  have parts: "descriptor_part (t ! i) = hashed ! i" if "i < 5" for i
    using wf wf_table_length [of t] that nth_map [of i t descriptor_part] by simp
  have m: "list_all2 (segment_matches H) t segs"
    using parts hn wf wf_table_length [of t] l5
    by (auto simp: list_all2_conv_all_nth segment_matches_def descriptor_part_def)
  have "map (\<lambda>(_, s, _, _). s) hashed = map sd_stored_length t"
    using wf by (auto simp: descriptor_part_def)
  then have "table_byte_len + sum_list (map (\<lambda>(_, s, _, _). s) hashed) = length (capsule_inner t segs)"
    using matches_length [OF m] wf length_encode_table [of t] by (simp add: capsule_inner_def)
  with that src wf m show ?thesis by blast
qed

lemma signature_of_fifth:
  assumes "wf_table t" and "length segs = 5"
  shows "signature_of t segs = segs ! 4"
proof -
  obtain a b c d e where t: "t = [a, b, c, d, e]"
    using wf_table_length [OF assms(1)] by (auto simp: numeral_eq_Suc length_Suc_conv)
  obtain s0 s1 s2 s3 s4 where "segs = [s0, s1, s2, s3, s4]"
    using assms(2) by (auto simp: numeral_eq_Suc length_Suc_conv)
  then show ?thesis using assms(1) by (simp add: t wf_table_def signature_of_def segment_order_def)
qed

lemma signature_bounded_fifth:
  assumes "wf_table t" and "list_all2 (segment_matches H) t segs" and "length (segs ! 4) \<le> max_signature_segment_bytes"
  shows "signature_bounded t"
proof -
  obtain a b c d e where t: "t = [a, b, c, d, e]"
    using wf_table_length [OF assms(1)] by (auto simp: numeral_eq_Suc length_Suc_conv)
  then have "sd_stored_length e \<le> max_signature_segment_bytes"
    using assms(2,3) by (auto simp: list_all2_Cons1 segment_matches_def)
  then show ?thesis using assms(1) by (auto simp: t wf_table_def signature_bounded_def segment_order_def)
qed

section \<open>What is written verifies\<close>

lemma write_framed_bytes:
  fixes prefix tb :: bytes
  assumes pos: "sw_pos w0 = length (sw_buf w0)" and src: "map (source_content fs) sources = map Some segs"
    and hdr: "length hdr \<le> 65535" and crc: "\<forall>x. crc x < 2 ^ 32"
  defines "body \<equiv> hdr @ prefix @ tb @ concat segs"
  shows "\<exists>w. write_framed crc fs hdr prefix tb sources w0 = (Inr (24 + length body), w) \<and>
    sw_buf w = sw_buf w0 @ capsule_prelude (length hdr) (crc body) @ body"
proof -
  have hex: "length (format_upper_hex 4 (length hdr)) = 4"
    using format_upper_hex_digits [of "length hdr" 3] hdr by (simp del: hex_digits.simps)
  let ?w4 = "append_writer (bytes_of_string ''CAPSULE0001C'' @ format_upper_hex 4 (length hdr) @ bytes_of_string ''00000000'' @
      hdr @ prefix @ tb) w0"
  have cp: "copy_sources fs sources (?w4, hdr @ prefix @ tb) =
      (Inr (), (append_writer (concat segs) ?w4, (hdr @ prefix @ tb) @ concat segs))"
    by (rule copy_sources_content [OF _ src]) (simp add: pos)
  let ?w = "seek_start (sw_pos w0 + 24 + length body) (write_all (format_upper_hex 8 (crc body)) (seek_start (sw_pos w0 + 16)
      (append_writer (bytes_of_string ''CAPSULE0001C'' @ format_upper_hex 4 (length hdr) @ bytes_of_string ''00000000'' @ body) w0)))"
  have "write_framed crc fs hdr prefix tb sources w0 = (Inr (24 + length body), ?w)"
    unfolding write_framed_def Let_def prelude_writes [OF pos]
    using hdr pos hex cp by (simp add: write_all_end sat_sub_def body_def add.assoc)
  moreover have "sw_buf ?w = sw_buf w0 @ capsule_prelude (length hdr) (crc body) @ body"
    using patch_crc [OF pos, of "length hdr" "crc body" body] hdr crc by (simp add: seek_start_def)
  ultimately show ?thesis by blast
qed

text \<open>
  C11: A Capsule the streaming writer finished, appended to whatever was in the output, verifies with
  any chunk size: the verifier returns the header that was given and the table the writer
  reported, and hands back the bytes of the signature source; the writer's byte count is the length
  of the Capsule. Segments may come from memory or from files read in pieces of any size, as long as
  both passes read the same contents.
\<close>

theorem streaming_write_verifies:
  assumes w: "write_gump_capsule_streaming lib crc H fs fs header sources logical w0 = (Inr report, w)"
    and pos: "sw_pos w0 = length (sw_buf w0)"
    and len: "length sources = 5" "length logical = 5" and fit: "\<forall>l \<in> set logical. l \<le> u64_max"
    and ids: "length (gh_capsule_id header) = 16" "length (gh_cluster_id header) = 16"
    and time: "i64_min \<le> gh_created_unix_ms header" "gh_created_unix_ms header \<le> i64_max"
    and H: "\<forall>x. length (H x) = 32" and crc: "\<forall>x. crc x < 2 ^ 32"
    and sig: "source_content fs (sources ! 4) = Some sig" "length sig \<le> max_signature_segment_bytes"
  shows "\<exists>bs meta. sw_buf w = sw_buf w0 @ bs \<and> wr_bytes_written report = length bs \<and>
    stream_verify crc H (with_chunk_bytes bs n) = Inr meta \<and> gm_header meta = header \<and>
    gm_table meta = wr_table report \<and> gm_signature_segment meta = sig"
proof -
  obtain hashed peak t hdr k where h: "hash_sources H fs (zip segment_order (zip sources logical)) default_stream_chunk_bytes = Inr (hashed, peak)"
    and t: "from_hashed_parts hashed = Inr t" and hdr: "encode_cbor header = Inr hdr"
    and wf: "write_framed crc fs hdr (encode_cbor_bstr_prefix (table_byte_len + sum_list (map (\<lambda>(_, s, _, _). s) hashed)))
       (encode_table t) sources w0 = (Inr k, w)"
    and rep: "wr_table report = t" "wr_bytes_written report = k"
    using w by (auto simp: write_gump_capsule_streaming_def Let_def simp del: table_sizes split: sum.splits prod.splits)
  obtain segs where src: "map (source_content fs) sources = map Some segs" and wt: "wf_table t"
    and m: "list_all2 (segment_matches H) t segs"
    and il: "table_byte_len + sum_list (map (\<lambda>(_, s, _, _). s) hashed) = length (capsule_inner t segs)"
    using hashed_table [OF h t len fit H] by blast
  let ?prefix = "encode_cbor_bstr_prefix (length (capsule_inner t segs))"
  let ?body = "hdr @ ?prefix @ capsule_inner t segs"
  let ?bs = "capsule_prelude (length hdr) (crc ?body) @ ?body"
  have small: "length hdr \<le> 65535"
    using wf by (auto simp: write_framed_def Let_def split: if_splits)
  have buf: "sw_buf w = sw_buf w0 @ ?bs" "k = length ?bs"
    using write_framed_bytes [OF pos src small crc, of ?prefix "encode_table t"] wf il by (auto simp: capsule_inner_def)
  have l5: "length segs = 5" using arg_cong [OF src, of length] len(1) by simp
  have s4: "segs ! 4 = sig"
    using arg_cong [OF src, of "\<lambda>l. l ! 4"] sig(1) len(1) l5 by simp
  have "length (capsule_inner t segs) \<le> u64_max"
    unfolding capsule_inner_def table_end [OF wt m, symmetric] by (rule sat_add64_le_max)
  then have "capsule_layout crc H hdr ?prefix t segs ?bs"
    using small crc wt m signature_bounded_fifth [OF wt m] s4 sig(2) by (simp add: capsule_layout_def encode_len_prefix)
  from stream_verify_complete [OF this header_roundtrip [OF hdr ids time], of "max n 1"]
  have "stream_verify crc H (with_chunk_bytes ?bs n) = Inr (capsule_meta (max n 1) hdr ?prefix t segs header)"
    by (simp add: with_chunk_bytes_def)
  moreover have "signature_of t segs = sig" using signature_of_fifth [OF wt l5] s4 by simp
  ultimately show ?thesis
    using buf rep by (intro exI [of _ ?bs] exI [of _ "capsule_meta (max n 1) hdr ?prefix t segs header"]) (simp add: capsule_meta_def)
qed

definition sample_digest :: "bytes \<Rightarrow> bytes" where
  "sample_digest b = replicate 32 (of_nat (length b))"

definition sample_lib :: "unit capsule_lib" where
  "sample_lib = \<lparr>cl_from_decoded = \<lambda>_ _. Inr (), cl_to_bytes = \<lambda>_. Inr [], cl_parse = \<lambda>_. Inl CapPanic\<rparr>"

definition sample_files :: file_reads where
  "sample_files = (\<lambda>p. Some [Inr [1, 2], Inr [3]])"

definition sample_sources :: "segment_source list" where
  "sample_sources = [SourceBytes [5], SourcePath ''app'', SourceBytes [], SourceBytes [6], SourceBytes [9, 9]]"

definition empty_writer :: seek_writer where
  "empty_writer = \<lparr>sw_buf = [], sw_pos = 0\<rparr>"

lemma sample_header_cbor: "\<exists>hdr. encode_cbor sample_header = Inr hdr \<and> length hdr \<le> 65535"
  by (simp add: encode_cbor_def sample_header_def lower_hex_def encode_text_def encode_bstr16_def encode_int_def
      encode_len_def dialect_def payload_layout_def)

theorem streaming_write_verifies_witness:
  "\<exists>report w bs meta.
     write_gump_capsule_streaming sample_lib (\<lambda>_. 7) sample_digest sample_files sample_files sample_header sample_sources
       [1, 3, 0, 1, 2] empty_writer = (Inr report, w) \<and> sw_buf w = bs \<and>
     stream_verify (\<lambda>_. 7) sample_digest (with_chunk_bytes bs 2) = Inr meta \<and> gm_header meta = sample_header \<and>
     gm_table meta = wr_table report \<and> gm_signature_segment meta = [9, 9]"
proof -
  obtain hdr where hdr: "encode_cbor sample_header = Inr hdr" "length hdr \<le> 65535" using sample_header_cbor by blast
  have src: "map (source_content sample_files) sample_sources = map Some [[5], [1, 2, 3], [], [6], [9, 9]]"
    by (simp add: sample_sources_def sample_files_def)
  have "\<exists>hashed peak t. hash_sources sample_digest sample_files (zip segment_order (zip sample_sources [1, 3, 0, 1, 2]))
      default_stream_chunk_bytes = Inr (hashed, peak) \<and> from_hashed_parts hashed = Inr t"
    by (simp add: sample_sources_def segment_order_def sample_files_def from_hashed_parts_def segment_from_u16.simps u64_max_def)
  then obtain hashed peak t where h: "hash_sources sample_digest sample_files (zip segment_order (zip sample_sources [1, 3, 0, 1, 2]))
      default_stream_chunk_bytes = Inr (hashed, peak)" "from_hashed_parts hashed = Inr t" by blast
  have "\<exists>w k. write_framed (\<lambda>_. 7) sample_files hdr prefix tb sample_sources empty_writer = (Inr k, w)" for prefix tb
    using write_framed_bytes [OF _ src hdr(2), of empty_writer "\<lambda>_. 7" prefix tb] by (auto simp: empty_writer_def)
  then obtain k w where "write_framed (\<lambda>_. 7) sample_files hdr
      (encode_cbor_bstr_prefix (table_byte_len + sum_list (map (\<lambda>(_, s, _, _). s) hashed))) (encode_table t) sample_sources
      empty_writer = (Inr k, w)" by blast
  then have "\<exists>report. write_gump_capsule_streaming sample_lib (\<lambda>_. 7) sample_digest sample_files sample_files
      sample_header sample_sources [1, 3, 0, 1, 2] empty_writer = (Inr report, w)"
    unfolding write_gump_capsule_streaming_def h hdr sum.case prod.case Let_def
    by (simp add: sample_lib_def del: table_sizes)
  then obtain report where w: "write_gump_capsule_streaming sample_lib (\<lambda>_. 7) sample_digest sample_files sample_files
      sample_header sample_sources [1, 3, 0, 1, 2] empty_writer = (Inr report, w)" ..
  have "\<exists>bs meta. sw_buf w = sw_buf empty_writer @ bs \<and> wr_bytes_written report = length bs \<and>
    stream_verify (\<lambda>_. 7) sample_digest (with_chunk_bytes bs 2) = Inr meta \<and> gm_header meta = sample_header \<and>
    gm_table meta = wr_table report \<and> gm_signature_segment meta = [9, 9]"
    by (rule streaming_write_verifies [OF w])
      (simp_all add: empty_writer_def sample_sources_def sample_header_def sample_digest_def i64_min_def i64_max_def
        u64_max_def max_signature_segment_bytes_def)
  with w show ?thesis by (auto simp: empty_writer_def)
qed

section \<open>Buffered reading\<close>

text \<open>
  With a capsule-lib that parses what it serialized, the buffered reader returns the view the
  buffered writer returned.
\<close>

theorem buffered_roundtrip:
  assumes w: "write_gump_capsule lib H header segments logical = Inr (v, bs)"
    and lib: "\<And>h p c b. cl_from_decoded lib h p = Inr c \<Longrightarrow> cl_to_bytes lib c = Inr b \<Longrightarrow>
      cl_parse lib b = Inr \<lparr>pc_encoding = CHR ''C'', pc_version = 1, pc_header = h, pc_payload = p\<rparr>"
    and ids: "length (gh_capsule_id header) = 16" "length (gh_cluster_id header) = 16"
    and time: "i64_min \<le> gh_created_unix_ms header" "gh_created_unix_ms header \<le> i64_max"
    and fit: "length (encode_cbor_bstr (gv_inner v)) \<le> u64_max"
  shows "read_gump_capsule lib H bs = Inr v"
proof -
  obtain t hdr c where "parse_and_verify H (gv_inner v) = Inr t" "encode_cbor header = Inr hdr"
    "cl_from_decoded lib hdr (encode_cbor_bstr (gv_inner v)) = Inr c" "cl_to_bytes lib c = Inr bs"
    and v: "v = \<lparr>gv_header = header, gv_table = t, gv_inner = gv_inner v, gv_capsule_bytes = bs\<rparr>"
    using w unfolding write_gump_capsule_def Let_def by (auto elim!: and_thenE)
  then have "read_gump_capsule lib H bs = Inr \<lparr>gv_header = header, gv_table = t, gv_inner = gv_inner v, gv_capsule_bytes = bs\<rparr>"
    using lib header_roundtrip [OF _ ids time] cbor_bstr_roundtrip [OF fit]
    by (simp add: read_gump_capsule_def)
  with v show ?thesis by simp
qed

text \<open>
  Streaming verification needs a bounded buffer: whatever the size of the Capsule, no buffer is
  larger than the chunk or the 65535 bytes a header can have.
\<close>

theorem verify_peak_bounded:
  assumes "stream_verify crc H (with_chunk_bytes bs n) = Inr meta"
  shows "gm_peak_buffer_bytes meta \<le> max n 65535"
proof -
  obtain hdr prefix t segs header where l: "capsule_layout crc H hdr prefix t segs bs"
    and m: "meta = capsule_meta (max n 1) hdr prefix t segs header"
    using stream_verify_sound [of crc H bs "max n 1" meta] assms
    unfolding with_chunk_bytes_def by (auto simp: less_max_iff_disj)
  have "length prefix \<le> 9" using l by (auto simp: capsule_layout_def bstr_prefix_of_def read_cbor_bstr_prefix_cases)
  with l m show ?thesis by (auto simp: capsule_layout_def capsule_meta_def)
qed

end
