(* ===== verification/Archive_Ustar.thy ===== *)
theory Archive_Ustar
  imports Capsule_Header Hiccup_Topics
begin

text \<open>
  Application archives (gump-capsule/src/archive: error.rs, path.rs, ustar.rs, and the entries of
  pack.rs): the normal form of archive paths, and the writer and the parser of deterministic ustar
  streams. The Unicode normalization of a path is the parameter \<open>nfc\<close>; a writer is the bytes
  written to it.
\<close>

section \<open>Errors and entries\<close>

datatype archive_error_kind = ArPath | ArEscape | ArFormat | ArLimit | ArIo | ArCompress

fun archive_error_kind_display :: "archive_error_kind \<Rightarrow> string" where
  "archive_error_kind_display ArPath = ''path''"
| "archive_error_kind_display ArEscape = ''escape''"
| "archive_error_kind_display ArFormat = ''format''"
| "archive_error_kind_display ArLimit = ''limit''"
| "archive_error_kind_display ArIo = ''io''"
| "archive_error_kind_display ArCompress = ''compress''"

record archive_error =
  ar_kind :: archive_error_kind
  ar_message :: string

definition archive_error_display :: "archive_error \<Rightarrow> string" where
  "archive_error_display e = archive_error_kind_display (ar_kind e) @ '': '' @ ar_message e"

definition ar_err :: "archive_error_kind \<Rightarrow> string \<Rightarrow> archive_error + 'a" where
  "ar_err k m = Inl \<lparr>ar_kind = k, ar_message = m\<rparr>"

datatype entry_kind = EntryFile | EntryDirectory

record archive_entry =
  ae_path :: string
  ae_kind :: entry_kind
  ae_executable :: bool
  ae_data :: bytes

section \<open>Paths\<close>

definition trim_end_slash :: "string \<Rightarrow> string" where
  "trim_end_slash s = rev (dropWhile (\<lambda>c. c = CHR ''/'') (rev s))"

fun split_slash :: "string \<Rightarrow> string list" where
  "split_slash [] = [[]]"
| "split_slash (c # s) =
     (if c = CHR ''/'' then [] # split_slash s
      else (c # hd (split_slash s)) # tl (split_slash s))"

fun check_path_segments :: "string list \<Rightarrow> archive_error + string list" where
  "check_path_segments [] = Inr []"
| "check_path_segments (seg # segs) =
     (if seg = [] then ar_err ArPath ''empty path segment rejected''
      else if seg = ''.'' \<or> seg = ''..'' then ar_err ArEscape ''path segment rejected''
      else and_then (check_path_segments segs) (\<lambda>rest. Inr (seg # rest)))"

definition validate_archive_path :: "(string \<Rightarrow> string) \<Rightarrow> string \<Rightarrow> bool \<Rightarrow> archive_error + string" where
  "validate_archive_path nfc path directory =
     (if path = [] then ar_err ArPath ''empty path''
      else if hd path = CHR ''/'' then ar_err ArEscape ''absolute path rejected''
      else if CHR 0x5C \<in> set path \<or> CHR 0x00 \<in> set path then ar_err ArPath ''invalid path character''
      else if \<not> directory \<and> last path = CHR ''/'' then ar_err ArPath ''regular file path must not end with slash''
      else let body = trim_end_slash (nfc path)
           in if body = [] then ar_err ArPath ''empty path''
              else and_then (check_path_segments (split_slash body)) (\<lambda>segments.
                Inr (join_with ''/'' segments @ (if directory then ''/'' else []))))"

definition entry_file :: "(string \<Rightarrow> string) \<Rightarrow> string \<Rightarrow> bytes \<Rightarrow> bool \<Rightarrow> archive_error + archive_entry" where
  "entry_file nfc path bs executable =
     and_then (validate_archive_path nfc path False) (\<lambda>p.
       Inr \<lparr>ae_path = p, ae_kind = EntryFile, ae_executable = executable, ae_data = bs\<rparr>)"

definition entry_directory :: "(string \<Rightarrow> string) \<Rightarrow> string \<Rightarrow> archive_error + archive_entry" where
  "entry_directory nfc path =
     and_then (validate_archive_path nfc path True) (\<lambda>p.
       Inr \<lparr>ae_path = p, ae_kind = EntryDirectory, ae_executable = False, ae_data = []\<rparr>)"

section \<open>Header fields\<close>

definition ustar_block :: usize where "ustar_block = 512"

definition ustar_magic :: bytes where
  "ustar_magic = bytes_of_string ''ustar'' @ [0]"

definition ustar_version :: bytes where
  "ustar_version = bytes_of_string ''00''"

definition in_field :: "usize \<Rightarrow> usize \<Rightarrow> (bytes \<Rightarrow> bytes) \<Rightarrow> bytes \<Rightarrow> bytes" where
  "in_field off len f h = take off h @ f (take len (drop off h)) @ drop (off + len) h"

definition field :: "usize \<Rightarrow> usize \<Rightarrow> bytes \<Rightarrow> bytes" where
  "field off len h = take len (drop off h)"

definition put_bytes :: "bytes \<Rightarrow> bytes \<Rightarrow> bytes" where
  "put_bytes src dst = (let n = min (length src) (length dst) in take n src @ drop n dst)"

definition octal_char :: "nat \<Rightarrow> byte" where
  "octal_char d = of_nat (0x30 + d)"

fun octal_digits :: "nat \<Rightarrow> bytes" where
  "octal_digits n = (if n < 8 then [octal_char n] else octal_digits (n div 8) @ [octal_char (n mod 8)])"

declare octal_digits.simps [simp del]

definition format_octal :: "nat \<Rightarrow> nat \<Rightarrow> bytes" where
  "format_octal width n = replicate (width - length (octal_digits n)) 0x30 @ octal_digits n"

definition put_octal :: "u64 \<Rightarrow> usize \<Rightarrow> bytes \<Rightarrow> bytes" where
  "put_octal v digits dst =
     (let s = format_octal digits v;
          n = min (length s) (sat_sub (length dst) 1)
      in take n s @ (if n < length dst then 0 # drop (n + 1) dst else drop n dst))"

text \<open>\<open>u64::from_str_radix\<close> in base 8, with its optional plus sign.\<close>

fun octal_value :: "nat \<Rightarrow> string \<Rightarrow> nat option" where
  "octal_value acc [] = Some acc"
| "octal_value acc (c # s) =
     (if CHR ''0'' \<le> c \<and> c \<le> CHR ''7''
      then (let v = acc * 8 + (of_char c - 0x30) in if v > u64_max then None else octal_value v s)
      else None)"

definition from_str_radix8 :: "string \<Rightarrow> nat option" where
  "from_str_radix8 s =
     (let ds = (if s \<noteq> [] \<and> hd s = CHR ''+'' then tl s else s)
      in if ds = [] then None else octal_value 0 ds)"

definition parse_octal :: "bytes \<Rightarrow> archive_error + u64" where
  "parse_octal fld =
     (let s = takeWhile (\<lambda>b. b \<noteq> 0 \<and> b \<noteq> 0x20) fld
      in if \<not> utf8_valid s then ar_err ArFormat ''octal field not utf8''
         else if s = [] then Inr 0
         else case from_str_radix8 (trim (string_of_bytes s)) of
                None \<Rightarrow> ar_err ArFormat ''invalid octal''
              | Some v \<Rightarrow> Inr v)"

definition cstr_field :: "bytes \<Rightarrow> archive_error + string" where
  "cstr_field fld =
     (let s = takeWhile (\<lambda>b. b \<noteq> 0) fld
      in if \<not> utf8_valid s then ar_err ArFormat ''path field not utf8'' else Inr (string_of_bytes s))"

section \<open>Writing\<close>

primrec split_at_slash :: "nat list \<Rightarrow> string \<Rightarrow> archive_error + string \<times> string" where
  "split_at_slash [] path = ar_err ArLimit ''path cannot be split into ustar prefix/name''"
| "split_at_slash (k # ks) path =
     (if path ! k \<noteq> CHR ''/'' then split_at_slash ks path
      else let pre = take k path; nm = drop (k + 1) path
           in if length pre \<le> 155 \<and> length nm \<le> 100 \<and> nm \<noteq> [] then Inr (pre, nm)
              else split_at_slash ks path)"

definition split_ustar_path :: "string \<Rightarrow> archive_error + string \<times> string" where
  "split_ustar_path path =
     (if length path \<le> 100 then Inr ([], path)
      else if length path > 100 + 1 + 155 then ar_err ArLimit ''path exceeds ustar name+prefix capacity''
      else split_at_slash (rev [1..<sat_sub (length path) 1]) path)"

definition byte_sum :: "bytes \<Rightarrow> nat" where
  "byte_sum bs = sum_list (map unat bs)"

definition entry_mode :: "archive_entry \<Rightarrow> nat" where
  "entry_mode e = (case ae_kind e of EntryDirectory \<Rightarrow> 493 | EntryFile \<Rightarrow> if ae_executable e then 493 else 420)"

definition entry_size :: "archive_entry \<Rightarrow> u64" where
  "entry_size e = (case ae_kind e of EntryDirectory \<Rightarrow> 0 | EntryFile \<Rightarrow> length (ae_data e))"

definition unsummed_header :: "archive_entry \<Rightarrow> string \<Rightarrow> string \<Rightarrow> bytes" where
  "unsummed_header e pre nm =
     (let h = replicate ustar_block 0;
          h = in_field 0 100 (put_bytes (bytes_of_string nm)) h;
          h = in_field 100 8 (put_octal (entry_mode e) 7) h;
          h = in_field 108 8 (put_octal 0 7) h;
          h = in_field 116 8 (put_octal 0 7) h;
          h = in_field 124 12 (put_octal (entry_size e) 11) h;
          h = in_field 136 12 (put_octal 0 11) h;
          h = in_field 148 8 (\<lambda>_. replicate 8 0x20) h;
          h = in_field 156 1 (\<lambda>_. [case ae_kind e of EntryFile \<Rightarrow> 0x30 | EntryDirectory \<Rightarrow> 0x35]) h;
          h = in_field 257 6 (\<lambda>_. ustar_magic) h;
          h = in_field 263 2 (\<lambda>_. ustar_version) h
      in in_field 345 155 (put_bytes (bytes_of_string pre)) h)"

definition entry_header :: "archive_entry \<Rightarrow> string \<Rightarrow> string \<Rightarrow> bytes" where
  "entry_header e pre nm =
     (let h = unsummed_header e pre nm;
          h = in_field 148 8 (put_octal (byte_sum h) 6) h
      in h[154 := 0, 155 := 0x20])"

definition write_entry :: "(string \<Rightarrow> string) \<Rightarrow> archive_entry \<Rightarrow> archive_error + bytes" where
  "write_entry nfc e =
     and_then (validate_archive_path nfc (trim_end_slash (ae_path e)) (ae_kind e = EntryDirectory)) (\<lambda>path.
       if path \<noteq> ae_path e then ar_err ArPath ''path not normalized''
       else and_then (split_ustar_path path) (\<lambda>(pre, nm).
         Inr (entry_header e pre nm @
           (if ae_kind e = EntryFile
            then ae_data e @ replicate ((ustar_block - length (ae_data e) mod ustar_block) mod ustar_block) 0
            else []))))"

fun write_entries :: "(string \<Rightarrow> string) \<Rightarrow> archive_entry list \<Rightarrow> archive_error + bytes" where
  "write_entries nfc [] = Inr []"
| "write_entries nfc (e # es) =
     and_then (write_entry nfc e) (\<lambda>b. and_then (write_entries nfc es) (\<lambda>bs. Inr (b @ bs)))"

definition sorted_entry_order :: "archive_entry list \<Rightarrow> archive_error + archive_entry list" where
  "sorted_entry_order entries =
     (let order = sort_key ae_path entries
      in if distinct_adj (map ae_path order) then Inr order else ar_err ArPath ''duplicate archive path'')"

definition write_ustar :: "(string \<Rightarrow> string) \<Rightarrow> archive_entry list \<Rightarrow> archive_error + bytes" where
  "write_ustar nfc entries =
     and_then (sorted_entry_order entries) (\<lambda>order.
       and_then (write_entries nfc order) (\<lambda>bs.
         Inr (bs @ replicate ustar_block 0 @ replicate ustar_block 0)))"

fun encoded_len_loop :: "u64 \<Rightarrow> archive_entry list \<Rightarrow> u64" where
  "encoded_len_loop n [] = n"
| "encoded_len_loop n (e # es) =
     (let n1 = sat_add64 n ustar_block
      in encoded_len_loop
           (if ae_kind e = EntryFile
            then let len = length (ae_data e)
                 in sat_add64 (sat_add64 n1 len) ((ustar_block - len mod ustar_block) mod ustar_block)
            else n1) es)"

definition ustar_encoded_len :: "archive_entry list \<Rightarrow> archive_error + u64" where
  "ustar_encoded_len entries =
     and_then (sorted_entry_order entries) (\<lambda>order.
       Inr (sat_add64 (encoded_len_loop 0 order) (2 * ustar_block)))"

section \<open>Parsing\<close>

definition header_kind :: "byte \<Rightarrow> archive_error + entry_kind" where
  "header_kind typeflag =
     (if typeflag = 0x30 \<or> typeflag = 0 then Inr EntryFile
      else if typeflag = 0x35 then Inr EntryDirectory
      else ar_err ArFormat ''unsupported tar typeflag'')"

definition header_owner :: "bytes \<Rightarrow> archive_error + unit" where
  "header_owner header =
     and_then (parse_octal (field 108 8 header)) (\<lambda>uid.
       if uid \<noteq> 0 then ar_err ArFormat ''non-zero uid/gid/mtime rejected''
       else and_then (parse_octal (field 116 8 header)) (\<lambda>gid.
         if gid \<noteq> 0 then ar_err ArFormat ''non-zero uid/gid/mtime rejected''
         else and_then (parse_octal (field 136 12 header)) (\<lambda>mtime.
           if mtime \<noteq> 0 then ar_err ArFormat ''non-zero uid/gid/mtime rejected''
           else if (\<exists>b \<in> set (field 265 32 header). b \<noteq> 0) \<or> (\<exists>b \<in> set (field 297 32 header). b \<noteq> 0)
           then ar_err ArFormat ''owner/group names must be empty''
           else Inr ())))"

definition header_executable :: "entry_kind \<Rightarrow> nat \<Rightarrow> archive_error + bool" where
  "header_executable kind mode =
     (if kind = EntryDirectory
      then (if mode \<noteq> 493 then ar_err ArFormat ''directory mode must be 0755'' else Inr False)
      else if mode = 420 then Inr False
      else if mode = 493 then Inr True
      else ar_err ArFormat ''unsupported mode'')"

definition parse_header ::
  "(string \<Rightarrow> string) \<Rightarrow> bytes \<Rightarrow> archive_error + string \<times> entry_kind \<times> bool \<times> u64" where
  "parse_header nfc header =
     (if field 257 6 header \<noteq> ustar_magic then ar_err ArFormat ''non-ustar or extended tar header rejected''
      else if field 263 2 header \<noteq> ustar_version then ar_err ArFormat ''ustar version must be 00''
      else
      and_then (header_kind (header ! 156)) (\<lambda>kind.
      and_then (header_owner header) (\<lambda>_.
      and_then (cstr_field (field 0 100 header)) (\<lambda>nm.
      and_then (cstr_field (field 345 155 header)) (\<lambda>pre.
      let raw = (if pre = [] then nm else pre @ ''/'' @ nm)
      in
      and_then (validate_archive_path nfc (trim_end_slash raw) (kind = EntryDirectory)) (\<lambda>path.
      and_then (parse_octal (field 100 8 header)) (\<lambda>mode.
      and_then (header_executable kind mode) (\<lambda>executable.
      and_then (parse_octal (field 124 12 header)) (\<lambda>size.
      and_then (parse_octal (field 148 8 header)) (\<lambda>claimed.
      if claimed \<noteq> byte_sum (in_field 148 8 (\<lambda>_. replicate 8 0x20) header)
      then ar_err ArFormat ''ustar checksum mismatch''
      else Inr (path, kind, executable, size)))))))))))"

definition div_ceil :: "nat \<Rightarrow> nat \<Rightarrow> nat" where
  "div_ceil a b = (a + b - 1) div b"

function parse_entries ::
  "(string \<Rightarrow> string) \<Rightarrow> usize \<Rightarrow> u64 \<Rightarrow> archive_entry list \<Rightarrow> u64 \<Rightarrow> bytes \<Rightarrow> archive_error + archive_entry list" where
  "parse_entries nfc max_files max_bytes entries expanded rest =
     (if length rest < ustar_block then Inr entries
      else
      let header = take ustar_block rest;
          rest1 = drop ustar_block rest
      in
      if \<forall>b \<in> set header. b = 0
      then (let rest2 = (if ustar_block \<le> length rest1 \<and> (\<forall>b \<in> set (take ustar_block rest1). b = 0)
                         then drop ustar_block rest1 else rest1)
            in if rest2 \<noteq> [] then ar_err ArFormat ''trailing data after ustar end markers'' else Inr entries)
      else
      and_then (parse_header nfc header) (\<lambda>(path, kind, executable, size).
      if length entries \<ge> max_files then ar_err ArLimit ''file count ceiling exceeded''
      else
      let expanded' = sat_add64 expanded size
      in
      if expanded' > max_bytes then ar_err ArLimit ''expanded size ceiling exceeded''
      else
      let need = div_ceil size ustar_block * ustar_block
      in
      if need > length rest1 then ar_err ArFormat ''truncated file data''
      else if kind = EntryDirectory \<and> take size rest1 \<noteq> [] then ar_err ArFormat ''directory entry has payload''
      else
      parse_entries nfc max_files max_bytes
        (entries @ [\<lparr>ae_path = path, ae_kind = kind, ae_executable = executable, ae_data = take size rest1\<rparr>])
        expanded' (drop need rest1)))"
  by auto
termination
  by (relation "measure (\<lambda>(_, _, _, _, _, rest). length rest)") (auto simp: ustar_block_def)

declare parse_entries.simps [simp del]

definition parse_ustar ::
  "(string \<Rightarrow> string) \<Rightarrow> bytes \<Rightarrow> usize \<Rightarrow> u64 \<Rightarrow> archive_error + archive_entry list" where
  "parse_ustar nfc bs max_files max_bytes =
     (if length bs mod ustar_block \<noteq> 0 then ar_err ArFormat ''ustar length is not a multiple of 512''
      else parse_entries nfc max_files max_bytes [] 0 bs)"

end
