(* ===== verification/Archive_Fields.thy ===== *)
theory Archive_Fields
  imports Archive_Ustar
begin

text \<open>
  The parts of the archive format: an accepted path never leaves the directory it is resolved in,
  and each field of a ustar header reads back as it was written.
\<close>

section \<open>Paths stay inside\<close>

definition safe_segment :: "string \<Rightarrow> bool" where
  "safe_segment seg \<longleftrightarrow> seg \<noteq> [] \<and> seg \<noteq> ''.'' \<and> seg \<noteq> ''..'' \<and> CHR ''/'' \<notin> set seg"

lemma split_slash_ne [simp]: "split_slash s \<noteq> []"
  by (cases s) simp_all

lemma split_slash_no_slash: "seg \<in> set (split_slash s) \<Longrightarrow> CHR ''/'' \<notin> set seg"
proof (induction s arbitrary: seg)
  case (Cons c s)
  have "split_slash s = hd (split_slash s) # tl (split_slash s)" by simp
  then have "hd (split_slash s) \<in> set (split_slash s)" "set (tl (split_slash s)) \<subseteq> set (split_slash s)"
    by (metis list.set_intros(1), metis list.set_intros(2) subsetI)
  with Cons show ?case by (auto split: if_splits)
qed simp

lemma split_slash_plain: "CHR ''/'' \<notin> set seg \<Longrightarrow> split_slash seg = [seg]"
  by (induction seg) auto

lemma split_slash_append: "CHR ''/'' \<notin> set seg \<Longrightarrow> split_slash (seg @ CHR ''/'' # s) = seg # split_slash s"
  by (induction seg) auto

lemma split_slash_join:
  "segs \<noteq> [] \<Longrightarrow> \<forall>seg \<in> set segs. CHR ''/'' \<notin> set seg \<Longrightarrow> split_slash (join_with ''/'' segs) = segs"
  by (induction "''/''" segs rule: join_with.induct) (auto simp: split_slash_plain split_slash_append)

lemma check_path_segments_Inr:
  "check_path_segments segs = Inr out \<longleftrightarrow> out = segs \<and> (\<forall>seg \<in> set segs. seg \<noteq> [] \<and> seg \<noteq> ''.'' \<and> seg \<noteq> ''..'')"
  by (induction segs arbitrary: out) (auto simp: ar_err_def and_then_Inr)

lemma trim_end_slash_id: "s \<noteq> [] \<Longrightarrow> last s \<noteq> CHR ''/'' \<Longrightarrow> trim_end_slash s = s"
proof -
  assume "s \<noteq> []" "last s \<noteq> CHR ''/''"
  then have "dropWhile (\<lambda>c. c = CHR ''/'') (rev s) = rev s" unfolding dropWhile_eq_self_iff hd_rev by simp
  then show ?thesis by (simp add: trim_end_slash_def)
qed

lemma trim_end_slash_snoc [simp]: "trim_end_slash (s @ ''/'') = trim_end_slash s"
  by (simp add: trim_end_slash_def)

lemma join_with_last:
  "segs \<noteq> [] \<Longrightarrow> \<forall>seg \<in> set segs. seg \<noteq> [] \<and> CHR ''/'' \<notin> set seg \<Longrightarrow>
   join_with ''/'' segs \<noteq> [] \<and> last (join_with ''/'' segs) \<noteq> CHR ''/'' \<and> hd (join_with ''/'' segs) \<noteq> CHR ''/''"
proof (induction "''/''" segs rule: join_with.induct)
  case (2 x)
  then show ?case using last_in_set hd_in_set by fastforce
next
  case (3 x y ys)
  then have "x \<noteq> []" "hd x \<noteq> CHR ''/''" using hd_in_set [of x] by (auto simp del: hd_in_set)
  with 3 show ?case by auto
qed simp

lemma validate_Inr:
  assumes "validate_archive_path nfc path directory = Inr out"
  obtains segs where "out = join_with ''/'' segs @ (if directory then ''/'' else [])" "segs \<noteq> []" "list_all safe_segment segs"
    "CHR 0x00 \<notin> set path"
proof -
  from assms have *: "check_path_segments (split_slash (trim_end_slash (nfc path))) = Inr (split_slash (trim_end_slash (nfc path)))"
    and out: "out = join_with ''/'' (split_slash (trim_end_slash (nfc path))) @ (if directory then ''/'' else [])"
    and nul: "CHR 0x00 \<notin> set path"
    by (auto simp: validate_archive_path_def ar_err_def Let_def and_then_Inr check_path_segments_Inr split: if_splits)
  have "list_all safe_segment (split_slash (trim_end_slash (nfc path)))"
    using * split_slash_no_slash by (auto simp: list_all_iff check_path_segments_Inr safe_segment_def)
  then show ?thesis using that out nul by simp
qed

text \<open>
  An accepted archive path is relative and stays inside: whatever the Unicode normalization
  does, the path returned splits into segments none of which is empty, a dot, a double dot or
  contains a separator, and it ends with a separator exactly when it names a directory.
\<close>

theorem archive_path_inside:
  assumes "validate_archive_path nfc path directory = Inr out"
  shows "list_all safe_segment (split_slash (trim_end_slash out)) \<and> hd out \<noteq> CHR ''/'' \<and>
    (last out = CHR ''/'' \<longleftrightarrow> directory)"
proof -
  obtain segs where out: "out = join_with ''/'' segs @ (if directory then ''/'' else [])" and ne: "segs \<noteq> []"
    and safe: "list_all safe_segment segs"
    using validate_Inr [OF assms] by blast
  have plain: "\<forall>seg \<in> set segs. seg \<noteq> [] \<and> CHR ''/'' \<notin> set seg"
    using safe by (auto simp: list_all_iff safe_segment_def)
  note j = join_with_last [OF ne plain]
  have "trim_end_slash out = join_with ''/'' segs" using out j by (simp add: trim_end_slash_id)
  moreover have "split_slash (join_with ''/'' segs) = segs" using split_slash_join [OF ne] plain by blast
  ultimately show ?thesis using safe out j by simp
qed

theorem archive_path_inside_witness:
  "validate_archive_path (\<lambda>s. s) ''bin/run'' False = Inr ''bin/run'' \<and>
   list_all safe_segment (split_slash (trim_end_slash ''bin/run''))"
proof -
  have v: "validate_archive_path (\<lambda>s. s) ''bin/run'' False = Inr ''bin/run''" by code_simp
  from v archive_path_inside [OF v] show ?thesis by blast
qed

section \<open>Fields of a header\<close>

definition fills :: "usize \<Rightarrow> (bytes \<Rightarrow> bytes) \<Rightarrow> bool" where
  "fills n f \<longleftrightarrow> (\<forall>x. length x = n \<longrightarrow> length (f x) = n)"

lemma fills_put_bytes [simp]: "fills n (put_bytes src)"
  by (simp add: fills_def put_bytes_def Let_def)

lemma fills_put_octal [simp]: "0 < n \<Longrightarrow> fills n (put_octal v digits)"
  by (auto simp: fills_def put_octal_def Let_def sat_sub_def min_def)

lemma fills_const [simp]: "fills n (\<lambda>_. c) \<longleftrightarrow> length c = n"
  unfolding fills_def using Ex_list_of_length [of n] by auto

lemma length_in_field [simp]: "off + len \<le> length h \<Longrightarrow> fills len f \<Longrightarrow> length (in_field off len f h) = length h"
  by (simp add: in_field_def fills_def)

lemma field_in_same [simp]:
  "off + len \<le> length h \<Longrightarrow> fills len f \<Longrightarrow> field off len (in_field off len f h) = f (field off len h)"
  by (simp add: field_def in_field_def fills_def)

lemma field_in_before: "i + n \<le> off \<Longrightarrow> off + len \<le> length h \<Longrightarrow> field i n (in_field off len f h) = field i n h"
proof -
  assume a: "i + n \<le> off" "off + len \<le> length h"
  then have m: "min n (off - i) = n" "off - i \<le> length h - i" "i \<le> off" by auto
  have "take n (drop i (take off h)) = take n (drop i h)" unfolding drop_take take_take m(1) ..
  moreover have "n \<le> length (drop i (take off h))" using a by simp
  ultimately show ?thesis using a by (simp add: field_def in_field_def)
qed

lemma field_in_after:
  assumes "off + len \<le> i" "off + len \<le> length h" "fills len f"
  shows "field i n (in_field off len f h) = field i n h"
proof -
  have "length (f (take len (drop off h))) = len" using assms by (simp add: fills_def)
  then show ?thesis using assms by (simp add: field_def in_field_def)
qed

lemma field_replicate [simp]: "off + len \<le> n \<Longrightarrow> field off len (replicate n b) = replicate len b"
  by (simp add: field_def min_def)

lemma in_field_twice:
  "off + len \<le> length h \<Longrightarrow> fills len f \<Longrightarrow> in_field off len g (in_field off len f h) = in_field off len (\<lambda>x. g (f x)) h"
  by (simp add: in_field_def fills_def)

lemma in_field_id: "off + len \<le> length h \<Longrightarrow> in_field off len (\<lambda>_. field off len h) h = h"
  by (simp add: in_field_def field_def) (metis append_take_drop_id drop_drop add.commute)

lemma nth_field: "i < length h \<Longrightarrow> h ! i = hd (field i 1 h)"
  by (simp add: field_def hd_drop_conv_nth take_Suc hd_conv_nth)

section \<open>Octal and text fields\<close>

fun oct_fixed :: "nat \<Rightarrow> nat \<Rightarrow> bytes" where
  "oct_fixed 0 n = []"
| "oct_fixed (Suc k) n = oct_fixed k (n div 8) @ [octal_char (n mod 8)]"

lemma length_oct_fixed [simp]: "length (oct_fixed k n) = k"
  by (induction k arbitrary: n) simp_all

lemma oct_fixed_zero: "oct_fixed k 0 = replicate k 0x30"
  by (induction k) (simp_all add: octal_char_def replicate_append_same)

lemma format_octal_fixed:
  "n < 8 ^ Suc k \<Longrightarrow> format_octal (Suc k) n = oct_fixed (Suc k) n \<and> length (octal_digits n) \<le> Suc k"
proof (induction k arbitrary: n)
  case (Suc k)
  show ?case
  proof (cases "n < 8")
    case True
    then show ?thesis by (simp add: format_octal_def octal_digits.simps oct_fixed_zero flip: replicate_append_same)
  next
    case False
    have "n div 8 < 8 ^ Suc k" using Suc.prems by (intro less_mult_imp_div_less) (simp add: mult.commute)
    from Suc.IH [OF this] False show ?thesis by (simp add: format_octal_def octal_digits.simps [of n])
  qed
qed (simp add: format_octal_def octal_digits.simps)

lemma octal_char_facts:
  assumes "d < 8"
  shows "octal_char d < 0x80" "octal_char d \<noteq> 0" "octal_char d \<noteq> 0x20"
    "char_of (unat (octal_char d)) = char_of (0x30 + d :: nat)"
    "CHR ''0'' \<le> (char_of (0x30 + d :: nat) :: char)" "(char_of (0x30 + d :: nat) :: char) \<le> CHR ''7''"
    "of_char (char_of (0x30 + d :: nat) :: char) = 0x30 + d" "plain_char (char_of (0x30 + d))"
proof -
  have "\<forall>d \<in> set [0..<8]. octal_char d < 0x80 \<and> octal_char d \<noteq> 0 \<and> octal_char d \<noteq> 0x20 \<and>
      char_of (unat (octal_char d)) = (char_of (0x30 + d :: nat) :: char) \<and>
      CHR ''0'' \<le> (char_of (0x30 + d :: nat) :: char) \<and> (char_of (0x30 + d :: nat) :: char) \<le> CHR ''7'' \<and>
      of_char (char_of (0x30 + d :: nat) :: char) = 0x30 + d \<and> plain_char (char_of (0x30 + d))"
    by code_simp
  with assms show "octal_char d < 0x80" "octal_char d \<noteq> 0" "octal_char d \<noteq> 0x20"
    "char_of (unat (octal_char d)) = char_of (0x30 + d :: nat)"
    "CHR ''0'' \<le> (char_of (0x30 + d :: nat) :: char)" "(char_of (0x30 + d :: nat) :: char) \<le> CHR ''7''"
    "of_char (char_of (0x30 + d :: nat) :: char) = 0x30 + d" "plain_char (char_of (0x30 + d))" by auto
qed

lemma oct_fixed_set: "b \<in> set (oct_fixed k n) \<Longrightarrow> \<exists>d < 8. b = octal_char d"
  by (induction k arbitrary: n) (auto intro: exI [of _ "_ mod 8"])

lemma octal_value_snoc:
  "octal_value acc (s @ [c]) = (case octal_value acc s of None \<Rightarrow> None | Some v \<Rightarrow> octal_value v [c])"
  by (induction s arbitrary: acc) (auto simp: Let_def)

lemma octal_value_fixed:
  "n < 8 ^ k \<Longrightarrow> n \<le> u64_max \<Longrightarrow> octal_value 0 (string_of_bytes (oct_fixed k n)) = Some n"
proof (induction k arbitrary: n)
  case 0
  then show ?case by (simp add: string_of_bytes_def)
next
  case (Suc k)
  have "n div 8 < 8 ^ k" using Suc.prems by (intro less_mult_imp_div_less) (simp add: mult.commute)
  moreover have "n div 8 \<le> u64_max" using Suc.prems(2) div_le_dividend [of n 8] by linarith
  ultimately have ih: "octal_value 0 (string_of_bytes (oct_fixed k (n div 8))) = Some (n div 8)" by (rule Suc.IH)
  note f = octal_char_facts [of "n mod 8"]
  have "octal_value (n div 8) [char_of (0x30 + n mod 8 :: nat)] = Some n"
    using f Suc.prems(2) by (simp add: Let_def)
  moreover have "string_of_bytes (oct_fixed (Suc k) n) = string_of_bytes (oct_fixed k (n div 8)) @ [char_of (0x30 + n mod 8 :: nat)]"
    unfolding string_of_bytes_def oct_fixed.simps map_append list.map f(4) [OF mod_less_divisor [OF zero_less_numeral]] ..
  ultimately show ?case using ih by (simp add: octal_value_snoc del: oct_fixed.simps octal_value.simps)
qed

lemma parse_octal_fixed:
  assumes "n < 8 ^ Suc k" "n \<le> u64_max" "b = 0 \<or> b = 0x20"
  shows "parse_octal (oct_fixed (Suc k) n @ b # post) = Inr n"
proof -
  let ?s = "oct_fixed (Suc k) n"
  have ch: "x < 0x80 \<and> x \<noteq> 0 \<and> x \<noteq> 0x20 \<and> plain_char (char_of (unat x)) \<and> char_of (unat x) \<noteq> CHR ''+''" if x: "x \<in> set ?s" for x
  proof -
    obtain d where d: "d < 8" "x = octal_char d" using oct_fixed_set [OF x] by blast
    have "\<not> CHR ''0'' \<le> CHR ''+''" by code_simp
    then have "(char_of (0x30 + d :: nat) :: char) \<noteq> CHR ''+''" using octal_char_facts(5) [OF d(1)] by metis
    then show ?thesis
      unfolding d(2) octal_char_facts(4) [OF d(1)] using octal_char_facts(1,2,3,8) [OF d(1)] by blast
  qed
  have tw: "takeWhile (\<lambda>b. b \<noteq> 0 \<and> b \<noteq> 0x20) (?s @ b # post) = ?s"
    using ch assms(3) by (subst takeWhile_append2) auto
  have u: "utf8_valid ?s" using ch by (intro utf8_valid_ascii) blast
  have ne: "?s \<noteq> []" by simp
  have "hd (string_of_bytes ?s) = char_of (unat (hd ?s))" "last (string_of_bytes ?s) = char_of (unat (last ?s))"
    unfolding string_of_bytes_def hd_map [OF ne] last_map [OF ne] by (rule refl)+
  then have pl: "plain_char (hd (string_of_bytes ?s))" "plain_char (last (string_of_bytes ?s))" "hd (string_of_bytes ?s) \<noteq> CHR ''+''"
    using ch [OF hd_in_set [OF ne]] ch [OF last_in_set [OF ne]] by simp_all
  have sne: "string_of_bytes ?s \<noteq> []" using ne by (simp add: string_of_bytes_def del: oct_fixed.simps)
  have "from_str_radix8 (trim (string_of_bytes ?s)) = Some n"
    using trim_plain [OF sne pl(1,2)] pl(3) sne octal_value_fixed [OF assms(1,2)]
    by (simp add: from_str_radix8_def Let_def del: oct_fixed.simps)
  then show ?thesis unfolding parse_octal_def tw Let_def using u ne by (simp del: oct_fixed.simps)
qed

lemma put_octal_zeros:
  assumes "v < 8 ^ Suc k" "Suc k < n"
  shows "put_octal v (Suc k) (replicate n b) = oct_fixed (Suc k) v @ 0 # replicate (n - Suc k - 1) b"
proof -
  have f: "format_octal (Suc k) v = oct_fixed (Suc k) v" using format_octal_fixed [OF assms(1)] by simp
  have m: "min (Suc k) (n - 1) = Suc k" using assms(2) by simp
  show ?thesis unfolding put_octal_def f sat_sub_def length_oct_fixed length_replicate Let_def m
    using assms(2) by simp
qed

lemma parse_put_octal:
  assumes "v < 8 ^ Suc k" "v \<le> u64_max" "Suc k < n"
  shows "parse_octal (put_octal v (Suc k) (replicate n 0)) = Inr v"
  unfolding put_octal_zeros [OF assms(1,3)] by (rule parse_octal_fixed [OF assms(1,2)]) simp

lemma cstr_put_bytes:
  assumes "length s \<le> n" "CHR 0x00 \<notin> set s" "utf8_valid (bytes_of_string s)"
  shows "cstr_field (put_bytes (bytes_of_string s) (replicate n 0)) = Inr s"
proof -
  have nz: "of_nat (of_char c) \<noteq> (0 :: byte)" if "c \<in> set s" for c
  proof
    assume z: "of_nat (of_char c) = (0 :: byte)"
    have "string_of_bytes (bytes_of_string [c]) = [c]" by simp
    then have "[c] = [CHR 0x00]" using z by (simp add: bytes_of_string_def string_of_bytes_def char_of_def)
    with that assms(2) show False by simp
  qed
  have "put_bytes (bytes_of_string s) (replicate n 0) = bytes_of_string s @ replicate (n - length s) 0"
    using assms(1) by (simp add: put_bytes_def Let_def min_def)
  moreover have "takeWhile (\<lambda>b. b \<noteq> 0) (bytes_of_string s @ replicate (n - length s) 0) = bytes_of_string s"
    using nz by (subst takeWhile_append2) (auto simp: bytes_of_string_def)
  ultimately show ?thesis using assms(3) by (simp add: cstr_field_def Let_def)
qed

section \<open>Splitting a path over two fields\<close>

lemma utf8_split_slash:
  "utf8_valid (a @ 0x2F # b) \<Longrightarrow> utf8_valid a \<and> utf8_valid b"
proof (induction "length a" arbitrary: a rule: less_induct)
  case less
  show ?case
  proof (cases a)
    case Nil
    with less.prems show ?thesis by simp
  next
    case (Cons x r)
    have c: "\<not> utf8_cont 0x2F" "\<not> utf8_lead3 x 0x2F" "\<not> utf8_lead4 x 0x2F"
      by (auto simp: utf8_cont_def utf8_lead3_def utf8_lead4_def)
    note ih = less.hyps
    show ?thesis
    proof (cases "x < 0x80")
      case True
      with less.prems ih [of r] Cons show ?thesis by simp
    next
      case False
      then obtain y r1 where r: "r = y # r1" using less.prems Cons c by (cases r) (auto split: list.splits if_splits)
      show ?thesis
      proof (cases "0xC2 \<le> x \<and> x \<le> 0xDF")
        case True
        with False less.prems ih [of r1] Cons r show ?thesis by simp
      next
        case F2: False
        then obtain z r2 where r1: "r1 = z # r2" using False less.prems Cons r c by (cases r1) (auto split: list.splits if_splits)
        show ?thesis
        proof (cases "utf8_lead3 x y")
          case True
          with False F2 less.prems ih [of r2] Cons r r1 show ?thesis by (auto split: if_splits)
        next
          case F3: False
          then obtain w r3 where r2: "r2 = w # r3" using False F2 less.prems Cons r r1 c by (cases r2) (auto split: list.splits if_splits)
          with False F2 F3 less.prems ih [of r3] Cons r r1 show ?thesis by (auto split: if_splits)
        qed
      qed
    qed
  qed
qed

lemma split_at_slash_Inr:
  "split_at_slash ks path = Inr (pre, nm) \<Longrightarrow> \<forall>k \<in> set ks. 0 < k \<and> k < length path \<Longrightarrow>
   path = pre @ ''/'' @ nm \<and> pre \<noteq> [] \<and> length pre \<le> 155 \<and> length nm \<le> 100"
proof (induction ks)
  case (Cons k ks)
  show ?case
  proof (cases "path ! k = CHR ''/'' \<and> length (take k path) \<le> 155 \<and> length (drop (k + 1) path) \<le> 100 \<and> drop (k + 1) path \<noteq> []")
    case True
    then have "pre = take k path" "nm = drop (Suc k) path" using Cons.prems(1) by (auto simp: Let_def)
    then show ?thesis using True Cons.prems(2) id_take_nth_drop [of k path] by auto
  next
    case False
    then have "split_at_slash ks path = Inr (pre, nm)" using Cons.prems(1) by (auto simp: Let_def split: if_splits)
    then show ?thesis using Cons by simp
  qed
qed (simp add: ar_err_def)

lemma split_ustar_path_Inr:
  assumes "split_ustar_path path = Inr (pre, nm)"
  shows "path = (if pre = [] then nm else pre @ ''/'' @ nm) \<and> length pre \<le> 155 \<and> length nm \<le> 100"
proof (cases "length path \<le> 100")
  case True
  then show ?thesis using assms by (auto simp: split_ustar_path_def)
next
  case False
  then have "split_at_slash (rev [1..<sat_sub (length path) 1]) path = Inr (pre, nm)"
    using assms by (auto simp: split_ustar_path_def ar_err_def split: if_splits)
  moreover have "\<forall>k \<in> set (rev [1..<sat_sub (length path) 1]). 0 < k \<and> k < length path" by (auto simp: sat_sub_def)
  ultimately show ?thesis using split_at_slash_Inr by fastforce
qed

section \<open>Headers\<close>

lemma unsummed_fields:
  fixes e pre nm
  defines "h \<equiv> unsummed_header e pre nm"
  shows "length h = 512"
    "field 0 100 h = put_bytes (bytes_of_string nm) (replicate 100 0)"
    "field 100 8 h = put_octal (entry_mode e) 7 (replicate 8 0)"
    "field 108 8 h = put_octal 0 7 (replicate 8 0)" "field 116 8 h = put_octal 0 7 (replicate 8 0)"
    "field 124 12 h = put_octal (entry_size e) 11 (replicate 12 0)" "field 136 12 h = put_octal 0 11 (replicate 12 0)"
    "field 148 8 h = replicate 8 0x20" "field 156 1 h = [case ae_kind e of EntryFile \<Rightarrow> 0x30 | EntryDirectory \<Rightarrow> 0x35]"
    "field 257 6 h = ustar_magic" "field 263 2 h = ustar_version" "field 265 32 h = replicate 32 0" "field 297 32 h = replicate 32 0"
    "field 345 155 h = put_bytes (bytes_of_string pre) (replicate 155 0)"
  unfolding h_def unsummed_header_def Let_def
  by (simp_all add: field_in_before field_in_after ustar_block_def ustar_magic_def ustar_version_def)

end
