(* ===== verification/Archive_Roundtrip.thy ===== *)
theory Archive_Roundtrip
  imports Archive_Fields "HOL-Library.Multiset"
begin

text \<open>
  A written ustar stream parses back to its entries, in path order.
\<close>

section \<open>A header\<close>

lemma byte_sum_bound: "byte_sum bs \<le> 255 * length bs"
proof (induction bs)
  case (Cons b bs)
  then show ?case using unat_byte_less [of b] by (simp add: byte_sum_def)
qed (simp add: byte_sum_def)

lemma list_update_field:
  assumes "off + length c \<le> length h" "field off (length c) h = c" "off \<le> i" "i < off + length c" "c ! (i - off) = v"
  shows "h[i := v] = h"
proof -
  have "field off (length c) h ! (i - off) = h ! i" using assms(1,3,4) by (simp add: field_def)
  then have "h ! i = v" using assms(2,5) by simp
  then show ?thesis by (metis list_update_id)
qed

lemma entry_header_sum:
  fixes e pre nm
  defines "h \<equiv> unsummed_header e pre nm"
  shows "entry_header e pre nm = in_field 148 8 (\<lambda>_. oct_fixed 6 (byte_sum h) @ [0, 0x20]) h"
proof -
  let ?c = "oct_fixed 6 (byte_sum h) @ [0, 0x20]"
  let ?g = "in_field 148 8 (\<lambda>_. ?c) h"
  have len: "length h = 512" unfolding h_def by (rule unsummed_fields)
  have "byte_sum h < 8 ^ Suc 5" using byte_sum_bound [of h] len by simp
  from put_octal_zeros [OF this, of 8 "0x20"] have "put_octal (byte_sum h) 6 (replicate 8 0x20) = ?c"
    by (simp del: oct_fixed.simps)
  then have "in_field 148 8 (put_octal (byte_sum h) 6) h = ?g"
    using unsummed_fields(8) [of e pre nm] unfolding h_def [symmetric] by (simp add: in_field_def field_def)
  moreover have "?g[154 := 0] = ?g" "?g[155 := 0x20] = ?g"
    by (rule list_update_field [where off = 148 and c = ?c]; simp add: len nth_append del: oct_fixed.simps)+
  ultimately show ?thesis unfolding entry_header_def Let_def h_def [symmetric] by simp
qed

definition wf_entry :: "(string \<Rightarrow> string) \<Rightarrow> archive_entry \<Rightarrow> bool" where
  "wf_entry nfc e \<longleftrightarrow> utf8_valid (bytes_of_string (ae_path e)) \<and> length (ae_data e) < 8 ^ 11 \<and>
     (ae_kind e = EntryDirectory \<longrightarrow> ae_data e = [] \<and> \<not> ae_executable e)"

lemma utf8_parts:
  assumes "utf8_valid (bytes_of_string path)" "path = (if pre = [] then nm else pre @ ''/'' @ nm)"
  shows "utf8_valid (bytes_of_string pre) \<and> utf8_valid (bytes_of_string nm)"
proof -
  have "bytes_of_string ''/'' = [0x2F]" by code_simp
  then show ?thesis using assms utf8_split_slash [of "bytes_of_string pre" "bytes_of_string nm"]
    by (cases "pre = []") (simp_all add: bytes_of_string_def)
qed

lemma no_nul_path:
  assumes "CHR 0x00 \<notin> set (trim_end_slash p)"
  shows "CHR 0x00 \<notin> set p"
proof
  assume "CHR 0x00 \<in> set p"
  then have "CHR 0x00 \<in> set (takeWhile (\<lambda>c. c = CHR ''/'') (rev p) @ dropWhile (\<lambda>c. c = CHR ''/'') (rev p))"
    unfolding takeWhile_dropWhile_id by simp
  then have "CHR 0x00 \<in> set (takeWhile (\<lambda>c. c = CHR ''/'') (rev p)) \<union> set (dropWhile (\<lambda>c. c = CHR ''/'') (rev p))"
    unfolding set_append .
  with assms show False by (auto simp: trim_end_slash_def dest: set_takeWhileD)
qed

lemma parse_entry_header:
  assumes wf: "wf_entry nfc e"
    and v: "validate_archive_path nfc (trim_end_slash (ae_path e)) (ae_kind e = EntryDirectory) = Inr (ae_path e)"
    and sp: "split_ustar_path (ae_path e) = Inr (pre, nm)"
  shows "parse_header nfc (entry_header e pre nm) = Inr (ae_path e, ae_kind e, ae_executable e, entry_size e)"
proof -
  let ?u = "unsummed_header e pre nm" and ?c = "oct_fixed 6 (byte_sum (unsummed_header e pre nm)) @ [0, 0x20]"
  let ?h = "entry_header e pre nm"
  note uf = unsummed_fields [of e pre nm]
  have h: "?h = in_field 148 8 (\<lambda>_. ?c) ?u" by (rule entry_header_sum)
  have c8: "length ?c = 8" by simp
  have same: "field i n ?h = field i n ?u" if "i + n \<le> 148 \<or> 156 \<le> i" for i n
    unfolding h using that uf(1) c8 by (auto simp: field_in_before field_in_after simp del: oct_fixed.simps)
  have p: "ae_path e = (if pre = [] then nm else pre @ ''/'' @ nm)" and lens: "length pre \<le> 155" "length nm \<le> 100"
    using split_ustar_path_Inr [OF sp] by auto
  have nul: "CHR 0x00 \<notin> set (ae_path e)"
    using validate_Inr [OF v] no_nul_path by blast
  then have nuls: "CHR 0x00 \<notin> set pre" "CHR 0x00 \<notin> set nm" using p by (auto split: if_splits)
  have u8: "utf8_valid (bytes_of_string pre)" "utf8_valid (bytes_of_string nm)"
    using utf8_parts [OF _ p] wf by (auto simp: wf_entry_def)
  have cs: "cstr_field (field 0 100 ?h) = Inr nm" "cstr_field (field 345 155 ?h) = Inr pre"
    using same uf(2,14) cstr_put_bytes [OF lens(2) nuls(2) u8(2)] cstr_put_bytes [OF lens(1) nuls(1) u8(1)] by simp_all
  have z: "parse_octal (put_octal 0 7 (replicate 8 0)) = Inr 0" "parse_octal (put_octal 0 11 (replicate 12 0)) = Inr 0"
    using parse_put_octal [of 0 6 8] parse_put_octal [of 0 10 12] by simp_all
  have own: "header_owner ?h = Inr ()"
    using same uf(4,5,7,12,13) z by (simp add: header_owner_def)
  have small: "entry_size e < 8 ^ Suc 10" using wf by (auto simp: entry_size_def wf_entry_def split: entry_kind.splits)
  have sz: "parse_octal (field 124 12 ?h) = Inr (entry_size e)"
    using same uf(6) parse_put_octal [OF small, of 12] small by (simp add: u64_max_def)
  have md: "parse_octal (field 100 8 ?h) = Inr (entry_mode e)"
  proof -
    have "entry_mode e < 8 ^ Suc 6" by (simp add: entry_mode_def split: entry_kind.splits)
    moreover from this have "entry_mode e \<le> u64_max" by (simp add: u64_max_def)
    ultimately show ?thesis using same uf(3) parse_put_octal [of "entry_mode e" 6 8] by simp
  qed
  have ex: "header_executable (ae_kind e) (entry_mode e) = Inr (ae_executable e)"
    using wf by (auto simp: header_executable_def entry_mode_def wf_entry_def split: entry_kind.splits)
  have "byte_sum ?u < 8 ^ Suc 5" using byte_sum_bound [of ?u] uf(1) by simp
  then have cl: "parse_octal (field 148 8 ?h) = Inr (byte_sum ?u)"
    unfolding h using uf(1) parse_octal_fixed [of "byte_sum ?u" 5 0 "[0x20]"] by (simp add: u64_max_def del: oct_fixed.simps)
  have su: "in_field 148 8 (\<lambda>_. replicate 8 0x20) ?h = ?u"
    unfolding h using uf(1,8) in_field_id [of 148 8 ?u] by (simp add: in_field_twice del: oct_fixed.simps)
  have kd: "header_kind (?h ! 156) = Inr (ae_kind e)"
    using nth_field [of 156 ?h] same [of 156 1] uf(1,9) h
    by (auto simp: header_kind_def split: entry_kind.splits simp del: oct_fixed.simps)
  have mg: "field 257 6 ?h = ustar_magic" "field 263 2 ?h = ustar_version" using same uf(10,11) by simp_all
  show ?thesis
    unfolding parse_header_def mg kd own cs md ex sz cl su and_then_simps Let_def p [symmetric] v by simp
qed

section \<open>The whole stream\<close>

lemma div_ceil_pad: "div_ceil n 512 * 512 = n + (512 - n mod 512) mod 512"
proof (cases "n mod 512 = 0")
  case True
  then obtain k where "n = 512 * k" by (metis mod_0_imp_dvd dvdE)
  then show ?thesis by (simp add: div_ceil_def)
next
  case False
  then have "0 < n mod 512" "n mod 512 < 512" by simp_all
  moreover have "n = n div 512 * 512 + n mod 512" by simp
  ultimately obtain k r where "n = k * 512 + r" "0 < r" "r < 512" by metis
  moreover from this have "(n + 512 - 1) div 512 = k + 1" by (intro div_nat_eqI) simp_all
  ultimately show ?thesis unfolding div_ceil_def by simp
qed

definition entry_payload :: "archive_entry \<Rightarrow> bytes" where
  "entry_payload e = (if ae_kind e = EntryFile then ae_data e @ replicate ((512 - length (ae_data e) mod 512) mod 512) 0 else [])"

lemma write_entry_Inr:
  assumes "write_entry nfc e = Inr bs"
  obtains pre nm where "bs = entry_header e pre nm @ entry_payload e" "split_ustar_path (ae_path e) = Inr (pre, nm)"
    "validate_archive_path nfc (trim_end_slash (ae_path e)) (ae_kind e = EntryDirectory) = Inr (ae_path e)"
  using assms by (auto simp: write_entry_def and_then_Inr ar_err_def ustar_block_def entry_payload_def split: if_splits)

lemma entry_header_shape: "length (entry_header e pre nm) = 512 \<and> (\<exists>b \<in> set (entry_header e pre nm). b \<noteq> 0)"
proof -
  have l: "length (entry_header e pre nm) = 512"
    unfolding entry_header_sum by (subst length_in_field) (simp_all add: unsummed_fields(1) del: oct_fixed.simps)
  have "field 257 6 (entry_header e pre nm) = ustar_magic"
    unfolding entry_header_sum by (subst field_in_after) (simp_all add: unsummed_fields(1,10) del: oct_fixed.simps)
  moreover have "set (field 257 6 (entry_header e pre nm)) \<subseteq> set (entry_header e pre nm)"
    by (auto simp: field_def dest!: in_set_takeD in_set_dropD)
  moreover have "hd ustar_magic \<in> set ustar_magic" "hd ustar_magic \<noteq> 0" by (simp_all add: ustar_magic_def bytes_of_string_def)
  ultimately show ?thesis using l by auto
qed

lemma payload_read:
  assumes "wf_entry nfc e"
  shows "div_ceil (entry_size e) 512 * 512 = length (entry_payload e)" "take (entry_size e) (entry_payload e @ post) = ae_data e"
  using assms by (cases "ae_kind e"; simp add: div_ceil_pad entry_size_def entry_payload_def wf_entry_def)+

lemma parse_written_entries:
  assumes "write_entries nfc es = Inr bs" "list_all (wf_entry nfc) es"
    and "length acc + length es \<le> max_files" "n + sum_list (map entry_size es) \<le> max_bytes" "max_bytes \<le> u64_max"
  shows "parse_entries nfc max_files max_bytes acc n (bs @ replicate 1024 0) = Inr (acc @ es)"
  using assms(1-4)
proof (induction es arbitrary: bs acc n)
  case Nil
  have z: "take 512 (replicate 1024 (0 :: byte)) = replicate 512 0" "drop 512 (replicate 1024 (0 :: byte)) = replicate 512 0" by simp_all
  show ?case using Nil by (subst parse_entries.simps) (simp add: ustar_block_def Let_def z)
next
  case (Cons e es)
  obtain b bs' where b: "write_entry nfc e = Inr b" "write_entries nfc es = Inr bs'" "bs = b @ bs'"
    using Cons.prems(1) by (auto simp: and_then_Inr)
  have wf: "wf_entry nfc e" using Cons.prems(2) by simp
  obtain pre nm where e: "b = entry_header e pre nm @ entry_payload e" "split_ustar_path (ae_path e) = Inr (pre, nm)"
    "validate_archive_path nfc (trim_end_slash (ae_path e)) (ae_kind e = EntryDirectory) = Inr (ae_path e)"
    using write_entry_Inr [OF b(1)] by blast
  note shape = entry_header_shape [of e pre nm] and ph = parse_entry_header [OF wf e(3,2)]
  define inp rest where "inp = bs @ replicate 1024 (0 :: byte)" and "rest = bs' @ replicate 1024 (0 :: byte)"
  have sat: "sat_add64 n (entry_size e) = n + entry_size e" using Cons.prems(4) assms(5) by (simp add: sat_add64_def)
  have split: "take 512 inp = entry_header e pre nm" "drop 512 inp = entry_payload e @ rest" "\<not> length inp < 512"
    using shape b(3) e(1) by (simp_all add: inp_def rest_def)
  have nz: "\<not> (\<forall>x \<in> set (entry_header e pre nm). x = 0)" using shape by blast
  have same: "\<lparr>ae_path = ae_path e, ae_kind = ae_kind e, ae_executable = ae_executable e, ae_data = ae_data e\<rparr> = e" by simp
  have d: "\<not> (ae_kind e = EntryDirectory \<and> ae_data e \<noteq> [])" using wf by (auto simp: wf_entry_def)
  have lim: "\<not> max_files \<le> length acc" "\<not> max_bytes < n + entry_size e" using Cons.prems(3,4) by simp_all
  have "parse_entries nfc max_files max_bytes acc n inp =
      parse_entries nfc max_files max_bytes (acc @ [e]) (n + entry_size e) rest"
    unfolding parse_entries.simps [of _ _ _ _ _ inp] ustar_block_def Let_def split ph and_then_simps prod.case sat
      payload_read [OF wf] same if_not_P [OF nz] if_not_P [OF d] if_not_P [OF lim(1)] if_not_P [OF lim(2)]
    using split(3) by simp
  also have "\<dots> = Inr ((acc @ [e]) @ es)"
    unfolding rest_def by (rule Cons.IH [OF b(2)]) (use Cons.prems in simp_all)
  finally show ?case by (simp add: inp_def)
qed

lemma write_entries_length: "write_entries nfc es = Inr bs \<Longrightarrow> list_all (wf_entry nfc) es \<Longrightarrow> length bs mod 512 = 0"
proof (induction es arbitrary: bs)
  case (Cons e es)
  obtain b bs' where b: "write_entry nfc e = Inr b" "write_entries nfc es = Inr bs'" "bs = b @ bs'"
    using Cons.prems(1) by (auto simp: and_then_Inr)
  obtain pre nm where "b = entry_header e pre nm @ entry_payload e" using write_entry_Inr [OF b(1)] by blast
  then have "length b = 512 + div_ceil (entry_size e) 512 * 512"
    using entry_header_shape payload_read(1) [of nfc e] Cons.prems(2) by simp
  then show ?case using Cons.IH [OF b(2)] Cons.prems(2) b(3) by (simp add: mod_add_left_eq [symmetric])
qed simp

text \<open>
  C14: A written archive reads back: the parser returns exactly the entries that were written, ordered
  by path, with their kind, mode and contents, for entries whose paths are text, whose files are
  smaller than the ustar size field allows, and ceilings that admit them.
\<close>

theorem ustar_roundtrip:
  assumes w: "write_ustar nfc entries = Inr bs" and wf: "list_all (wf_entry nfc) entries"
    and lim: "length entries \<le> max_files" "sum_list (map entry_size entries) \<le> max_bytes" "max_bytes \<le> u64_max"
  shows "parse_ustar nfc bs max_files max_bytes = Inr (sort_key ae_path entries)"
proof -
  let ?es = "sort_key ae_path entries"
  obtain bs' where bs': "write_entries nfc ?es = Inr bs'" and bs: "bs = bs' @ replicate 1024 0"
    using w by (auto simp: write_ustar_def sorted_entry_order_def ar_err_def and_then_Inr Let_def ustar_block_def
        simp flip: replicate_add split: if_splits)
  have wfs: "list_all (wf_entry nfc) ?es" using wf by (simp add: list_all_iff)
  have "sum_list (map entry_size ?es) = sum_list (map entry_size entries)"
    by (metis mset_map mset_sort sum_mset_sum_list)
  then have "parse_entries nfc max_files max_bytes [] 0 (bs' @ replicate 1024 0) = Inr ([] @ ?es)"
    using parse_written_entries [OF bs' wfs, of "[]" max_files 0 max_bytes] lim by simp
  then show ?thesis
    using write_entries_length [OF bs' wfs] by (simp add: parse_ustar_def bs ustar_block_def mod_add_left_eq [symmetric])
qed

definition sample_entries :: "archive_entry list" where
  "sample_entries =
     [\<lparr>ae_path = ''bin/run'', ae_kind = EntryFile, ae_executable = True, ae_data = [1, 2]\<rparr>,
      \<lparr>ae_path = ''bin/'', ae_kind = EntryDirectory, ae_executable = False, ae_data = []\<rparr>]"

theorem ustar_roundtrip_witness:
  "\<exists>bs. write_ustar (\<lambda>s. s) sample_entries = Inr bs \<and> parse_ustar (\<lambda>s. s) bs 10 100 = Inr (rev sample_entries)"
proof -
  have v: "validate_archive_path (\<lambda>s. s) (trim_end_slash ''bin/run'') False = Inr ''bin/run''"
    "validate_archive_path (\<lambda>s. s) (trim_end_slash ''bin/'') True = Inr ''bin/''" by code_simp+
  have k: "sort_key ae_path sample_entries = rev sample_entries" by code_simp
  have "\<exists>bs. write_ustar (\<lambda>s. s) sample_entries = Inr bs"
    using v by (simp add: write_ustar_def sorted_entry_order_def k)
      (simp add: sample_entries_def write_entry_def split_ustar_path_def)
  then obtain bs where w: "write_ustar (\<lambda>s. s) sample_entries = Inr bs" by blast
  have "utf8_valid (bytes_of_string ''bin/run'')" "utf8_valid (bytes_of_string ''bin/'')" by code_simp+
  then have "list_all (wf_entry (\<lambda>s. s)) sample_entries" by (simp add: sample_entries_def wf_entry_def)
  then have "parse_ustar (\<lambda>s. s) bs 10 100 = Inr (sort_key ae_path sample_entries)"
    by (rule ustar_roundtrip [OF w]) (simp_all add: sample_entries_def entry_size_def u64_max_def)
  with w k show ?thesis by auto
qed

text \<open>
  The parser accepts more than the writer produces: here a stream without the two end blocks, which
  the streaming extraction refuses.
\<close>

theorem missing_end_accepted: "parse_ustar nfc [] max_files max_bytes = Inr []"
  by (simp add: parse_ustar_def parse_entries.simps ustar_block_def)

text \<open>
  The size field holds eleven octal digits: the size of a larger file loses its last digit, here
  eight gibibytes are recorded as one.
\<close>

theorem oversized_size_truncated: "parse_octal (put_octal (8 ^ 11) 11 (replicate 12 0)) = Inr (8 ^ 10)"
proof -
  have z: "octal_char 0 = 0x30" by (simp add: octal_char_def)
  have d: "octal_digits (8 ^ k) = octal_char 1 # replicate k 0x30" for k
    by (induction k) (simp_all add: octal_digits.simps [of "8 ^ _"] octal_digits.simps [of "8 * 8 ^ _"] z octal_digits.simps [of "Suc 0"]
        replicate_append_same)
  have o: "oct_fixed (Suc k) (8 ^ k) = octal_char 1 # replicate k 0x30" for k
    by (induction k) (simp_all add: z replicate_append_same)
  have "put_octal (8 ^ 11) 11 (replicate 12 0) = oct_fixed (Suc 10) (8 ^ 10) @ 0 # []"
    unfolding put_octal_def format_octal_def d o by (simp add: sat_sub_def)
  then show ?thesis using parse_octal_fixed [of "8 ^ 10" 10 0 "[]"] by (simp add: u64_max_def del: oct_fixed.simps)
qed

end
