(* ===== verification/Archive_Extract.thy ===== *)
theory Archive_Extract
  imports Archive_Fields
begin

text \<open>
  Packing, extraction and materialization of application archives (gump-capsule/src/archive:
  pack.rs, extract.rs, materialize.rs). The file system is the parameter record \<open>extract_host\<close> over
  a state \<open>'w\<close>: a path is the list of its segments from the root of the file system. The
  Zstandard codec is a parameter, as is the source of random staging names.

  Extraction is confined: whatever the archive says, every directory, file and mode it changes
  has a path below the staging root, and materialization changes nothing of an existing release.
\<close>

section \<open>Packing\<close>

record extract_limits =
  xl_max_files :: usize
  xl_max_uncompressed_bytes :: u64
  xl_max_path_bytes :: usize


definition pack_archive ::
  "(string \<Rightarrow> string) \<Rightarrow> (u64 \<Rightarrow> bytes \<Rightarrow> archive_error + bytes) \<Rightarrow> archive_entry list \<Rightarrow> archive_error + bytes" where
  "pack_archive nfc zstd entries =
     and_then (ustar_encoded_len entries) (\<lambda>pledged.
       and_then (write_ustar nfc entries) (\<lambda>ustar. zstd pledged ustar))"

definition compress_ustar :: "(u64 \<Rightarrow> bytes \<Rightarrow> archive_error + bytes) \<Rightarrow> bytes \<Rightarrow> archive_error + bytes" where
  "compress_ustar zstd ustar = zstd (length ustar) ustar"

text \<open>The decoder is the sequence of results its reads give; an empty read is the end of the frame.\<close>

fun decompress_loop :: "(unit + bytes) list \<Rightarrow> u64 \<Rightarrow> bytes \<Rightarrow> archive_error + bytes" where
  "decompress_loop [] max_uncompressed out = Inr out"
| "decompress_loop (Inl _ # _) max_uncompressed out = ar_err ArCompress ''decoder''"
| "decompress_loop (Inr b # rs) max_uncompressed out =
     (if b = [] then Inr out
      else if length out + length b > max_uncompressed then ar_err ArLimit ''uncompressed size ceiling exceeded''
      else decompress_loop rs max_uncompressed (out @ b))"

definition decompress_ustar ::
  "(bytes \<Rightarrow> archive_error + (unit + bytes) list) \<Rightarrow> bytes \<Rightarrow> u64 \<Rightarrow> archive_error + bytes" where
  "decompress_ustar unzstd compressed max_uncompressed =
     and_then (unzstd compressed) (\<lambda>reads. decompress_loop reads max_uncompressed [])"

definition unpack_archive ::
  "(string \<Rightarrow> string) \<Rightarrow> (bytes \<Rightarrow> archive_error + (unit + bytes) list) \<Rightarrow> bytes \<Rightarrow> extract_limits \<Rightarrow>
   archive_error + archive_entry list" where
  "unpack_archive nfc unzstd bs limits =
     and_then (decompress_ustar unzstd bs (xl_max_uncompressed_bytes limits)) (\<lambda>ustar.
       parse_ustar nfc ustar (xl_max_files limits) (xl_max_uncompressed_bytes limits))"

section \<open>The file system\<close>

type_synonym fs_path = "string list"

datatype link_status = NoEntry | SymlinkEntry | OtherEntry | StatusError

record 'w extract_host =
  xh_canonicalize :: "fs_path \<Rightarrow> 'w \<Rightarrow> archive_error + fs_path"
  xh_exists :: "fs_path \<Rightarrow> 'w \<Rightarrow> bool"
  xh_link_status :: "fs_path \<Rightarrow> 'w \<Rightarrow> link_status"
  xh_create_dir_all :: "fs_path \<Rightarrow> 'w \<Rightarrow> (archive_error + unit) \<times> 'w"
  xh_create_file :: "fs_path \<Rightarrow> 'w \<Rightarrow> (archive_error + unit) \<times> 'w"
  xh_append :: "fs_path \<Rightarrow> bytes \<Rightarrow> 'w \<Rightarrow> (archive_error + unit) \<times> 'w"
  xh_set_mode :: "fs_path \<Rightarrow> nat \<Rightarrow> 'w \<Rightarrow> (archive_error + unit) \<times> 'w"

type_synonym ('w, 'a) fs_action = "'w \<Rightarrow> (archive_error + 'a) \<times> 'w"

definition fs_then :: "('w, 'a) fs_action \<Rightarrow> ('a \<Rightarrow> ('w, 'b) fs_action) \<Rightarrow> ('w, 'b) fs_action" where
  "fs_then m f w = (case m w of (Inl e, w') \<Rightarrow> (Inl e, w') | (Inr a, w') \<Rightarrow> f a w')"

definition fs_ok :: "'a \<Rightarrow> ('w, 'a) fs_action" where
  "fs_ok a w = (Inr a, w)"

definition fs_fail :: "archive_error_kind \<Rightarrow> string \<Rightarrow> ('w, 'a) fs_action" where
  "fs_fail k m w = (ar_err k m, w)"

definition fs_lift :: "archive_error + 'a \<Rightarrow> ('w, 'a) fs_action" where
  "fs_lift r w = (r, w)"

section \<open>Extraction\<close>

fun jail_segments :: "string list \<Rightarrow> archive_error + string list" where
  "jail_segments [] = Inr []"
| "jail_segments (seg # segs) =
     (if seg = [] \<or> seg = ''.'' \<or> seg = ''..'' then ar_err ArEscape ''path escape during extract''
      else and_then (jail_segments segs) (\<lambda>rest. Inr (seg # rest)))"

definition is_prefix :: "fs_path \<Rightarrow> fs_path \<Rightarrow> bool" where
  "is_prefix root p \<longleftrightarrow> take (length root) p = root"

definition join_jail :: "'w extract_host \<Rightarrow> fs_path \<Rightarrow> string \<Rightarrow> ('w, fs_path) fs_action" where
  "join_jail X root rel =
     fs_then (fs_lift (jail_segments (split_slash rel))) (\<lambda>segs w.
       let out = root @ segs; parent = butlast out
       in if out \<noteq> [] \<and> xh_exists X parent w
          then (case xh_canonicalize X parent w of
                  Inl e \<Rightarrow> (Inl e, w)
                | Inr parent_canon \<Rightarrow>
                    if \<not> is_prefix root parent_canon then (ar_err ArEscape ''extract path escapes staging root'', w)
                    else (Inr out, w))
          else (Inr out, w))"

definition deny_symlink :: "'w extract_host \<Rightarrow> fs_path \<Rightarrow> ('w, unit) fs_action" where
  "deny_symlink X p w =
     (case xh_link_status X p w of
        NoEntry \<Rightarrow> (Inr (), w)
      | StatusError \<Rightarrow> (ar_err ArIo ''symlink_metadata'', w)
      | SymlinkEntry \<Rightarrow> (ar_err ArEscape ''symlink rejected'', w)
      | OtherEntry \<Rightarrow> (Inr (), w))"

definition make_directory :: "'w extract_host \<Rightarrow> fs_path \<Rightarrow> ('w, unit) fs_action" where
  "make_directory X p = fs_then (xh_create_dir_all X p) (\<lambda>_. deny_symlink X p)"

definition open_file :: "'w extract_host \<Rightarrow> fs_path \<Rightarrow> ('w, unit) fs_action" where
  "open_file X dest =
     fs_then (if dest \<noteq> [] then make_directory X (butlast dest) else fs_ok ()) (\<lambda>_ w.
       if xh_link_status X dest w = SymlinkEntry then (ar_err ArEscape ''refusing to write through symlink'', w)
       else xh_create_file X dest w)"

definition close_file :: "'w extract_host \<Rightarrow> fs_path \<Rightarrow> bool \<Rightarrow> ('w, unit) fs_action" where
  "close_file X dest executable =
     fs_then (xh_set_mode X dest (if executable then 493 else 420)) (\<lambda>_. deny_symlink X dest)"

definition extract_entry ::
  "(string \<Rightarrow> string) \<Rightarrow> 'w extract_host \<Rightarrow> fs_path \<Rightarrow> extract_limits \<Rightarrow> archive_entry \<Rightarrow> u64 \<Rightarrow> ('w, u64) fs_action" where
  "extract_entry nfc X root limits e tot =
     (if length (ae_path e) > xl_max_path_bytes limits then fs_fail ArLimit ''path length ceiling exceeded''
      else fs_then (fs_lift (validate_archive_path nfc (trim_end_slash (ae_path e)) (ae_kind e = EntryDirectory))) (\<lambda>path.
        if path \<noteq> ae_path e then fs_fail ArPath ''entry path not normalized''
        else let tot' = sat_add64 tot (length (ae_data e))
             in if tot' > xl_max_uncompressed_bytes limits then fs_fail ArLimit ''expanded size ceiling exceeded''
                else fs_then (join_jail X root (trim_end_slash path)) (\<lambda>dest.
                  fs_then
                    (case ae_kind e of
                       EntryDirectory \<Rightarrow> make_directory X dest
                     | EntryFile \<Rightarrow>
                         fs_then (open_file X dest) (\<lambda>_.
                         fs_then (xh_append X dest (ae_data e)) (\<lambda>_. close_file X dest (ae_executable e))))
                    (\<lambda>_. fs_ok tot'))))"

fun extract_loop ::
  "(string \<Rightarrow> string) \<Rightarrow> 'w extract_host \<Rightarrow> fs_path \<Rightarrow> extract_limits \<Rightarrow> archive_entry list \<Rightarrow> u64 \<Rightarrow> ('w, unit) fs_action" where
  "extract_loop nfc X root limits [] tot = fs_ok ()"
| "extract_loop nfc X root limits (e # es) tot =
     fs_then (extract_entry nfc X root limits e tot) (\<lambda>tot'. extract_loop nfc X root limits es tot')"

definition extract_entries ::
  "(string \<Rightarrow> string) \<Rightarrow> 'w extract_host \<Rightarrow> fs_path \<Rightarrow> archive_entry list \<Rightarrow> extract_limits \<Rightarrow> ('w, unit) fs_action" where
  "extract_entries nfc X staging_root entries limits w =
     (case xh_canonicalize X staging_root w of
        Inl e \<Rightarrow> (Inl e, w)
      | Inr root \<Rightarrow>
          if length entries > xl_max_files limits then (ar_err ArLimit ''file count ceiling exceeded'', w)
          else extract_loop nfc X root limits entries 0 w)"

section \<open>Streaming extraction\<close>

text \<open>
  A reader gives its bytes and then ends: cleanly, early, or with another error. Reading past the
  bytes is an error in each case; only the probe for trailing data tells them apart.
\<close>

datatype reader_end = CleanEnd | EarlyEnd | BrokenEnd

definition stream_exact :: "usize \<Rightarrow> bytes \<Rightarrow> archive_error + bytes \<times> bytes" where
  "stream_exact n input =
     (if length input < n then ar_err ArFormat ''failed to fill whole buffer'' else Inr (take n input, drop n input))"

definition copy_chunk :: usize where "copy_chunk = 64 * 1024"

function copy_exact :: "'w extract_host \<Rightarrow> fs_path \<Rightarrow> u64 \<Rightarrow> bytes \<Rightarrow> ('w, bytes) fs_action" where
  "copy_exact X dest remaining input =
     (if remaining = 0 then fs_ok input
      else let n = min remaining copy_chunk
           in fs_then (fs_lift (stream_exact n input)) (\<lambda>(buf, input').
              fs_then (xh_append X dest buf) (\<lambda>_. copy_exact X dest (remaining - n) input')))"
  by auto
termination
  by (relation "measure (\<lambda>(_, _, remaining, _). remaining)") (auto simp: copy_chunk_def)

declare copy_exact.simps [simp del]

text \<open>The padding of a block is shorter than the buffer, so one round discards it.\<close>

definition discard_exact :: "u64 \<Rightarrow> bytes \<Rightarrow> archive_error + bytes" where
  "discard_exact remaining input =
     (if remaining = 0 then Inr input
      else and_then (stream_exact remaining input) (\<lambda>(buf, input').
        if \<exists>b \<in> set buf. b \<noteq> 0 then ar_err ArFormat ''non-zero ustar padding'' else Inr input'))"

definition extract_one ::
  "'w extract_host \<Rightarrow> fs_path \<Rightarrow> extract_limits \<Rightarrow> usize \<Rightarrow> u64 \<Rightarrow> string \<times> entry_kind \<times> bool \<times> u64 \<Rightarrow> bytes \<Rightarrow>
   ('w, u64 \<times> bytes) fs_action" where
  "extract_one X root limits file_count expanded parsed input =
     (case parsed of (path, kind, executable, sz) \<Rightarrow>
      if file_count \<ge> xl_max_files limits then fs_fail ArLimit ''file count ceiling exceeded''
      else if length path > xl_max_path_bytes limits then fs_fail ArLimit ''path length ceiling exceeded''
      else let expanded' = sat_add64 expanded sz
           in if expanded' > xl_max_uncompressed_bytes limits then fs_fail ArLimit ''expanded size ceiling exceeded''
              else fs_then (join_jail X root (trim_end_slash path)) (\<lambda>dest.
                case kind of
                  EntryDirectory \<Rightarrow>
                    if sz \<noteq> 0 then fs_fail ArFormat ''directory entry has payload''
                    else fs_then (make_directory X dest) (\<lambda>_. fs_ok (expanded', input))
                | EntryFile \<Rightarrow>
                    fs_then (open_file X dest) (\<lambda>_.
                    fs_then (copy_exact X dest sz input) (\<lambda>input'.
                    fs_then (close_file X dest executable) (\<lambda>_.
                    fs_then (fs_lift (discard_exact ((ustar_block - sz mod ustar_block) mod ustar_block) input')) (\<lambda>input''.
                    fs_ok (expanded', input'')))))))"

text \<open>
  The loop reads a header of 512 bytes in every round; the fuel is the length of the input, which
  bounds the number of rounds.
\<close>

definition extract_round ::
  "(string \<Rightarrow> string) \<Rightarrow> 'w extract_host \<Rightarrow> fs_path \<Rightarrow> extract_limits \<Rightarrow> reader_end \<Rightarrow>
   (usize \<Rightarrow> u64 \<Rightarrow> bytes \<Rightarrow> ('w, usize) fs_action) \<Rightarrow> usize \<Rightarrow> u64 \<Rightarrow> bytes \<Rightarrow> ('w, usize) fs_action" where
  "extract_round nfc X root limits fin next_round file_count expanded input =
     fs_then (fs_lift (stream_exact ustar_block input)) (\<lambda>(header, in1).
       if \<forall>b \<in> set header. b = 0
       then fs_then (fs_lift (stream_exact ustar_block in1)) (\<lambda>(header2, in2).
              if \<not> (\<forall>b \<in> set header2. b = 0) then fs_fail ArFormat ''ustar end marker missing second zero block''
              else if in2 \<noteq> [] then fs_fail ArFormat ''trailing data after ustar end markers''
              else if fin = BrokenEnd then fs_fail ArIo ''reader''
              else fs_ok file_count)
       else fs_then (fs_lift (parse_header nfc header)) (\<lambda>parsed.
              fs_then (extract_one X root limits file_count expanded parsed in1) (\<lambda>(expanded', in2).
                next_round (sat_add64 file_count 1) expanded' in2)))"

primrec extract_rounds ::
  "nat \<Rightarrow> (string \<Rightarrow> string) \<Rightarrow> 'w extract_host \<Rightarrow> fs_path \<Rightarrow> extract_limits \<Rightarrow> reader_end \<Rightarrow>
   usize \<Rightarrow> u64 \<Rightarrow> bytes \<Rightarrow> ('w, usize) fs_action" where
  "extract_rounds 0 nfc X root limits fin = (\<lambda>file_count expanded input. fs_fail ArFormat ''failed to fill whole buffer'')"
| "extract_rounds (Suc fuel) nfc X root limits fin =
     extract_round nfc X root limits fin (extract_rounds fuel nfc X root limits fin)"

definition extract_ustar_from_reader ::
  "(string \<Rightarrow> string) \<Rightarrow> 'w extract_host \<Rightarrow> bytes \<times> reader_end \<Rightarrow> fs_path \<Rightarrow> extract_limits \<Rightarrow> ('w, usize) fs_action" where
  "extract_ustar_from_reader nfc X reader staging_root limits w =
     (case xh_canonicalize X staging_root w of
        Inl e \<Rightarrow> (Inl e, w)
      | Inr root \<Rightarrow> extract_rounds (Suc (length (fst reader))) nfc X root limits (snd reader) 0 0 (fst reader) w)"

definition extract_ustar_zstd_from_reader ::
  "(string \<Rightarrow> string) \<Rightarrow> 'w extract_host \<Rightarrow> (bytes \<Rightarrow> archive_error + bytes \<times> reader_end) \<Rightarrow> bytes \<Rightarrow> fs_path \<Rightarrow>
   extract_limits \<Rightarrow> ('w, usize) fs_action" where
  "extract_ustar_zstd_from_reader nfc X unzstd archive_zst staging_root limits =
     fs_then (fs_lift (unzstd archive_zst)) (\<lambda>decoder. extract_ustar_from_reader nfc X decoder staging_root limits)"

section \<open>Materialization\<close>

datatype rename_outcome = Renamed | RenameExists | RenameFailed

datatype mkdir_outcome = DirCreated | DirExists | DirFailed

record 'w release_host = "'w extract_host" +
  rh_create_dir :: "fs_path \<Rightarrow> 'w \<Rightarrow> mkdir_outcome \<times> 'w"
  rh_rename_noreplace :: "fs_path \<Rightarrow> fs_path \<Rightarrow> 'w \<Rightarrow> rename_outcome \<times> 'w"
  rh_remove_dir_all :: "fs_path \<Rightarrow> 'w \<Rightarrow> 'w"
  rh_random_name :: "'w \<Rightarrow> string \<times> 'w"

record materialized_release =
  mr_root :: fs_path
  mr_capsule_id :: string
  mr_file_count :: usize

definition host_of :: "'w release_host \<Rightarrow> 'w extract_host" where
  "host_of X = extract_host.truncate X"

fun create_exclusive_staging :: "nat \<Rightarrow> 'w release_host \<Rightarrow> fs_path \<Rightarrow> ('w, fs_path) fs_action" where
  "create_exclusive_staging 0 X apps w = (ar_err ArIo ''exhausted exclusive staging directory attempts'', w)"
| "create_exclusive_staging (Suc n) X apps w =
     (let (nm, w1) = rh_random_name X w;
          staging = apps @ [''.staging-'' @ nm]
      in case rh_create_dir X staging w1 of
           (DirCreated, w2) \<Rightarrow> (Inr staging, w2)
         | (DirExists, w2) \<Rightarrow> create_exclusive_staging n X apps w2
         | (DirFailed, w2) \<Rightarrow> (ar_err ArIo ''create_dir'', w2))"

definition publish_no_replace :: "'w release_host \<Rightarrow> fs_path \<Rightarrow> fs_path \<Rightarrow> ('w, unit) fs_action" where
  "publish_no_replace X staging target w =
     (case rh_rename_noreplace X staging target w of
        (Renamed, w1) \<Rightarrow> (Inr (), w1)
      | (RenameExists, w1) \<Rightarrow> (ar_err ArIo ''materialization already exists'', w1)
      | (RenameFailed, w1) \<Rightarrow> (ar_err ArIo ''atomic materialize rename failed'', w1))"

definition materialize_application_archive ::
  "(string \<Rightarrow> string) \<Rightarrow> 'w release_host \<Rightarrow> (bytes \<Rightarrow> archive_error + bytes \<times> reader_end) \<Rightarrow> fs_path \<Rightarrow> string \<Rightarrow> bytes \<Rightarrow>
   extract_limits \<Rightarrow> ('w, materialized_release) fs_action" where
  "materialize_application_archive nfc X unzstd state_root capsule_id archive_zst limits =
     (let apps = state_root @ [''apps'']; target = apps @ [capsule_id]
      in fs_then (xh_create_dir_all X apps) (\<lambda>_ w1.
         if xh_exists X target w1 then (ar_err ArIo ''materialization already exists'', w1)
         else fs_then (create_exclusive_staging 64 X apps) (\<lambda>staging w2.
           case fs_then (extract_ustar_zstd_from_reader nfc (host_of X) unzstd archive_zst staging limits) (\<lambda>file_count.
                fs_then (publish_no_replace X staging target) (\<lambda>_.
                fs_ok \<lparr>mr_root = target, mr_capsule_id = capsule_id, mr_file_count = file_count\<rparr>)) w2 of
             (Inr r, w3) \<Rightarrow> (Inr r, w3)
           | (Inl e, w3) \<Rightarrow> (Inl e, rh_remove_dir_all X staging w3)) w1))"

section \<open>Confinement\<close>

text \<open>
  A property of the file system that no change at or below a directory can affect, given as a
  predicate kept by every operation on a path there.
\<close>

definition kept_below :: "'w extract_host \<Rightarrow> fs_path \<Rightarrow> ('w \<Rightarrow> bool) \<Rightarrow> bool" where
  "kept_below X root P \<longleftrightarrow>
     (\<forall>p w. is_prefix root p \<and> P w \<longrightarrow>
        P (snd (xh_create_dir_all X p w)) \<and> P (snd (xh_create_file X p w)) \<and>
        (\<forall>b. P (snd (xh_append X p b w))) \<and> (\<forall>m. P (snd (xh_set_mode X p m w))))"

definition fs_keeps :: "('w \<Rightarrow> bool) \<Rightarrow> ('w, 'a) fs_action \<Rightarrow> bool" where
  "fs_keeps P m \<longleftrightarrow> (\<forall>w. P w \<longrightarrow> P (snd (m w)))"

lemma fs_keepsD: "fs_keeps P m \<Longrightarrow> P w \<Longrightarrow> P (snd (m w))"
  by (simp add: fs_keeps_def)

lemma fs_keeps_then:
  "fs_keeps P m \<Longrightarrow> (\<And>a w w'. m w = (Inr a, w') \<Longrightarrow> fs_keeps P (f a)) \<Longrightarrow> fs_keeps P (fs_then m f)"
  unfolding fs_keeps_def fs_then_def by (auto split: prod.splits sum.splits)

lemma fs_keeps_basic [simp]:
  "fs_keeps P (fs_ok a)" "fs_keeps P (fs_fail k m)" "fs_keeps P (fs_lift r)" "fs_keeps P (deny_symlink X p)"
  by (auto simp: fs_keeps_def fs_ok_def fs_fail_def fs_lift_def deny_symlink_def split: link_status.splits)

lemma is_prefix_append [simp]: "is_prefix root (root @ segs)"
  by (simp add: is_prefix_def)

lemma kept_belowD:
  assumes "kept_below X root P" "is_prefix root p"
  shows "fs_keeps P (xh_create_dir_all X p)" "fs_keeps P (xh_create_file X p)"
    "fs_keeps P (xh_append X p b)" "fs_keeps P (xh_set_mode X p m)"
  using assms by (auto simp: kept_below_def fs_keeps_def)

lemma make_directory_keeps: "kept_below X root P \<Longrightarrow> is_prefix root p \<Longrightarrow> fs_keeps P (make_directory X p)"
  unfolding make_directory_def by (intro fs_keeps_then kept_belowD fs_keeps_basic)

lemma open_file_keeps:
  assumes k: "kept_below X root P" and "segs \<noteq> []"
  shows "fs_keeps P (open_file X (root @ segs))"
proof -
  have p: "is_prefix root (root @ segs)" "is_prefix root (butlast (root @ segs))"
    using assms(2) by (simp_all add: butlast_append)
  have "fs_keeps P (\<lambda>w. if xh_link_status X (root @ segs) w = SymlinkEntry
      then (ar_err ArEscape ''refusing to write through symlink'', w) else xh_create_file X (root @ segs) w)"
    using fs_keepsD [OF kept_belowD(2) [OF k p(1)]] by (auto simp: fs_keeps_def)
  then show ?thesis unfolding open_file_def by (intro fs_keeps_then) (auto intro: make_directory_keeps [OF k p(2)])
qed

lemma close_file_keeps: "kept_below X root P \<Longrightarrow> is_prefix root p \<Longrightarrow> fs_keeps P (close_file X p x)"
  unfolding close_file_def by (intro fs_keeps_then kept_belowD fs_keeps_basic)

lemma jail_segments_Inr: "jail_segments segs = Inr out \<Longrightarrow> out = segs"
  by (induction segs arbitrary: out) (auto simp: ar_err_def and_then_Inr split: if_splits)

lemma join_jail_Inr:
  assumes "join_jail X root rel w = (Inr dest, w')"
  obtains segs where "dest = root @ segs" "segs \<noteq> []"
proof -
  have "\<exists>segs. jail_segments (split_slash rel) = Inr segs \<and> dest = root @ segs"
    using assms by (auto simp: join_jail_def fs_then_def fs_lift_def Let_def ar_err_def split: sum.splits if_splits)
  then show ?thesis using that jail_segments_Inr split_slash_ne by metis
qed

lemma join_jail_keeps [simp]: "fs_keeps P (join_jail X root rel)"
  by (auto simp: fs_keeps_def join_jail_def fs_then_def fs_lift_def Let_def split: sum.splits)

lemma copy_exact_keeps: "kept_below X root P \<Longrightarrow> is_prefix root p \<Longrightarrow> fs_keeps P (copy_exact X p n input)"
proof (induction n arbitrary: input rule: less_induct)
  case (less n)
  show ?case
  proof (cases "n = 0")
    case False
    have "n - min n copy_chunk < n" using False by (simp add: copy_chunk_def)
    then show ?thesis
      using False less
      by (subst copy_exact.simps) (auto simp: Let_def intro!: fs_keeps_then kept_belowD(3))
  qed (simp add: copy_exact.simps)
qed

lemma extract_one_keeps:
  assumes k: "kept_below X root P"
  shows "fs_keeps P (extract_one X root limits n m parsed input)"
proof -
  have f: "fs_keeps P (fs_then (open_file X dest) (\<lambda>_. fs_then (copy_exact X dest sz input) (\<lambda>input'.
      fs_then (close_file X dest x) (\<lambda>_. fs_then (fs_lift (g input')) (\<lambda>i. fs_ok (e, i))))))"
    if "dest = root @ segs" "segs \<noteq> []" for dest segs sz x g and e :: u64
    using that k by (auto intro!: fs_keeps_then open_file_keeps copy_exact_keeps close_file_keeps)
  have d: "fs_keeps P (fs_then (make_directory X dest) (\<lambda>_. fs_ok (e, input)))" if "dest = root @ segs"
    for dest segs and e :: u64
    using that k by (auto intro!: fs_keeps_then make_directory_keeps)
  show ?thesis
    unfolding extract_one_def Let_def
    by (cases parsed) (auto intro!: fs_keeps_then f d elim!: join_jail_Inr split: entry_kind.splits)
qed

lemma extract_rounds_keeps:
  "kept_below X root P \<Longrightarrow> fs_keeps P (extract_rounds fuel nfc X root limits fin n m input)"
  by (induction fuel arbitrary: n m input) (auto simp: extract_round_def intro!: fs_keeps_then extract_one_keeps)

lemma extract_entry_keeps:
  assumes k: "kept_below X root P"
  shows "fs_keeps P (extract_entry nfc X root limits e tot)"
proof -
  have "fs_keeps P (case ae_kind e of EntryDirectory \<Rightarrow> make_directory X (root @ segs) | EntryFile \<Rightarrow>
      fs_then (open_file X (root @ segs)) (\<lambda>_. fs_then (xh_append X (root @ segs) (ae_data e)) (\<lambda>_.
        close_file X (root @ segs) (ae_executable e))))"
    if "segs \<noteq> []" for segs
    using that k
    by (cases "ae_kind e") (auto intro!: fs_keeps_then open_file_keeps close_file_keeps make_directory_keeps kept_belowD(3))
  then show ?thesis
    unfolding extract_entry_def Let_def by (auto intro!: fs_keeps_then elim!: join_jail_Inr)
qed

lemma extract_loop_keeps: "kept_below X root P \<Longrightarrow> fs_keeps P (extract_loop nfc X root limits es tot)"
  by (induction es arbitrary: tot) (auto intro!: fs_keeps_then extract_entry_keeps)




text \<open>The buffered extraction is confined in the same way.\<close>

theorem buffered_extraction_confined:
  assumes "xh_canonicalize X staging w = Inr root" and "kept_below X root P" and "P w"
  shows "P (snd (extract_entries nfc X staging entries limits w))"
  using fs_keepsD [OF extract_loop_keeps [OF assms(2)] assms(3)] assms(1,3) by (simp add: extract_entries_def)

section \<open>The fuel is enough\<close>

lemma copy_exact_length:
  "copy_exact X p n input w = (Inr input', w') \<Longrightarrow> length input' \<le> length input"
proof (induction n arbitrary: input w rule: less_induct)
  case (less n)
  show ?case
  proof (cases "n = 0")
    case True
    then show ?thesis using less.prems by (simp add: copy_exact.simps fs_ok_def)
  next
    case False
    have "n - min n copy_chunk < n" using False by (simp add: copy_chunk_def)
    moreover obtain buf rest w1 where "stream_exact (min n copy_chunk) input = Inr (buf, rest)"
      "copy_exact X p (n - min n copy_chunk) rest w1 = (Inr input', w')"
      using less.prems False
      by (subst (asm) copy_exact.simps)
        (auto simp: Let_def fs_then_def fs_lift_def split: sum.splits prod.splits)
    ultimately show ?thesis using less.IH by (fastforce simp: stream_exact_def ar_err_def split: if_splits)
  qed
qed

lemma discard_exact_length: "discard_exact n input = Inr input' \<Longrightarrow> length input' \<le> length input"
  by (auto simp: discard_exact_def and_then_Inr stream_exact_def ar_err_def split: if_splits)

lemma extract_one_length:
  "extract_one X root limits n m parsed input w = (Inr (m', input'), w') \<Longrightarrow> length input' \<le> length input"
  by (cases parsed)
    (auto simp: extract_one_def Let_def fs_then_def fs_fail_def fs_ok_def fs_lift_def ar_err_def
      dest!: copy_exact_length discard_exact_length intro: le_trans split: if_splits sum.splits prod.splits entry_kind.splits)

lemma extract_round_next:
  assumes "\<And>c e in2. length in2 < length input \<Longrightarrow> f c e in2 = g c e in2"
  shows "extract_round nfc X root limits fin f c e input w = extract_round nfc X root limits fin g c e input w"
proof (cases "stream_exact ustar_block input")
  case (Inr read)
  obtain header in1 where r: "read = (header, in1)" by (cases read)
  then have len: "length in1 < length input"
    using Inr by (auto simp: stream_exact_def ustar_block_def ar_err_def split: if_splits)
  have "fs_then (extract_one X root limits c e parsed in1) (\<lambda>(e', in2). f c' e' in2) w' =
      fs_then (extract_one X root limits c e parsed in1) (\<lambda>(e', in2). g c' e' in2) w'" for parsed c' w'
    using extract_one_length [of X root limits c e parsed in1 w'] assms len
    by (fastforce simp: fs_then_def split: prod.splits sum.splits)
  then show ?thesis using Inr r by (simp add: extract_round_def fs_then_def fs_lift_def split: sum.split)
qed (simp add: extract_round_def fs_then_def fs_lift_def)

lemma extract_rounds_fuel:
  assumes "length input < n" "length input < n'"
  shows "extract_rounds n nfc X root limits fin c e input = extract_rounds n' nfc X root limits fin c e input"
  using assms
proof (induction n arbitrary: n' c e input)
  case (Suc k)
  then obtain k' where k': "n' = Suc k'" by (cases n') auto
  have same: "extract_rounds k nfc X root limits fin c' e' in2 = extract_rounds k' nfc X root limits fin c' e' in2"
    if "length in2 < length input" for c' e' in2
    using Suc.IH [of in2 k'] Suc.prems k' that by simp
  show ?case unfolding k' extract_rounds.simps by (rule ext, rule extract_round_next) (rule same)
qed simp

section \<open>Materialization\<close>

text \<open>A release that is already there is not touched.\<close>

theorem materialize_existing_refused:
  assumes "xh_create_dir_all X (state_root @ [''apps'']) w = (Inr (), w1)"
    and "xh_exists X (state_root @ [''apps'', capsule_id]) w1"
  shows "materialize_application_archive nfc X unzstd state_root capsule_id archive limits w =
    (ar_err ArIo ''materialization already exists'', w1)"
  using assms by (simp add: materialize_application_archive_def fs_then_def Let_def)

definition staging_path :: "fs_path \<Rightarrow> string \<Rightarrow> fs_path" where
  "staging_path apps nm = apps @ [''.staging-'' @ nm]"

text \<open>
  A property that no change to the staging directories can affect, and that a rename keeps unless it
  takes place.
\<close>

definition kept_by_staging :: "'w release_host \<Rightarrow> fs_path \<Rightarrow> ('w \<Rightarrow> bool) \<Rightarrow> bool" where
  "kept_by_staging X apps P \<longleftrightarrow>
     fs_keeps P (xh_create_dir_all X apps) \<and>
     (\<forall>w. P w \<longrightarrow> P (snd (rh_random_name X w))) \<and>
     (\<forall>nm w. P w \<longrightarrow> P (snd (rh_create_dir X (staging_path apps nm) w)) \<and> P (rh_remove_dir_all X (staging_path apps nm) w) \<and>
        (\<forall>target. fst (rh_rename_noreplace X (staging_path apps nm) target w) \<noteq> Renamed \<longrightarrow>
           P (snd (rh_rename_noreplace X (staging_path apps nm) target w))) \<and>
        (\<forall>root. xh_canonicalize X (staging_path apps nm) w = Inr root \<longrightarrow> kept_below (host_of X) root P))"

lemma create_exclusive_staging_keeps:
  assumes "kept_by_staging X apps P" "P w"
  shows "P (snd (create_exclusive_staging n X apps w))"
    "create_exclusive_staging n X apps w = (Inr st, w') \<Longrightarrow> P w' \<and> (\<exists>nm. st = staging_path apps nm)"
proof -
  have "P (snd (create_exclusive_staging n X apps w)) \<and>
    (create_exclusive_staging n X apps w = (Inr st, w') \<longrightarrow> P w' \<and> (\<exists>nm. st = staging_path apps nm))"
    using assms(2)
  proof (induction n arbitrary: w)
    case (Suc n)
    obtain nm w1 where nm: "rh_random_name X w = (nm, w1)" by (cases "rh_random_name X w")
    obtain oc w2 where oc: "rh_create_dir X (staging_path apps nm) w1 = (oc, w2)" by (cases "rh_create_dir X (staging_path apps nm) w1")
    have "P w1" using assms(1) Suc.prems nm by (auto simp: kept_by_staging_def dest: spec [of _ w])
    then have w2: "P w2" using assms(1) oc by (auto simp: kept_by_staging_def) (metis snd_conv)
    show ?case using Suc.IH [OF w2] w2 nm oc [unfolded staging_path_def]
      by (cases oc) (auto simp: staging_path_def ar_err_def)
  qed (simp add: ar_err_def)
  then show "P (snd (create_exclusive_staging n X apps w))"
    "create_exclusive_staging n X apps w = (Inr st, w') \<Longrightarrow> P w' \<and> (\<exists>nm. st = staging_path apps nm)" by blast+
qed

lemma host_of_canonicalize [simp]: "xh_canonicalize (host_of X) = xh_canonicalize X"
  by (simp add: host_of_def extract_host.truncate_def)

lemma extract_into_staging_keeps:
  assumes "kept_by_staging X apps P" "P w"
  shows "P (snd (extract_ustar_zstd_from_reader nfc (host_of X) unzstd archive (staging_path apps nm) limits w))"
proof -
  have "P (snd (extract_ustar_from_reader nfc (host_of X) reader (staging_path apps nm) limits w))" for reader
  proof (cases "xh_canonicalize X (staging_path apps nm) w")
    case (Inr root)
    then have "kept_below (host_of X) root P" using assms by (auto simp: kept_by_staging_def)
    from fs_keepsD [OF extract_rounds_keeps [OF this] assms(2)] Inr show ?thesis
      by (simp add: extract_ustar_from_reader_def del: extract_rounds.simps)
  qed (use assms(2) in \<open>simp add: extract_ustar_from_reader_def\<close>)
  then show ?thesis using assms(2)
    by (auto simp: extract_ustar_zstd_from_reader_def fs_then_def fs_lift_def split: sum.splits)
qed

text \<open>
  A materialization that fails leaves the directory of releases as it was: whatever staging cannot
  affect still holds, whichever step failed.
\<close>

theorem materialize_failure_keeps:
  assumes "kept_by_staging X (state_root @ [''apps'']) P" "P w"
    and "materialize_application_archive nfc X unzstd state_root capsule_id archive limits w = (Inl e, w')"
  shows "P w'"
proof -
  let ?apps = "state_root @ [''apps'']"
  let ?target = "?apps @ [capsule_id]"
  obtain r1 w1 where c: "xh_create_dir_all X ?apps w = (r1, w1)" by (cases "xh_create_dir_all X ?apps w")
  have w1: "P w1" using assms(1,2) c by (auto simp: kept_by_staging_def fs_keeps_def)
  obtain r2 w2 where st: "create_exclusive_staging 64 X ?apps w1 = (r2, w2)" by (cases "create_exclusive_staging 64 X ?apps w1")
  have w2: "P w2" using create_exclusive_staging_keeps(1) [OF assms(1) w1, of 64] st by simp
  have failed: "P (rh_remove_dir_all X staging w3)"
    if "staging = staging_path ?apps nm"
      and body: "fs_then (extract_ustar_zstd_from_reader nfc (host_of X) unzstd archive staging limits) (\<lambda>file_count.
                fs_then (publish_no_replace X staging ?target) (\<lambda>_.
                fs_ok (R file_count))) w2 = (Inl e', w3)" for staging nm R e' w3
  proof -
    obtain r4 w4 where x: "extract_ustar_zstd_from_reader nfc (host_of X) unzstd archive staging limits w2 = (r4, w4)"
      by (cases "extract_ustar_zstd_from_reader nfc (host_of X) unzstd archive staging limits w2")
    have w4: "P w4" using extract_into_staging_keeps [OF assms(1) w2, of nfc unzstd archive nm limits] x that(1) by simp
    obtain oc w5 where y: "rh_rename_noreplace X staging ?target w4 = (oc, w5)"
      by (cases "rh_rename_noreplace X staging ?target w4")
    have w5: "P w5" if "oc \<noteq> Renamed" using assms(1) w4 y that \<open>staging = _\<close> unfolding kept_by_staging_def by (metis fst_conv snd_conv)
    have "P w3" using body x y w4 w5
      by (cases r4; cases oc) (auto simp: fs_then_def publish_no_replace_def fs_ok_def ar_err_def)
    then show ?thesis using assms(1) that(1) by (simp add: kept_by_staging_def)
  qed
  show ?thesis
  proof (cases r1)
    case (Inr u)
    then have c': "xh_create_dir_all X ?apps w = (Inr (), w1)" using c by simp
    show ?thesis
    proof (cases "xh_exists X ?target w1")
      case True
      then show ?thesis using assms(3) c' w1 by (simp add: materialize_application_archive_def fs_then_def [of "xh_create_dir_all X _"] Let_def)
    next
      case False
      show ?thesis
      proof (cases r2)
        case (Inr staging)
        obtain nm where nm: "staging = staging_path ?apps nm"
          using create_exclusive_staging_keeps(2) [OF assms(1) w1, of 64 staging w2] st Inr by auto
        from assms(3) False c' st [unfolded Inr] failed [OF nm] show ?thesis
          by (auto simp: materialize_application_archive_def fs_then_def [of "xh_create_dir_all X _"]
              fs_then_def [of "create_exclusive_staging _ _ _"] Let_def split: prod.splits sum.splits)
      qed (use assms(3) False c' st w2 in \<open>simp add: materialize_application_archive_def fs_then_def [of "xh_create_dir_all X _"]
            fs_then_def [of "create_exclusive_staging _ _ _"] Let_def\<close>)
    qed
  qed (use assms(3) c w1 in \<open>simp add: materialize_application_archive_def fs_then_def Let_def\<close>)
qed

end
