(* ===== verification/Spec2Isabelle.thy ===== *)
theory Spec2Isabelle
  imports Record_Properties Controller_Authority Cluster_Membership Access_Policy Cluster_Properties
    Resource_Ledger Placement Hiccup_Properties Hiccup_Exchange Agent_Properties
    Wire_Frames Capsule_Writing Archive_Roundtrip Archive_Extract
begin

text \<open>
  Verification of \<^emph>\<open>gump\<close>, a clustered workload runner written in Rust.
\<close>

end
